(* ===== verification/Prelude.thy ===== *)
theory Prelude
  imports Main "HOL-Library.Signed_Division"
begin

text \<open>
  What every component theory shares: programs that return a value, return an error or
  trap, with a weakest-precondition calculus for them; Rust's checked, saturating and
  overflow-trapping arithmetic; sums over the finite maps that model storage.

  A contract function is a \<open>prog\<close>: it takes the state and has one of three outcomes.
  \<open>Ok a s\<close> is a normal return, \<open>Fail e s\<close> a returned \<open>Err(e)\<close>, and \<open>Trap\<close> a host trap
  or a panic. Rust keeps the writes made before an \<open>Err\<close> is returned to an inner caller, so
  \<open>Fail\<close> carries the state; only the host discards them, when the outermost call fails
  (\<open>invoke\<close> in theory Host). A trap always ends the whole invocation, so it carries none.
\<close>

section \<open>Programs\<close>

datatype ('e, 's, 'a) outcome = Ok 'a 's | Fail 'e 's | Trap

type_synonym ('e, 's, 'a) prog = "'s \<Rightarrow> ('e, 's, 'a) outcome"

definition ret :: "'a \<Rightarrow> ('e, 's, 'a) prog" where
  "ret a s = Ok a s"

definition fail :: "'e \<Rightarrow> ('e, 's, 'a) prog" where
  "fail e s = Fail e s"

definition trap :: "('e, 's, 'a) prog" where
  "trap s = Trap"

definition gets :: "('s \<Rightarrow> 'a) \<Rightarrow> ('e, 's, 'a) prog" where
  "gets f s = Ok (f s) s"

definition modify :: "('s \<Rightarrow> 's) \<Rightarrow> ('e, 's, unit) prog" where
  "modify f s = Ok () (f s)"

definition and_then :: "('e, 's, 'a) prog \<Rightarrow> ('a \<Rightarrow> ('e, 's, 'b) prog) \<Rightarrow> ('e, 's, 'b) prog" where
  "and_then m k s = (case m s of Ok a s' \<Rightarrow> k a s' | Fail e s' \<Rightarrow> Fail e s' | Trap \<Rightarrow> Trap)"

definition seq_do :: "('e, 's, 'a) prog \<Rightarrow> ('e, 's, 'b) prog \<Rightarrow> ('e, 's, 'b) prog" where
  "seq_do m k = and_then m (\<lambda>_. k)"

text \<open>A block of statements, each of which is left with \<open>?\<close> when it fails.\<close>

primrec block :: "('e, 's, unit) prog list \<Rightarrow> ('e, 's, unit) prog" where
  "block [] = ret ()"
| "block (m # ms) = seq_do m (block ms)"

text \<open>\<open>if !b { return Err(e) }\<close>, \<open>ok_or(e)?\<close>, an unconditional \<open>unwrap()\<close>.\<close>

definition ensure :: "bool \<Rightarrow> 'e \<Rightarrow> ('e, 's, unit) prog" where
  "ensure b e = (if b then ret () else fail e)"

definition ok_or :: "'a option \<Rightarrow> 'e \<Rightarrow> ('e, 's, 'a) prog" where
  "ok_or x e = (case x of None \<Rightarrow> fail e | Some a \<Rightarrow> ret a)"

definition unwrap :: "'a option \<Rightarrow> ('e, 's, 'a) prog" where
  "unwrap x = (case x of None \<Rightarrow> trap | Some a \<Rightarrow> ret a)"

definition trap_unless :: "bool \<Rightarrow> ('e, 's, unit) prog" where
  "trap_unless b = (if b then ret () else trap)"

text \<open>A \<open>Result\<close> kept as a value instead of being propagated with \<open>?\<close>.\<close>

definition attempt :: "('e, 's, 'a) prog \<Rightarrow> ('e, 's, 'e + 'a) prog" where
  "attempt m s = (case m s of Ok a s' \<Rightarrow> Ok (Inr a) s' | Fail e s' \<Rightarrow> Ok (Inl e) s' | Trap \<Rightarrow> Trap)"

primrec for_each :: "'x list \<Rightarrow> ('x \<Rightarrow> ('e, 's, unit) prog) \<Rightarrow> ('e, 's, unit) prog" where
  "for_each [] f = ret ()"
| "for_each (x # xs) f = seq_do (f x) (for_each xs f)"

primrec fold_prog :: "('x \<Rightarrow> 'a \<Rightarrow> ('e, 's, 'a) prog) \<Rightarrow> 'x list \<Rightarrow> 'a \<Rightarrow> ('e, 's, 'a) prog" where
  "fold_prog f [] a = ret a"
| "fold_prog f (x # xs) a = and_then (f x a) (fold_prog f xs)"

section \<open>Weakest preconditions\<close>

text \<open>
  \<open>wp m Q s\<close>: if \<open>m\<close> returns normally from \<open>s\<close>, then \<open>Q\<close> holds of its value and final
  state. Results that a program does return are stated with \<open>Ok\<close> directly.
\<close>

definition wp :: "('e, 's, 'a) prog \<Rightarrow> ('a \<Rightarrow> 's \<Rightarrow> bool) \<Rightarrow> 's \<Rightarrow> bool" where
  "wp m Q s = (case m s of Ok a s' \<Rightarrow> Q a s' | Fail e s' \<Rightarrow> True | Trap \<Rightarrow> True)"

named_theorems wp_simps
named_theorems run_simps

lemma wp_OkD: "wp m Q s \<Longrightarrow> m s = Ok a s' \<Longrightarrow> Q a s'"
  by (simp add: wp_def)

lemma wpI: "(\<And>a s'. m s = Ok a s' \<Longrightarrow> Q a s') \<Longrightarrow> wp m Q s"
  by (simp add: wp_def split: outcome.split)

lemma wp_conseq: "wp m P s \<Longrightarrow> (\<And>a s'. P a s' \<Longrightarrow> Q a s') \<Longrightarrow> wp m Q s"
  by (simp add: wp_def split: outcome.splits)

lemma wp_conj: "wp m (\<lambda>a s'. P a s' \<and> Q a s') s \<longleftrightarrow> wp m P s \<and> wp m Q s"
  by (simp add: wp_def split: outcome.splits)

lemma wp_True [simp, wp_simps]: "wp m (\<lambda>_ _. True) s"
  by (simp add: wp_def split: outcome.splits)

lemma wp_ret [wp_simps]: "wp (ret a) Q = Q a"
  by (rule ext) (simp add: wp_def ret_def)

lemma wp_fail [wp_simps]: "wp (fail e) Q s"
  by (simp add: wp_def fail_def)

lemma wp_trap [wp_simps]: "wp trap Q s"
  by (simp add: wp_def trap_def)

lemma wp_gets [wp_simps]: "wp (gets f) Q s = Q (f s) s"
  by (simp add: wp_def gets_def)

lemma wp_modify [wp_simps]: "wp (modify f) Q s = Q () (f s)"
  by (simp add: wp_def modify_def)

lemma wp_and_then [wp_simps]: "wp (and_then m k) Q s = wp m (\<lambda>a. wp (k a) Q) s"
  by (simp add: wp_def and_then_def split: outcome.splits)

lemma wp_seq_do [wp_simps]: "wp (seq_do m k) Q s = wp m (\<lambda>_. wp k Q) s"
  by (simp add: seq_do_def wp_and_then)

lemma wp_block_Nil [wp_simps]: "wp (block []) Q = Q ()"
  by (simp add: wp_ret)

lemma wp_block_Cons [wp_simps]: "wp (block (m # ms)) Q s = wp m (\<lambda>_. wp (block ms) Q) s"
  by (simp add: wp_seq_do)

lemma wp_ensure [wp_simps]: "wp (ensure b e) Q s = (b \<longrightarrow> Q () s)"
  by (simp add: ensure_def wp_ret wp_fail)

lemma wp_ok_or [wp_simps]: "wp (ok_or x e) Q s = (\<forall>a. x = Some a \<longrightarrow> Q a s)"
  by (cases x) (simp_all add: ok_or_def wp_ret wp_fail)

lemma wp_unwrap [wp_simps]: "wp (unwrap x) Q s = (\<forall>a. x = Some a \<longrightarrow> Q a s)"
  by (cases x) (simp_all add: unwrap_def wp_ret wp_trap)

lemma wp_trap_unless [wp_simps]: "wp (trap_unless b) Q s = (b \<longrightarrow> Q () s)"
  by (simp add: trap_unless_def wp_ret wp_trap)

lemma wp_if [wp_simps]: "wp (if b then m else n) Q s = (if b then wp m Q s else wp n Q s)"
  by simp

lemma wp_case_option [wp_simps]:
  "wp (case x of None \<Rightarrow> m | Some a \<Rightarrow> n a) Q s = (case x of None \<Rightarrow> wp m Q s | Some a \<Rightarrow> wp (n a) Q s)"
  by (cases x) simp_all

lemma wp_case_prod [wp_simps]:
  "wp (case p of (a, b) \<Rightarrow> m a b) Q s = (case p of (a, b) \<Rightarrow> wp (m a b) Q s)"
  by (cases p) simp

lemma wp_Let [wp_simps]: "wp (Let x m) Q s = (let a = x in wp (m a) Q s)"
  by simp

text \<open>A loop keeps what each of its iterations keeps.\<close>

lemma wp_for_each:
  assumes "I s" and "\<And>x s. x \<in> set xs \<Longrightarrow> I s \<Longrightarrow> wp (f x) (\<lambda>_. I) s"
  shows "wp (for_each xs f) (\<lambda>_. I) s"
  using assms
proof (induction xs arbitrary: s)
  case Nil
  then show ?case by (simp add: wp_ret)
next
  case (Cons x xs)
  from Cons.prems have "wp (f x) (\<lambda>_. I) s" by simp
  then show ?case
    by (simp add: wp_seq_do) (erule wp_conseq, simp add: Cons.IH Cons.prems)
qed

text \<open>An indexed form: \<open>I\<close> may depend on the elements still to come.\<close>

lemma wp_for_each_list:
  assumes "I xs s" and "\<And>x ys s. I (x # ys) s \<Longrightarrow> wp (f x) (\<lambda>_. I ys) s"
  shows "wp (for_each xs f) (\<lambda>_. I []) s"
  using assms(1)
proof (induction xs arbitrary: s)
  case Nil
  then show ?case by (simp add: wp_ret)
next
  case (Cons x xs)
  from Cons.prems have "wp (f x) (\<lambda>_. I xs) s" by (rule assms(2))
  then show ?case
    by (simp add: wp_seq_do) (erule wp_conseq, rule Cons.IH)
qed

lemma wp_fold_prog_list:
  assumes "I xs a s" and "\<And>x ys a s. I (x # ys) a s \<Longrightarrow> wp (f x a) (I ys) s"
  shows "wp (fold_prog f xs a) (I []) s"
  using assms(1)
proof (induction xs arbitrary: a s)
  case Nil
  then show ?case by (simp add: wp_ret)
next
  case (Cons x xs)
  from Cons.prems have "wp (f x a) (I xs) s" by (rule assms(2))
  then show ?case
    by (simp add: wp_and_then) (erule wp_conseq, rule Cons.IH)
qed

lemma wp_attempt [wp_simps]:
  "wp (attempt m) Q s = (case m s of Ok a t \<Rightarrow> Q (Inr a) t | Fail e t \<Rightarrow> Q (Inl e) t | Trap \<Rightarrow> True)"
  by (simp add: wp_def attempt_def split: outcome.split)

text \<open>Running a program on a known state: the equations \<open>simp\<close> evaluates with.\<close>

lemmas run_defs [run_simps] =
  ret_def fail_def trap_def gets_def modify_def and_then_def seq_do_def ensure_def ok_or_def
  unwrap_def trap_unless_def attempt_def

section \<open>Rust integers\<close>

text \<open>
  The crate is built with \<open>overflow-checks = true\<close>: plain \<open>+\<close>, \<open>-\<close> and \<open>*\<close> trap when the
  result does not fit, \<open>checked_add\<close> returns \<open>None\<close>, \<open>saturating_add\<close> clamps. An \<open>i128\<close> is an
  \<open>int\<close> with its range written out, \<open>u32\<close> and \<open>u64\<close> are \<open>nat\<close>s with theirs. Division
  truncates toward zero (\<open>sdiv\<close>, \<open>smod\<close>).
\<close>

type_synonym i128 = int
type_synonym u32 = nat
type_synonym u64 = nat

definition i128_max :: int where
  "i128_max = 170141183460469231731687303715884105727"

definition i128_range :: "int \<Rightarrow> bool" where
  "i128_range x \<longleftrightarrow> - i128_max - 1 \<le> x \<and> x \<le> i128_max"

definition u32_max :: nat where
  "u32_max = 4294967295"

definition chk :: "int \<Rightarrow> ('e, 's, int) prog" where
  "chk x = (if i128_range x then ret x else trap)"

definition chk_u32 :: "nat \<Rightarrow> ('e, 's, nat) prog" where
  "chk_u32 x = (if x \<le> u32_max then ret x else trap)"

definition checked_add :: "int \<Rightarrow> int \<Rightarrow> int option" where
  "checked_add a b = (if i128_range (a + b) then Some (a + b) else None)"

definition saturating_add :: "nat \<Rightarrow> nat \<Rightarrow> nat" where
  "saturating_add a b = min u32_max (a + b)"

definition saturating_sub :: "nat \<Rightarrow> nat \<Rightarrow> nat" where
  "saturating_sub a b = a - b"

lemma i128_max_pow: "i128_max = 2 ^ 127 - 1"
  by (simp add: i128_max_def)

lemma wp_chk [wp_simps]: "wp (chk x) Q s = (i128_range x \<longrightarrow> Q x s)"
  by (simp add: chk_def wp_ret wp_trap)

lemma wp_chk_u32 [wp_simps]: "wp (chk_u32 x) Q s = (x \<le> u32_max \<longrightarrow> Q x s)"
  by (simp add: chk_u32_def wp_ret wp_trap)

lemma checked_add_Some [simp]: "checked_add a b = Some c \<longleftrightarrow> c = a + b \<and> i128_range (a + b)"
  by (auto simp: checked_add_def)

lemma i128_rangeI: "0 \<le> x \<Longrightarrow> x \<le> y \<Longrightarrow> i128_range y \<Longrightarrow> i128_range x"
  by (simp add: i128_range_def i128_max_def)

lemma i128_range_0 [simp]: "i128_range 0"
  by (simp add: i128_range_def i128_max_def)

lemma saturating_add_le: "saturating_add a b \<le> a + b"
  by (simp add: saturating_add_def)

lemma saturating_add_max [simp]: "saturating_add a b \<le> u32_max"
  by (simp add: saturating_add_def)

lemma saturating_add_exact: "a + b \<le> u32_max \<Longrightarrow> saturating_add a b = a + b"
  by (simp add: saturating_add_def)

lemma sdiv_nonneg: "0 \<le> a \<Longrightarrow> 0 < b \<Longrightarrow> a sdiv b = a div (b::int)"
  by (cases "a = 0") (simp_all add: signed_divide_int_def)

lemma smod_nonneg: "0 \<le> a \<Longrightarrow> 0 < b \<Longrightarrow> a smod b = a mod (b::int)"
  by (cases "a = 0") (simp_all add: signed_modulo_int_def sgn_if)

section \<open>Invariants of programs\<close>

text \<open>\<open>stays I m\<close>: a committed run of \<open>m\<close> from a world with \<open>I\<close> ends in one.\<close>

definition stays :: "('s \<Rightarrow> bool) \<Rightarrow> ('e, 's, 'a) prog \<Rightarrow> bool" where
  "stays I m \<longleftrightarrow> (\<forall>s. I s \<longrightarrow> wp m (\<lambda>_. I) s)"

named_theorems stays_intros

lemma stays_and_then [stays_intros]: "stays I m \<Longrightarrow> (\<And>a. stays I (k a)) \<Longrightarrow> stays I (and_then m k)"
  unfolding stays_def wp_and_then by (blast intro: wp_conseq)

lemma stays_seq [stays_intros]: "stays I m \<Longrightarrow> stays I k \<Longrightarrow> stays I (seq_do m k)"
  unfolding seq_do_def by (rule stays_and_then)

lemma stays_block [stays_intros]: "stays I (block [])" "stays I m \<Longrightarrow> stays I (block ms) \<Longrightarrow> stays I (block (m # ms))"
  by (simp_all add: stays_intros) (simp add: stays_def wp_ret)

lemma stays_for_each [stays_intros]: "(\<And>x. stays I (f x)) \<Longrightarrow> stays I (for_each xs f)"
  unfolding stays_def by (blast intro: wp_for_each)

text \<open>A program that leaves what \<open>I\<close> sees keeps \<open>I\<close>, and what is known of a value may be used after it.\<close>

lemma stays_value: "(\<And>s. I s \<Longrightarrow> wp m (\<lambda>a u. I u \<and> P a) s) \<Longrightarrow> (\<And>a. P a \<Longrightarrow> stays I (k a)) \<Longrightarrow> stays I (and_then m k)"
  unfolding stays_def wp_and_then by (blast intro: wp_conseq)

lemma stays_basic [stays_intros]:
  "stays I (ret a)" "stays I (fail e)" "stays I trap" "stays I (gets f)" "stays I (ensure b e)"
  "stays I (ok_or x e)" "stays I (unwrap x)" "stays I (trap_unless b)" "stays I (chk i)" "stays I (chk_u32 n)"
  by (simp_all add: stays_def wp_simps)

lemma stays_fold [stays_intros]:
  assumes "\<And>x a. stays I (f x a)"
  shows "stays I (fold_prog f xs a)"
proof (induction xs arbitrary: a)
  case (Cons x xs)
  show ?case unfolding fold_prog.simps by (intro stays_and_then assms Cons.IH)
qed (simp add: stays_basic)

lemma stays_modify: "(\<And>s. I s \<Longrightarrow> I (g s)) \<Longrightarrow> stays I (modify g)"
  by (simp add: stays_def wp_modify)

lemma stays_branch [stays_intros]:
  "stays I m \<Longrightarrow> stays I n \<Longrightarrow> stays I (if b then m else n)"
  "stays I (k x) \<Longrightarrow> stays I (let y = x in k y)"
  "(\<And>a b. stays I (g a b)) \<Longrightarrow> stays I (case p of (a, b) \<Rightarrow> g a b)"
  "(\<And>e. stays I (f e)) \<Longrightarrow> (\<And>a. stays I (h a)) \<Longrightarrow> stays I (case r of Inl e \<Rightarrow> f e | Inr a \<Rightarrow> h a)"
  by (auto split: prod.split sum.split)

section \<open>Errors that leave no trace\<close>

text \<open>
  A \<open>reads\<close> program never changes the state, a \<open>sure\<close> one never returns an error, and a
  \<open>clean\<close> one returns an error only in the state it started from.
\<close>

definition reads :: "('e, 's, 'a) prog \<Rightarrow> bool" where
  "reads m \<longleftrightarrow> (\<forall>s u. (\<forall>a. m s = Ok a u \<longrightarrow> u = s) \<and> (\<forall>e. m s = Fail e u \<longrightarrow> u = s))"

definition sure :: "('e, 's, 'a) prog \<Rightarrow> bool" where
  "sure m \<longleftrightarrow> (\<forall>s e u. m s \<noteq> Fail e u)"

definition clean :: "('e, 's, 'a) prog \<Rightarrow> bool" where
  "clean m \<longleftrightarrow> (\<forall>s e u. m s = Fail e u \<longrightarrow> u = s)"

named_theorems clean_intros

lemma sure_clean: "sure m \<Longrightarrow> clean m"
  by (simp add: sure_def clean_def)

lemma reads_basic [clean_intros]:
  "reads (ret a)" "reads (fail e)" "reads trap" "reads (gets f)" "reads (ensure b e)"
  "reads (ok_or x e)" "reads (unwrap x)" "reads (trap_unless b)" "reads (chk v)" "reads (chk_u32 n)"
  by (simp_all add: reads_def run_defs chk_def chk_u32_def split: option.split)

lemma sure_basic [clean_intros]:
  "sure (ret a)" "sure (gets g)" "sure (modify f)" "sure (unwrap x)" "sure (trap_unless b)"
  "sure (chk v)" "sure (chk_u32 n)"
  by (simp_all add: sure_def run_defs chk_def chk_u32_def split: option.split)

lemma readsD: "reads m \<Longrightarrow> m s = Ok a u \<Longrightarrow> u = s" "reads m \<Longrightarrow> m s = Fail e u \<Longrightarrow> u = s"
  unfolding reads_def by blast+

lemma reads_clean: "reads m \<Longrightarrow> clean m"
  unfolding reads_def clean_def by blast

lemma reads_and_then [clean_intros]:
  assumes "reads m" and "\<And>a. reads (k a)"
  shows "reads (and_then m k)"
proof -
  have "(\<forall>b. and_then m k s = Ok b u \<longrightarrow> u = s) \<and> (\<forall>e. and_then m k s = Fail e u \<longrightarrow> u = s)" for s u
    using readsD [OF assms(1), of s] readsD [OF assms(2)]
    by (cases "m s") (auto simp: and_then_def)
  then show ?thesis by (simp add: reads_def)
qed

lemma clean_and_then [clean_intros]:
  assumes "reads m" and "\<And>a. clean (k a)"
  shows "clean (and_then m k)"
  unfolding clean_def
proof (intro allI impI)
  fix s e u
  assume fail: "and_then m k s = Fail e u"
  show "u = s"
    using fail readsD [OF assms(1), of s] assms(2) unfolding clean_def
    by (cases "m s") (auto simp: and_then_def)
qed

lemma sure_and_then [clean_intros]:
  "sure m \<Longrightarrow> (\<And>a. sure (k a)) \<Longrightarrow> sure (and_then m k)"
proof -
  assume m: "sure m" and k: "\<And>a. sure (k a)"
  have "and_then m k s \<noteq> Fail e u" for s e u
    using m k unfolding sure_def and_then_def by (cases "m s") simp_all
  then show "sure (and_then m k)" by (simp add: sure_def)
qed

lemma reads_seq_do [clean_intros]: "reads m \<Longrightarrow> reads k \<Longrightarrow> reads (seq_do m k)"
  unfolding seq_do_def by (rule reads_and_then)

lemma clean_seq_do [clean_intros]: "reads m \<Longrightarrow> clean k \<Longrightarrow> clean (seq_do m k)"
  unfolding seq_do_def by (rule clean_and_then)

lemma sure_seq_do [clean_intros]: "sure m \<Longrightarrow> sure k \<Longrightarrow> sure (seq_do m k)"
  unfolding seq_do_def by (rule sure_and_then)

lemma sure_for_each [clean_intros]: "(\<And>x. sure (f x)) \<Longrightarrow> sure (for_each xs f)"
  by (induction xs) (simp_all add: sure_basic sure_seq_do)

lemma block_clean [clean_intros]:
  "reads (block [])" "sure (block [])"
  "reads m \<Longrightarrow> reads (block ms) \<Longrightarrow> reads (block (m # ms))"
  "sure m \<Longrightarrow> sure (block ms) \<Longrightarrow> sure (block (m # ms))"
  "reads m \<Longrightarrow> clean (block ms) \<Longrightarrow> clean (block (m # ms))"
  by (simp_all add: clean_intros)

lemma branch_clean [clean_intros]:
  "reads m \<Longrightarrow> reads n \<Longrightarrow> reads (if b then m else n)"
  "sure m \<Longrightarrow> sure n \<Longrightarrow> sure (if b then m else n)"
  "reads m \<Longrightarrow> (\<And>a. reads (k a)) \<Longrightarrow> reads (case x of None \<Rightarrow> m | Some a \<Rightarrow> k a)"
  "sure m \<Longrightarrow> (\<And>a. sure (k a)) \<Longrightarrow> sure (case x of None \<Rightarrow> m | Some a \<Rightarrow> k a)"
  "(\<And>a b. sure (f a b)) \<Longrightarrow> sure (case p of (a, b) \<Rightarrow> f a b)"
  by (auto split: option.split prod.split)

text \<open>After its last possible error, a program may do as it likes.\<close>

lemma clean_sure_tail: "clean m \<Longrightarrow> sure k \<Longrightarrow> clean (seq_do m k)"
proof -
  assume m: "clean m" and k: "sure k"
  have "u = s" if "seq_do m k s = Fail e u" for s e u
    using that m k unfolding clean_def sure_def seq_do_def and_then_def by (cases "m s") simp_all
  then show "clean (seq_do m k)" by (simp add: clean_def)
qed

lemma clean_block_tail: "clean m \<Longrightarrow> sure (block ms) \<Longrightarrow> clean (block (m # ms))"
  by (simp add: clean_sure_tail)

section \<open>Sums over finite maps\<close>

definition msum :: "('k \<Rightarrow> 'v \<Rightarrow> int) \<Rightarrow> ('k \<rightharpoonup> 'v) \<Rightarrow> int" where
  "msum f m = (\<Sum>k\<in>dom m. f k (the (m k)))"

definition mval :: "('k \<Rightarrow> 'v \<Rightarrow> int) \<Rightarrow> ('k \<rightharpoonup> 'v) \<Rightarrow> 'k \<Rightarrow> int" where
  "mval f m k = (case m k of None \<Rightarrow> 0 | Some v \<Rightarrow> f k v)"

lemma msum_empty [simp]: "msum f Map.empty = 0"
  by (simp add: msum_def)

lemma msum_delete:
  assumes "finite (dom m)"
  shows "msum f (m(k := None)) = msum f m - mval f m k"
proof (cases "m k")
  case None
  then have "m(k := None) = m" by auto
  with None show ?thesis by (simp add: mval_def)
next
  case (Some v)
  then have "k \<in> dom m" by auto
  then have "msum f m = f k v + (\<Sum>j\<in>dom m - {k}. f j (the (m j)))"
    using assms Some by (simp add: msum_def sum.remove)
  moreover have "msum f (m(k := None)) = (\<Sum>j\<in>dom m - {k}. f j (the (m j)))"
    by (simp add: msum_def dom_fun_upd)
  ultimately show ?thesis using Some by (simp add: mval_def)
qed

lemma msum_update:
  assumes "finite (dom m)"
  shows "msum f (m(k \<mapsto> v)) = msum f m - mval f m k + f k v"
proof -
  let ?n = "m(k := None)"
  have "dom (m(k \<mapsto> v)) = insert k (dom ?n)" and "k \<notin> dom ?n" and "finite (dom ?n)"
    using assms by auto
  then have "msum f (m(k \<mapsto> v)) = f k v + (\<Sum>j\<in>dom ?n. f j (the ((m(k \<mapsto> v)) j)))"
    unfolding msum_def by (simp del: dom_fun_upd)
  also have "(\<Sum>j\<in>dom ?n. f j (the ((m(k \<mapsto> v)) j))) = msum f ?n"
    unfolding msum_def by (rule sum.cong) auto
  finally show ?thesis by (simp only: msum_delete [OF assms] algebra_simps)
qed

lemma mval_None [simp]: "m k = None \<Longrightarrow> mval f m k = 0"
  by (simp add: mval_def)

lemma mval_Some [simp]: "m k = Some v \<Longrightarrow> mval f m k = f k v"
  by (simp add: mval_def)

lemma msum_nonneg: "(\<And>k v. m k = Some v \<Longrightarrow> 0 \<le> f k v) \<Longrightarrow> 0 \<le> msum f m"
  unfolding msum_def by (rule sum_nonneg) auto

end
