(* ===== verification/Types.thy ===== *)
theory Types
  imports Prelude "HOL-Library.Word"
begin

text \<open>
  The data of \<open>src/src/lib.rs\<close>: the protocol constants, the contract's errors with their
  numeric codes, question statuses, the records it stores, its storage keys and the events
  it publishes. Names and constructor order follow the source.

  \<open>Address\<close> values are opaque to the contract (it compares them and nothing else), so an
  address is a constructor over a number. Hashes, keys and signatures are byte strings.
\<close>

datatype address = Address nat

type_synonym bytes = "8 word list"
type_synonym symbol = string

section \<open>Constants\<close>

definition PLATFORM_FEE_BPS :: i128 where "PLATFORM_FEE_BPS = 2000"
definition SLASH_BPS :: i128 where "SLASH_BPS = 500"
definition SLASH_CAP_BPS_OF_AMOUNT :: i128 where "SLASH_CAP_BPS_OF_AMOUNT = 10000"
definition SLASH_REDISTRIBUTE_BPS :: i128 where "SLASH_REDISTRIBUTE_BPS = 5000"
definition BPS_DENOM :: i128 where "BPS_DENOM = 10000"
definition DAY_LEDGERS :: u32 where "DAY_LEDGERS = 17280"
definition PERSISTENT_TTL_EXTEND_TO :: u32 where "PERSISTENT_TTL_EXTEND_TO = 500000"
definition PERSISTENT_TTL_THRESHOLD :: u32 where
  "PERSISTENT_TTL_THRESHOLD = PERSISTENT_TTL_EXTEND_TO - DAY_LEDGERS"
definition INSTANCE_TTL_EXTEND_TO :: u32 where "INSTANCE_TTL_EXTEND_TO = PERSISTENT_TTL_EXTEND_TO"
definition INSTANCE_TTL_THRESHOLD :: u32 where "INSTANCE_TTL_THRESHOLD = PERSISTENT_TTL_THRESHOLD"
definition REFUND_GRACE_LEDGERS :: u32 where "REFUND_GRACE_LEDGERS = 7 * DAY_LEDGERS"
definition STAKE_WARMUP_LEDGERS :: u32 where "STAKE_WARMUP_LEDGERS = DAY_LEDGERS"
definition MIN_UNBONDING_LEDGERS :: u32 where "MIN_UNBONDING_LEDGERS = 3 * DAY_LEDGERS"
definition MAX_PENDING_PAGE :: u32 where "MAX_PENDING_PAGE = 100"
definition MAX_ALLOWED_ASSETS :: u32 where "MAX_ALLOWED_ASSETS = 32"
definition MAX_BASKET_ASSETS :: u32 where "MAX_BASKET_ASSETS = 8"
definition MAX_TIMEOUT_LEDGERS :: u32 where "MAX_TIMEOUT_LEDGERS = 120960"
definition MAX_QUORUM_SIZE :: u32 where "MAX_QUORUM_SIZE = 64"
definition LEADERBOARD_CAP :: u32 where "LEADERBOARD_CAP = 20"
definition DEFAULT_ESTABLISHED_ANSWER_COUNT :: u32 where "DEFAULT_ESTABLISHED_ANSWER_COUNT = 20"
definition UPGRADE_DELAY_LEDGERS :: u32 where
  "UPGRADE_DELAY_LEDGERS = MAX_TIMEOUT_LEDGERS + 17280"
definition ADMIN_ROTATION_DELAY_LEDGERS :: u32 where
  "ADMIN_ROTATION_DELAY_LEDGERS = UPGRADE_DELAY_LEDGERS"
definition CONTRACT_VERSION :: u32 where "CONTRACT_VERSION = 2"

lemmas bps_defs = PLATFORM_FEE_BPS_def SLASH_BPS_def SLASH_CAP_BPS_OF_AMOUNT_def
  SLASH_REDISTRIBUTE_BPS_def BPS_DENOM_def

lemmas ledger_defs = DAY_LEDGERS_def PERSISTENT_TTL_EXTEND_TO_def PERSISTENT_TTL_THRESHOLD_def
  INSTANCE_TTL_EXTEND_TO_def INSTANCE_TTL_THRESHOLD_def REFUND_GRACE_LEDGERS_def
  STAKE_WARMUP_LEDGERS_def MIN_UNBONDING_LEDGERS_def MAX_TIMEOUT_LEDGERS_def
  UPGRADE_DELAY_LEDGERS_def ADMIN_ROTATION_DELAY_LEDGERS_def

section \<open>Errors\<close>

text \<open>
  The variants of \<open>ContractError\<close>, in the order of the enum. The last six are named by the
  code (\<open>Err(ContractError::LockExceedsOwed)\<close> and so on) and missing from the enum; they
  have no numeric code.
\<close>

datatype (plugins only: code size) contract_error =
    AlreadyInitialized | NotInitialized | InvalidAmount | QuestionAlreadyExists
  | QuestionNotFound | QuestionNotPending | NoWorkers | TooEarlyForTimeout | InvalidTimeout
  | InsufficientStake | NothingOwed | InvalidWorkerLists | InsufficientBalance
  | InsufficientOwed | NothingUnbonding | UnbondingNotElapsed | MigrationNotAuthorized
  | TokenMismatch | InvalidMigrationTarget | QuorumTooLarge | QuorumOutOfBounds
  | ReputationAlreadyRecorded | NoPendingResolution | DisputeWindowNotElapsed
  | QuestionDisputed | EmptyAnswerSet | DuplicateAnswerAddress | PasskeyNotRegistered
  | KycAttestorNotSet | InvalidKycExpiry | StakeSnapshotNotFound | AssetNotAllowed
  | NoAdminRotationPending | AdminRotationNotReady | CannotDisableDefaultAsset
  | ArithmeticOverflow | AssetLimitReached | QuestionNotRefunded
  | InvalidBalanceMigrationTarget | QuestionNotPendingForEscalation | QuestionNotDisputed
  | NoChallengeableResolution | InvalidBondAmount | BondAlreadyPosted | NoUnanimousConsensus
  | UpgradeNotReady | NoUpgradePending | ContractPaused | InvalidPublicGoodsBps
  | BasketNotSupported | InvalidBasket | LockExceedsOwed | NoLockToRelease
  | LendingAuthorityNotSet | NotLendingAuthority

primrec error_code :: "contract_error \<Rightarrow> u32 option" where
  "error_code AlreadyInitialized = Some 1"
| "error_code NotInitialized = Some 2"
| "error_code InvalidAmount = Some 3"
| "error_code QuestionAlreadyExists = Some 4"
| "error_code QuestionNotFound = Some 5"
| "error_code QuestionNotPending = Some 6"
| "error_code NoWorkers = Some 7"
| "error_code TooEarlyForTimeout = Some 8"
| "error_code InvalidTimeout = Some 9"
| "error_code InsufficientStake = Some 10"
| "error_code NothingOwed = Some 11"
| "error_code InvalidWorkerLists = Some 12"
| "error_code InsufficientBalance = Some 13"
| "error_code InsufficientOwed = Some 14"
| "error_code NothingUnbonding = Some 15"
| "error_code UnbondingNotElapsed = Some 16"
| "error_code MigrationNotAuthorized = Some 17"
| "error_code TokenMismatch = Some 18"
| "error_code InvalidMigrationTarget = Some 19"
| "error_code QuorumTooLarge = Some 200"
| "error_code QuorumOutOfBounds = Some 201"
| "error_code ReputationAlreadyRecorded = Some 106"
| "error_code NoPendingResolution = Some 23"
| "error_code DisputeWindowNotElapsed = Some 24"
| "error_code QuestionDisputed = Some 25"
| "error_code EmptyAnswerSet = Some 26"
| "error_code DuplicateAnswerAddress = Some 27"
| "error_code PasskeyNotRegistered = Some 28"
| "error_code KycAttestorNotSet = Some 30"
| "error_code InvalidKycExpiry = Some 31"
| "error_code StakeSnapshotNotFound = Some 32"
| "error_code AssetNotAllowed = Some 33"
| "error_code NoAdminRotationPending = Some 34"
| "error_code AdminRotationNotReady = Some 35"
| "error_code CannotDisableDefaultAsset = Some 36"
| "error_code ArithmeticOverflow = Some 37"
| "error_code AssetLimitReached = Some 38"
| "error_code QuestionNotRefunded = Some 300"
| "error_code InvalidBalanceMigrationTarget = Some 306"
| "error_code QuestionNotPendingForEscalation = Some 307"
| "error_code QuestionNotDisputed = Some 308"
| "error_code NoChallengeableResolution = Some 309"
| "error_code InvalidBondAmount = Some 310"
| "error_code BondAlreadyPosted = Some 311"
| "error_code NoUnanimousConsensus = Some 400"
| "error_code UpgradeNotReady = Some 401"
| "error_code NoUpgradePending = Some 402"
| "error_code ContractPaused = Some 403"
| "error_code InvalidPublicGoodsBps = Some 404"
| "error_code BasketNotSupported = None"
| "error_code InvalidBasket = None"
| "error_code LockExceedsOwed = None"
| "error_code NoLockToRelease = None"
| "error_code LendingAuthorityNotSet = None"
| "error_code NotLendingAuthority = None"

section \<open>Stored records\<close>

datatype status = Pending | Resolved | Refunded | Migrated | ResolvedPending | Disputed

record question =
  q_payer :: address
  q_amount :: i128
  q_status :: status
  q_created_at :: u32
  q_timeout_ledgers :: u32
  q_token :: address

record pending_admin_rotation =
  rot_new_admin :: address
  rot_executable_at :: u32

record warming_tranche =
  tranche_amount :: i128
  tranche_since :: u32

record stake_info =
  settled :: i128
  warming :: i128
  warming_tranches :: "warming_tranche list option"
  unbonding :: i128
  unbonding_release_at :: u32

definition default_stake_info :: stake_info where
  "default_stake_info = \<lparr>settled = 0, warming = 0, warming_tranches = None, unbonding = 0,
     unbonding_release_at = 0\<rparr>"

record pending_upgrade =
  upg_wasm_hash :: bytes
  upg_executable_at :: u32

record contract_health =
  health_open_question_count :: u32
  health_total_opened :: u32
  health_total_resolved :: u32
  health_total_refunded :: u32
  health_token_balance :: i128
  health_admin :: address
  health_token :: address
  health_platform :: address
  health_paused :: bool

record resolve_preview =
  preview_fee :: i128
  preview_dust :: i128
  preview_share_per_worker :: i128
  preview_total_slashed :: i128
  preview_platform_take :: i128

record claim_record =
  claim_question_id :: u64
  claim_payer :: address
  claim_resolved_at :: u32
  claim_minted_at :: u32

record reputation_info =
  rep_matched :: u32
  rep_lost :: u32

record pending_resolution =
  res_workers :: "address list"
  res_losing_workers :: "address list"
  res_dispute_deadline :: u32
  res_disputed :: bool

record escalated_question =
  esc_first_workers :: "address list"
  esc_first_losing_workers :: "address list"

record challenger_bond =
  bond_challenger :: address
  bond_amount :: i128

record answer_entry =
  answer_worker :: address
  answer_value :: i128

record consensus_answer =
  consensus_worker :: address
  consensus_hash :: bytes

section \<open>Storage keys\<close>

text \<open>
  \<open>DataKey\<close> and \<open>AssetKey\<close>. A key is a value of its own in two places: \<open>owed_key\<close>,
  \<open>stake_key\<close> and \<open>balance_key\<close> compute one, and every \<open>extend_ttl\<close> names one.
\<close>

datatype (plugins only: code size) data_key =
    KAdmin | KToken | KPlatform | KTimeoutLedgers | KQuestion u64 | KStake address
  | KOwed address | KBalance address | KPendingCount | KPendingAt u32 | KPendingPos u64
  | KMigrationSource | KTemplate u32 | KDelegate address address | KStream address address
  | KMinQuorum | KMaxQuorum | KResolvedCount address | KLeaderboardEntries
  | KTopUpThreshold address | KOwedLock address | KLendingAuthority | KClaim u64
  | KReputation address | KReputationRecorded u64 | KUnderwriter address
  | KWorkerRegion address | KPendingResolution u64 | KPasskeyPubkey address
  | KKycAttestorPubkey | KKycAttestation address | KStakeSnapshot address u32
  | KQuestionSchemaHash u64 | KCategoryCount symbol | KParticipantList | KParticipantAt u32
  | KParticipantPos address | KEscalatedQuestion u64 | KChallengerBond u64 | KResolver
  | KEstablishedAnswerCount | KPendingUpgrade | KPaused | KOpenQuestionCount
  | KTotalOpenedCount | KTotalResolvedCount | KTotalRefundedCount | KPublicGoodsAddress
  | KPublicGoodsBps
  | KQuestionToken u64 | KQuestionBasket u64 | KAllowedToken address
  | KTokenDecimals address | KOwedAsset address address | KBalanceAsset address address
  | KStakeAsset address address | KAllowedAssetCount | KPendingAdminRotation

section \<open>Events\<close>

datatype (plugins only: code size) question_event =
    QuestionOpened u64 address address i128 u32 u32
  | QuestionSettled u64 status
  | QuestionResolved u64 u32 i128 i128 i128
  | WorkerCredited u64 address i128
  | QuestionNotarized u64 bytes
  | WorkerSlashed u64 address i128
  | QuestionRefunded u64 address i128 bool
  | BasketLegSettled u64 address i128 i128 i128

datatype (plugins only: code size) account_event =
    StakeChanged address address i128 i128
  | WorkerPaid address address address i128
  | PrepaidBalanceChanged address address i128 i128

datatype (plugins only: code size) admin_event =
    UpgradeProposed bytes u32
  | UpgradeCancelled bytes
  | UpgradeExecuted bytes
  | AdminRotated address address
  | TimeoutLedgersChanged u32 u32
  | PausedChanged bool

datatype (plugins only: code size) feature_event =
    QuestionMigrated u64 address address i128
  | QuestionReopened u64 address i128 u32 u32
  | TopUpNeeded address i128 i128
  | OwedLocked address i128 i128
  | OwedReleased address i128 i128

datatype (plugins only: code size) dispute_event =
    ResolutionChallengeable u64 u32
  | ResolutionDisputed u64
  | UnanimousDissent u64 address bool
  | PasskeyRegistered address
  | KycAttested address u32
  | StakeSnapshotted address u32 i128
  | ReputationUpdated address u32 u32
  | AssetPermissionChanged address bool
  | AdminRotationProposed address u32
  | AdminRotationCancelled address
  | AdminRotationExecuted address

datatype (plugins only: code size) escalation_event =
    BalanceMigrated address address i128 i128 i128 address
  | QuestionEscalated u64 u32 u32
  | EscalationResolved u64 bool
  | ChallengeBondPosted u64 address i128
  | ChallengeBondSettled u64 address i128 bool
  | PublicGoodsConfigSet address u32

datatype (plugins only: code size) event =
    QuestionEv question_event | AccountEv account_event | AdminEv admin_event
  | FeatureEv feature_event | DisputeEv dispute_event | EscalationEv escalation_event

text \<open>
  Statuses in which a question still holds its escrow: not yet settled, refunded or migrated
  away.
\<close>

fun open_status :: "status \<Rightarrow> bool" where
  "open_status Pending = True"
| "open_status ResolvedPending = True"
| "open_status Disputed = True"
| "open_status Resolved = False"
| "open_status Refunded = False"
| "open_status Migrated = False"

end
