(* ===== verification/Host.thy ===== *)
theory Host
  imports Types
begin

text \<open>
  The contract's world and the host it runs on. Storage is the contract's own: one field per
  kind of key, the instance storage first (\<open>inst_storage\<close>), then the persistent storage.
  What the SDK and other contracts do is not under \<open>src/\<close> and is a parameter: the record
  \<open>host\<close> holds the token contract's \<open>transfer\<close>, \<open>balance\<close> and \<open>decimals\<close> over a token ledger of
  any type, the signature checks, the XDR encodings and the set of uploaded code hashes.
  An \<open>env\<close> adds what differs between invocations: the ledger sequence and the addresses that
  authorized this call. \<open>sep41\<close> is the documented behaviour of an honest token.

  \<open>extend_ttl\<close> calls and published events are effects on the host; the world records them in
  order (\<open>ttl_log\<close>, \<open>events\<close>). The host forbids re-entry into a running contract, so a token
  call changes the token ledger and not this contract's storage.
\<close>

section \<open>Host and environment\<close>

record 'w host =
  self :: address
  max_ttl :: u32
  tok_transfer :: "address \<Rightarrow> address \<Rightarrow> address \<Rightarrow> i128 \<Rightarrow> 'w \<Rightarrow> 'w option"
  tok_balance :: "address \<Rightarrow> address \<Rightarrow> 'w \<Rightarrow> i128"
  tok_decimals :: "address \<Rightarrow> 'w \<Rightarrow> u32"
  sha256 :: "bytes \<Rightarrow> bytes"
  secp256r1_ok :: "bytes \<Rightarrow> bytes \<Rightarrow> bytes \<Rightarrow> bool"
  ed25519_ok :: "bytes \<Rightarrow> bytes \<Rightarrow> bytes \<Rightarrow> bool"
  xdr_address :: "address \<Rightarrow> bytes"
  xdr_u32 :: "u32 \<Rightarrow> bytes"
  wasm_uploaded :: "bytes \<Rightarrow> bool"

record 'w env = "'w host" +
  now :: u32
  authorized :: "address \<Rightarrow> bool"

text \<open>
  SEP-41: a transfer that returns moved exactly \<open>a\<close> of token \<open>t\<close> from \<open>f\<close> to \<open>r\<close> and changed no
  other balance; a transfer may always trap instead (no funds, no trustline, no signature).
\<close>

definition sep41 :: "('w, 'x) host_scheme \<Rightarrow> bool" where
  "sep41 E \<longleftrightarrow> (\<forall>t f r a l l'. tok_transfer E t f r a l = Some l' \<longrightarrow>
     (\<forall>t' x. tok_balance E t' x l' = tok_balance E t' x l
        + (if t' = t \<and> x = r then a else 0) - (if t' = t \<and> x = f then a else 0)))"

section \<open>Storage\<close>

record inst_storage =
  i_admin :: "address option"
  i_token :: "address option"
  i_platform :: "address option"
  i_timeout_ledgers :: "u32 option"
  i_migration_source :: "address option"
  i_min_quorum :: "u32 option"
  i_max_quorum :: "u32 option"
  i_leaderboard :: "(address \<times> u32) list option"
  i_lending_authority :: "address option"
  i_kyc_attestor :: "bytes option"
  i_resolver :: "address option"
  i_established :: "u32 option"
  i_pending_upgrade :: "pending_upgrade option"
  i_paused :: "bool option"
  i_open_count :: "u32 option"
  i_total_opened :: "u32 option"
  i_total_resolved :: "u32 option"
  i_total_refunded :: "u32 option"
  i_pg_address :: "address option"
  i_pg_bps :: "u32 option"
  i_allowed_token :: "address \<rightharpoonup> bool"
  i_token_decimals :: "address \<rightharpoonup> u32"
  i_allowed_count :: "u32 option"
  i_pending_rotation :: "pending_admin_rotation option"

record persistent_storage = inst_storage +
  p_question :: "u64 \<rightharpoonup> question"
  p_question_token :: "u64 \<rightharpoonup> address"
  p_basket :: "u64 \<rightharpoonup> (address \<times> i128) list"
  p_schema_hash :: "u64 \<rightharpoonup> bytes"
  p_category :: "symbol \<rightharpoonup> u32"
  p_stake :: "data_key \<rightharpoonup> stake_info"
  p_owed :: "data_key \<rightharpoonup> i128"
  p_balance :: "data_key \<rightharpoonup> i128"
  p_pending_count :: "u32 option"
  p_pending_at :: "u32 \<rightharpoonup> u64"
  p_pending_pos :: "u64 \<rightharpoonup> u32"
  p_resolved_count :: "address \<rightharpoonup> u32"
  p_top_up :: "address \<rightharpoonup> i128"
  p_owed_lock :: "address \<rightharpoonup> i128"
  p_claim :: "u64 \<rightharpoonup> claim_record"
  p_reputation :: "address \<rightharpoonup> reputation_info"
  p_reputation_recorded :: "u64 \<rightharpoonup> bool"
  p_pending_resolution :: "u64 \<rightharpoonup> pending_resolution"
  p_escalated :: "u64 \<rightharpoonup> escalated_question"
  p_bond :: "u64 \<rightharpoonup> challenger_bond"
  p_passkey :: "address \<rightharpoonup> bytes"
  p_kyc :: "address \<rightharpoonup> u32"
  p_snapshot :: "address \<times> u32 \<rightharpoonup> i128"
  p_participant_count :: "u32 option"
  p_participant_at :: "u32 \<rightharpoonup> address"
  p_participant_pos :: "address \<rightharpoonup> u32"

datatype (plugins only: code size) ttl_entry = TtlInstance | TtlKey data_key

record 'w world = persistent_storage +
  ledger :: 'w
  events :: "event list"
  ttl_log :: "(u32 \<times> ttl_entry \<times> u32 \<times> u32) list"
  current_wasm :: bytes

type_synonym ('w, 'a) call = "(contract_error, 'w world, 'a) prog"

text \<open>The storage of a contract that has just been created, before its constructor runs.\<close>

definition blank_world :: "'w \<Rightarrow> 'w world" where
  "blank_world l = \<lparr>i_admin = None, i_token = None, i_platform = None, i_timeout_ledgers = None,
     i_migration_source = None, i_min_quorum = None, i_max_quorum = None, i_leaderboard = None,
     i_lending_authority = None, i_kyc_attestor = None, i_resolver = None, i_established = None,
     i_pending_upgrade = None, i_paused = None, i_open_count = None, i_total_opened = None,
     i_total_resolved = None, i_total_refunded = None, i_pg_address = None, i_pg_bps = None,
     i_allowed_token = Map.empty, i_token_decimals = Map.empty, i_allowed_count = None,
     i_pending_rotation = None,
     p_question = Map.empty, p_question_token = Map.empty, p_basket = Map.empty,
     p_schema_hash = Map.empty, p_category = Map.empty, p_stake = Map.empty, p_owed = Map.empty,
     p_balance = Map.empty, p_pending_count = None, p_pending_at = Map.empty,
     p_pending_pos = Map.empty, p_resolved_count = Map.empty, p_top_up = Map.empty,
     p_owed_lock = Map.empty, p_claim = Map.empty, p_reputation = Map.empty,
     p_reputation_recorded = Map.empty, p_pending_resolution = Map.empty, p_escalated = Map.empty,
     p_bond = Map.empty, p_passkey = Map.empty, p_kyc = Map.empty, p_snapshot = Map.empty,
     p_participant_count = None, p_participant_at = Map.empty, p_participant_pos = Map.empty,
     ledger = l, events = [], ttl_log = [], current_wasm = []\<rparr>"

section \<open>Host calls\<close>

definition require_auth :: "'w env \<Rightarrow> address \<Rightarrow> ('w, unit) call" where
  "require_auth env a = trap_unless (authorized env a)"

definition transfer :: "'w env \<Rightarrow> address \<Rightarrow> address \<Rightarrow> address \<Rightarrow> i128 \<Rightarrow> ('w, unit) call" where
  "transfer env t f r a s =
     (case tok_transfer env t f r a (ledger s) of
        None \<Rightarrow> Trap
      | Some l \<Rightarrow> Ok () (s\<lparr>ledger := l\<rparr>))"

definition publish :: "event \<Rightarrow> ('w, unit) call" where
  "publish e = modify (\<lambda>s. s\<lparr>events := events s @ [e]\<rparr>)"

definition extend_ttl :: "'w env \<Rightarrow> ttl_entry \<Rightarrow> u32 \<Rightarrow> u32 \<Rightarrow> ('w, unit) call" where
  "extend_ttl env k threshold extend_to =
     modify (\<lambda>s. s\<lparr>ttl_log := ttl_log s @ [(now env, k, threshold, extend_to)]\<rparr>)"

definition extend_persistent :: "'w env \<Rightarrow> data_key \<Rightarrow> ('w, unit) call" where
  "extend_persistent env key =
     extend_ttl env (TtlKey key) PERSISTENT_TTL_THRESHOLD PERSISTENT_TTL_EXTEND_TO"

text \<open>\<open>set_persistent\<close>: the write (given as the update of its field), then the extension.\<close>

definition set_persistent :: "'w env \<Rightarrow> data_key \<Rightarrow> ('w world \<Rightarrow> 'w world) \<Rightarrow> ('w, unit) call" where
  "set_persistent env key upd = block [modify upd, extend_persistent env key]"

definition extend_asset_ttl :: "'w env \<Rightarrow> data_key \<Rightarrow> ('w, unit) call" where
  "extend_asset_ttl env key = extend_persistent env key"

definition bump_instance :: "'w env \<Rightarrow> ('w, unit) call" where
  "bump_instance env = extend_ttl env TtlInstance INSTANCE_TTL_THRESHOLD INSTANCE_TTL_EXTEND_TO"

definition extend_instance_ttl :: "'w env \<Rightarrow> ('w, unit) call" where
  "extend_instance_ttl env =
     extend_ttl env TtlInstance PERSISTENT_TTL_THRESHOLD PERSISTENT_TTL_EXTEND_TO"

definition question_extend_to :: "'w env \<Rightarrow> question \<Rightarrow> u32" where
  "question_extend_to env q =
     (let deadline = saturating_add (q_created_at q) (q_timeout_ledgers q);
          to_deadline = saturating_add (saturating_sub deadline (now env)) REFUND_GRACE_LEDGERS
      in min (max to_deadline PERSISTENT_TTL_EXTEND_TO) (max_ttl env))"

definition extend_question_ttl :: "'w env \<Rightarrow> data_key \<Rightarrow> question \<Rightarrow> ('w, unit) call" where
  "extend_question_ttl env key q =
     extend_ttl env (TtlKey key)
       (saturating_sub (question_extend_to env q) DAY_LEDGERS) (question_extend_to env q)"

text \<open>
  The outermost call: the host commits the state of a normal return and discards every write,
  transfer and event of a call that returned an error or trapped.
\<close>

datatype failure = ContractError contract_error | HostTrap

definition invoke :: "('w, 'a) call \<Rightarrow> 'w world \<Rightarrow> (failure + 'a) \<times> 'w world" where
  "invoke m s = (case m s of
      Ok a s' \<Rightarrow> (Inr a, s')
    | Fail e s' \<Rightarrow> (Inl (ContractError e), s)
    | Trap \<Rightarrow> (Inl HostTrap, s))"

section \<open>Rules\<close>

lemma wp_require_auth [wp_simps]: "wp (require_auth env a) Q s = (authorized env a \<longrightarrow> Q () s)"
  by (simp add: require_auth_def wp_simps)

lemma wp_transfer [wp_simps]:
  "wp (transfer env t f r a) Q s =
     (\<forall>l. tok_transfer env t f r a (ledger s) = Some l \<longrightarrow> Q () (s\<lparr>ledger := l\<rparr>))"
  by (simp add: wp_def transfer_def split: option.split)

lemma wp_publish [wp_simps]: "wp (publish e) Q s = Q () (s\<lparr>events := events s @ [e]\<rparr>)"
  by (simp add: publish_def wp_simps)

lemma wp_extend_ttl [wp_simps]:
  "wp (extend_ttl env k th to) Q s =
     Q () (s\<lparr>ttl_log := ttl_log s @ [(now env, k, th, to)]\<rparr>)"
  by (simp add: extend_ttl_def wp_simps)

lemmas ttl_defs [wp_simps] = extend_persistent_def bump_instance_def extend_instance_ttl_def
  extend_asset_ttl_def extend_question_ttl_def

lemma wp_set_persistent [wp_simps]:
  "wp (set_persistent env key upd) Q s =
     Q () (upd s\<lparr>ttl_log := ttl_log (upd s) @
        [(now env, TtlKey key, PERSISTENT_TTL_THRESHOLD, PERSISTENT_TTL_EXTEND_TO)]\<rparr>)"
  by (simp add: set_persistent_def wp_simps)

lemmas host_run_defs [run_simps] = require_auth_def transfer_def publish_def extend_ttl_def
  set_persistent_def ttl_defs

lemma host_clean [clean_intros]:
  "reads (require_auth env a)" "sure (require_auth env a)" "sure (transfer env t f r v)"
  "sure (publish e)" "sure (extend_ttl env k n m)" "sure (extend_persistent env key)"
  "sure (bump_instance env)" "sure (set_persistent env key upd)"
proof -
  show "sure (transfer env t f r v)" by (simp add: sure_def transfer_def split: option.split)
qed (simp_all add: require_auth_def publish_def extend_ttl_def set_persistent_def ttl_defs clean_intros)

lemma sep41_transfer:
  assumes "sep41 E" and "tok_transfer E t f r a l = Some l'"
  shows "tok_balance E t' x l' = tok_balance E t' x l
     + (if t' = t \<and> x = r then a else 0) - (if t' = t \<and> x = f then a else 0)"
  using assms unfolding sep41_def by blast

end
