(* ===== verification/Access.thy ===== *)
theory Access
  imports Host
begin

text \<open>
  What every entry point of \<open>src/src/lib.rs\<close> reads before it does anything: the configured
  token, the admin, resolver, pause and lending guards, the asset allowlist, the token-scoped
  storage keys, the health counters and \<open>mul_bps\<close>.
\<close>

section \<open>Configuration reads and guards\<close>

definition get_token_cfg :: "('w, address) call" where
  "get_token_cfg = and_then (gets i_token) (\<lambda>t. ok_or t NotInitialized)"

definition require_admin :: "'w env \<Rightarrow> ('w, unit) call" where
  "require_admin env =
     and_then (gets i_admin) (\<lambda>a. and_then (ok_or a NotInitialized) (require_auth env))"

definition require_resolver_or_admin :: "'w env \<Rightarrow> ('w, unit) call" where
  "require_resolver_or_admin env =
     and_then (gets i_admin) (\<lambda>a.
     and_then (ok_or a NotInitialized) (\<lambda>admin.
     and_then (gets i_resolver) (\<lambda>r.
       case r of
         Some resolver \<Rightarrow> require_auth env resolver
       | None \<Rightarrow> require_auth env admin)))"

definition paused :: "'w world \<Rightarrow> bool" where
  "paused s = (case i_paused s of None \<Rightarrow> False | Some b \<Rightarrow> b)"

definition require_not_paused :: "('w, unit) call" where
  "require_not_paused = and_then (gets paused) (\<lambda>p. ensure (\<not> p) ContractPaused)"

definition require_lending_authority :: "'w env \<Rightarrow> address \<Rightarrow> ('w, unit) call" where
  "require_lending_authority env authority =
     and_then (gets i_lending_authority) (\<lambda>r.
     and_then (ok_or r LendingAuthorityNotSet) (\<lambda>registered.
     block [ensure (authority = registered) NotLendingAuthority,
            require_auth env authority]))"

definition token_allowed :: "'w world \<Rightarrow> address \<Rightarrow> bool" where
  "token_allowed s t = (case i_allowed_token s t of None \<Rightarrow> False | Some b \<Rightarrow> b)"

definition require_allowed_token :: "address \<Rightarrow> ('w, unit) call" where
  "require_allowed_token t =
     and_then get_token_cfg (\<lambda>default_token.
     and_then (gets (\<lambda>s. token_allowed s t)) (\<lambda>allowed.
       ensure (t = default_token \<or> allowed) AssetNotAllowed))"

section \<open>Token-scoped keys\<close>

text \<open>The default token keeps the original keys; every other token has keys of its own.\<close>

definition owed_key :: "address \<Rightarrow> address \<Rightarrow> ('w, data_key) call" where
  "owed_key t worker = and_then get_token_cfg (\<lambda>d.
     ret (if t = d then KOwed worker else KOwedAsset t worker))"

definition stake_key :: "address \<Rightarrow> address \<Rightarrow> ('w, data_key) call" where
  "stake_key t worker = and_then get_token_cfg (\<lambda>d.
     ret (if t = d then KStake worker else KStakeAsset t worker))"

definition balance_key :: "address \<Rightarrow> address \<Rightarrow> ('w, data_key) call" where
  "balance_key t payer = and_then get_token_cfg (\<lambda>d.
     ret (if t = d then KBalance payer else KBalanceAsset t payer))"

text \<open>The token a scoped key belongs to, given the default token.\<close>

definition key_token :: "address \<Rightarrow> data_key \<Rightarrow> address" where
  "key_token d k = (case k of
      KOwedAsset t w \<Rightarrow> t | KBalanceAsset t w \<Rightarrow> t | KStakeAsset t w \<Rightarrow> t | _ \<Rightarrow> d)"

definition question_token :: "u64 \<Rightarrow> ('w, address) call" where
  "question_token question_id =
     and_then (gets (\<lambda>s. p_question_token s question_id)) (\<lambda>t.
       case t of Some token \<Rightarrow> ret token | None \<Rightarrow> get_token_cfg)"

definition reject_basket :: "u64 \<Rightarrow> ('w, unit) call" where
  "reject_basket question_id =
     and_then (gets (\<lambda>s. p_basket s question_id)) (\<lambda>b. ensure (b = None) BasketNotSupported)"

definition load_question :: "u64 \<Rightarrow> ('w, question) call" where
  "load_question question_id =
     and_then (gets (\<lambda>s. p_question s question_id)) (\<lambda>q. ok_or q QuestionNotFound)"

section \<open>Counters\<close>

definition counter :: "u32 option \<Rightarrow> u32" where
  "counter c = (case c of None \<Rightarrow> 0 | Some n \<Rightarrow> n)"

definition bump_counter :: "u32 option \<Rightarrow> u32 option" where
  "bump_counter c = Some (saturating_add (counter c) 1)"

definition drop_counter :: "u32 option \<Rightarrow> u32 option" where
  "drop_counter c = Some (saturating_sub (counter c) 1)"

section \<open>Basis points\<close>

text \<open>
  \<open>mul_bps_val\<close> is the value of the source's expression over unbounded integers,
  \<open>mul_bps_fits\<close> that no intermediate result leaves \<open>i128\<close>, and \<open>mul_bps\<close> the function as it is
  built, which traps when one does.
\<close>

definition mul_bps_val :: "i128 \<Rightarrow> i128 \<Rightarrow> i128" where
  "mul_bps_val value bps =
     (value sdiv BPS_DENOM) * bps + (value smod BPS_DENOM) * bps sdiv BPS_DENOM"

definition mul_bps_fits :: "i128 \<Rightarrow> i128 \<Rightarrow> bool" where
  "mul_bps_fits value bps \<longleftrightarrow>
     i128_range ((value sdiv BPS_DENOM) * bps) \<and> i128_range ((value smod BPS_DENOM) * bps) \<and>
     i128_range (mul_bps_val value bps)"

definition mul_bps :: "i128 \<Rightarrow> i128 \<Rightarrow> ('e, 's, i128) prog" where
  "mul_bps value bps =
     and_then (chk ((value sdiv BPS_DENOM) * bps)) (\<lambda>a.
     and_then (chk ((value smod BPS_DENOM) * bps)) (\<lambda>b.
       chk (a + b sdiv BPS_DENOM)))"

section \<open>Rules\<close>

lemma key_token_simps [simp]:
  "key_token d (KOwed w) = d" "key_token d (KBalance w) = d" "key_token d (KStake w) = d"
  "key_token d (KOwedAsset t w) = t" "key_token d (KBalanceAsset t w) = t"
  "key_token d (KStakeAsset t w) = t"
  by (simp_all add: key_token_def)

lemma wp_get_token_cfg [wp_simps]:
  "wp get_token_cfg Q s = (\<forall>t. i_token s = Some t \<longrightarrow> Q t s)"
  by (simp add: get_token_cfg_def wp_simps)

lemma wp_require_admin [wp_simps]:
  "wp (require_admin env) Q s = (\<forall>a. i_admin s = Some a \<and> authorized env a \<longrightarrow> Q () s)"
  by (auto simp: require_admin_def wp_simps)

lemma wp_require_resolver_or_admin [wp_simps]:
  "wp (require_resolver_or_admin env) Q s =
     (\<forall>a. i_admin s = Some a \<and> authorized env (case i_resolver s of Some r \<Rightarrow> r | None \<Rightarrow> a)
        \<longrightarrow> Q () s)"
  by (auto simp: require_resolver_or_admin_def wp_simps split: option.splits)

lemma wp_require_not_paused [wp_simps]:
  "wp require_not_paused Q s = (\<not> paused s \<longrightarrow> Q () s)"
  by (simp add: require_not_paused_def wp_simps)

lemma wp_require_lending_authority [wp_simps]:
  "wp (require_lending_authority env a) Q s =
     (i_lending_authority s = Some a \<and> authorized env a \<longrightarrow> Q () s)"
  by (auto simp: require_lending_authority_def wp_simps)

lemma wp_require_allowed_token [wp_simps]:
  "wp (require_allowed_token t) Q s =
     (\<forall>d. i_token s = Some d \<and> (t = d \<or> token_allowed s t) \<longrightarrow> Q () s)"
  by (auto simp: require_allowed_token_def wp_simps)

lemma wp_owed_key [wp_simps]:
  "wp (owed_key t w) Q s =
     (\<forall>d. i_token s = Some d \<longrightarrow> Q (if t = d then KOwed w else KOwedAsset t w) s)"
  by (simp add: owed_key_def wp_simps)

lemma wp_stake_key [wp_simps]:
  "wp (stake_key t w) Q s =
     (\<forall>d. i_token s = Some d \<longrightarrow> Q (if t = d then KStake w else KStakeAsset t w) s)"
  by (simp add: stake_key_def wp_simps)

lemma wp_balance_key [wp_simps]:
  "wp (balance_key t w) Q s =
     (\<forall>d. i_token s = Some d \<longrightarrow> Q (if t = d then KBalance w else KBalanceAsset t w) s)"
  by (simp add: balance_key_def wp_simps)

lemma wp_question_token [wp_simps]:
  "wp (question_token q) Q s =
     (case p_question_token s q of
        Some t \<Rightarrow> Q t s
      | None \<Rightarrow> (\<forall>t. i_token s = Some t \<longrightarrow> Q t s))"
  by (simp add: question_token_def wp_simps split: option.split)

lemma wp_reject_basket [wp_simps]:
  "wp (reject_basket q) Q s = (p_basket s q = None \<longrightarrow> Q () s)"
  by (simp add: reject_basket_def wp_simps)

lemma wp_load_question [wp_simps]:
  "wp (load_question q) Q s = (\<forall>x. p_question s q = Some x \<longrightarrow> Q x s)"
  by (simp add: load_question_def wp_simps)

lemma access_clean [clean_intros]:
  "reads get_token_cfg" "reads (require_admin env)" "reads require_not_paused"
  "reads (question_token q)" "reads (reject_basket q)" "reads (load_question q)"
  unfolding get_token_cfg_def require_admin_def require_not_paused_def question_token_def
    reject_basket_def load_question_def
  by (intro clean_intros)+

lemmas access_run_defs [run_simps] =
  get_token_cfg_def require_admin_def require_resolver_or_admin_def require_not_paused_def
  require_lending_authority_def require_allowed_token_def owed_key_def stake_key_def
  balance_key_def question_token_def reject_basket_def load_question_def

section \<open>\<open>mul_bps\<close> is exact and never overflows\<close>

lemma wp_mul_bps [wp_simps]:
  "wp (mul_bps v b) Q s = (mul_bps_fits v b \<longrightarrow> Q (mul_bps_val v b) s)"
  by (auto simp: mul_bps_def mul_bps_fits_def mul_bps_val_def wp_simps)

lemma mul_bps_run: "mul_bps v b s = (if mul_bps_fits v b then Ok (mul_bps_val v b) s else Trap)"
  by (simp add: mul_bps_def mul_bps_fits_def mul_bps_val_def and_then_def ret_def trap_def chk_def)

lemma mul_bps_exact:
  assumes "0 \<le> v" and "0 \<le> b"
  shows "mul_bps_val v b = v * b div 10000"
proof -
  have "v * b = (10000 * (v div 10000) + v mod 10000) * b" by simp
  then have "v * b = 10000 * (v div 10000 * b) + v mod 10000 * b"
    by (simp only: distrib_right mult.assoc)
  then have "v * b div 10000 = v div 10000 * b + v mod 10000 * b div 10000"
    by simp
  then show ?thesis
    using assms by (simp add: mul_bps_val_def BPS_DENOM_def sdiv_nonneg smod_nonneg)
qed

lemma mul_bps_nonneg [simp]: "0 \<le> v \<Longrightarrow> 0 \<le> b \<Longrightarrow> 0 \<le> mul_bps_val v b"
  by (simp add: mul_bps_exact pos_imp_zdiv_nonneg_iff)

lemma mul_bps_le: "0 \<le> v \<Longrightarrow> 0 \<le> b \<Longrightarrow> b \<le> 10000 \<Longrightarrow> mul_bps_val v b \<le> v"
proof -
  assume "0 \<le> v" "0 \<le> b" "b \<le> 10000"
  then have "v * b \<le> v * 10000" by (simp add: mult_left_mono)
  then have "v * b div 10000 \<le> v * 10000 div 10000" by (rule zdiv_mono1) simp
  with \<open>0 \<le> v\<close> \<open>0 \<le> b\<close> show ?thesis by (simp add: mul_bps_exact)
qed

lemma mul_bps_mono: "0 \<le> v \<Longrightarrow> v \<le> w \<Longrightarrow> 0 \<le> b \<Longrightarrow> mul_bps_val v b \<le> mul_bps_val w b"
  by (simp add: mul_bps_exact zdiv_mono1 mult_right_mono)

lemma mul_bps_full [simp]: "0 \<le> v \<Longrightarrow> mul_bps_val v 10000 = v"
  by (simp add: mul_bps_exact)

lemma mul_bps_fits_dom:
  assumes "0 \<le> v" and "i128_range v" and "0 \<le> b" and "b \<le> 10000"
  shows "mul_bps_fits v b"
proof -
  have "v div 10000 * b \<le> v div 10000 * 10000"
    using assms by (simp add: mult_left_mono pos_imp_zdiv_nonneg_iff)
  then have "0 \<le> v div 10000 * b" "v div 10000 * b \<le> v"
    using assms by (simp_all add: pos_imp_zdiv_nonneg_iff)
  moreover have "v mod 10000 * b \<le> 10000 * 10000"
    using assms by (intro mult_mono) simp_all
  moreover have "0 \<le> v mod 10000 * b" using assms by simp
  ultimately have "i128_range (v div 10000 * b)" "i128_range (v mod 10000 * b)"
    using assms(2) by (auto simp: i128_range_def i128_max_def)
  moreover have "i128_range (mul_bps_val v b)"
    using mul_bps_nonneg [of v b] mul_bps_le [of v b] assms i128_rangeI by blast
  ultimately show ?thesis
    using assms by (simp add: mul_bps_fits_def BPS_DENOM_def sdiv_nonneg smod_nonneg)
qed

end
