(* ===== verification/Pending_Index.thy ===== *)
theory Pending_Index
  imports Access
begin

text \<open>
  The two enumerable sets the contract keeps in storage. The pending index is a dense array
  \<open>PendingAt(0..PendingCount)\<close> with the reverse map \<open>PendingPos\<close>, maintained with swap-remove;
  the participant index of issue #48 is an append-only array with the same layout. Both meet the
  contract \<open>growing_set\<close>; the pending index, which also removes, meets \<open>shrinking_set\<close>.
\<close>

section \<open>The contract of an on-chain set\<close>

locale growing_set =
  fixes add :: "'q \<Rightarrow> ('e, 's, unit) prog"
    and elems :: "'s \<Rightarrow> 'q set"
    and size_of :: "'s \<Rightarrow> nat"
    and wf :: "'s \<Rightarrow> bool"
  assumes add_wf: "wf s \<Longrightarrow> q \<notin> elems s \<Longrightarrow> wp (add q) (\<lambda>_ t. wf t \<and> elems t = insert q (elems s)) s"
    and size_card: "wf s \<Longrightarrow> finite (elems s) \<and> card (elems s) = size_of s"
begin

lemma add_size:
  assumes "wf s" and "q \<notin> elems s" and "add q s = Ok () t"
  shows "size_of t = Suc (size_of s)"
proof -
  have "wf t \<and> elems t = insert q (elems s)"
    using wp_OkD [OF add_wf [OF assms(1,2)] assms(3)] .
  then show ?thesis
    using size_card [of s] size_card [of t] assms(1,2) by simp
qed

lemma add_all_elems:
  assumes "wf s" and "distinct qs" and "set qs \<inter> elems s = {}"
  shows "wp (for_each qs add) (\<lambda>_ t. wf t \<and> elems t = set qs \<union> elems s) s"
  using assms
proof (induction qs arbitrary: s)
  case Nil
  then show ?case by (simp add: wp_ret)
next
  case (Cons q qs)
  have "wp (add q) (\<lambda>_ t. wf t \<and> elems t = insert q (elems s)) s"
    using Cons.prems by (intro add_wf) auto
  then have "wp (add q) (\<lambda>_. wp (for_each qs add) (\<lambda>_ t. wf t \<and> elems t = set (q # qs) \<union> elems s)) s"
  proof (rule wp_conseq)
    fix u t
    assume t: "wf t \<and> elems t = insert q (elems s)"
    then have "wp (for_each qs add) (\<lambda>_ v. wf v \<and> elems v = set qs \<union> elems t) t"
      using Cons.prems by (intro Cons.IH) auto
    then show "wp (for_each qs add) (\<lambda>_ v. wf v \<and> elems v = set (q # qs) \<union> elems s) t"
      by (rule wp_conseq) (auto simp: t)
  qed
  then show ?case by (simp add: wp_seq_do)
qed

end

locale shrinking_set = growing_set add elems size_of wf
  for add :: "'q \<Rightarrow> ('e, 's, unit) prog" and elems :: "'s \<Rightarrow> 'q set"
    and size_of :: "'s \<Rightarrow> nat" and wf :: "'s \<Rightarrow> bool" +
  fixes remove :: "'q \<Rightarrow> ('e, 's, unit) prog"
  assumes remove_wf: "wf s \<Longrightarrow> wp (remove q) (\<lambda>_ t. wf t \<and> elems t = elems s - {q}) s"
    and remove_returns: "wf s \<Longrightarrow> \<exists>t. remove q s = Ok () t"
begin

lemma remove_size:
  assumes "wf s" and "q \<in> elems s" and "remove q s = Ok () t"
  shows "Suc (size_of t) = size_of s"
proof -
  have "wf t \<and> elems t = elems s - {q}"
    using wp_OkD [OF remove_wf [OF assms(1)] assms(3)] .
  moreover have "0 < card (elems s)"
    unfolding card_gt_0_iff using assms(1,2) size_card [of s] by blast
  ultimately show ?thesis
    using size_card [of s] size_card [of t] assms(1,2) by simp
qed

lemma add_remove_elems:
  assumes "wf s" and "q \<notin> elems s"
  shows "wp (seq_do (add q) (remove q)) (\<lambda>_ t. wf t \<and> elems t = elems s) s"
proof -
  have "wp (add q) (\<lambda>_. wp (remove q) (\<lambda>_ t. wf t \<and> elems t = elems s)) s"
    using add_wf [OF assms]
  proof (rule wp_conseq)
    fix u t
    assume t: "wf t \<and> elems t = insert q (elems s)"
    show "wp (remove q) (\<lambda>_ v. wf v \<and> elems v = elems s) t"
      by (rule wp_conseq [OF remove_wf]) (use t assms(2) in auto)
  qed
  then show ?thesis by (simp add: wp_seq_do)
qed

end

section \<open>The pending index\<close>

definition index_add :: "'w env \<Rightarrow> u64 \<Rightarrow> ('w, unit) call" where
  "index_add env question_id =
     and_then (gets (\<lambda>s. counter (p_pending_count s))) (\<lambda>count. block [
       set_persistent env (KPendingAt count)
         (\<lambda>s. s\<lparr>p_pending_at := (p_pending_at s)(count \<mapsto> question_id)\<rparr>),
       set_persistent env (KPendingPos question_id)
         (\<lambda>s. s\<lparr>p_pending_pos := (p_pending_pos s)(question_id \<mapsto> count)\<rparr>),
       and_then (chk_u32 (count + 1)) (\<lambda>next_count.
         set_persistent env KPendingCount (\<lambda>s. s\<lparr>p_pending_count := Some next_count\<rparr>))])"

definition index_remove :: "'w env \<Rightarrow> u64 \<Rightarrow> ('w, unit) call" where
  "index_remove env question_id =
     and_then (gets (\<lambda>s. p_pending_pos s question_id)) (\<lambda>found.
       case found of
         None \<Rightarrow> ret ()
       | Some pos \<Rightarrow>
           and_then (gets (\<lambda>s. counter (p_pending_count s))) (\<lambda>count. block [
             trap_unless (0 < count),
             (if pos \<noteq> count - 1 then
                and_then (gets (\<lambda>s. p_pending_at s (count - 1))) (\<lambda>at_last.
                and_then (unwrap at_last) (\<lambda>last_id. block [
                  set_persistent env (KPendingAt pos)
                    (\<lambda>s. s\<lparr>p_pending_at := (p_pending_at s)(pos \<mapsto> last_id)\<rparr>),
                  set_persistent env (KPendingPos last_id)
                    (\<lambda>s. s\<lparr>p_pending_pos := (p_pending_pos s)(last_id \<mapsto> pos)\<rparr>)]))
              else ret ()),
             modify (\<lambda>s. s\<lparr>p_pending_at := (p_pending_at s)(count - 1 := None)\<rparr>),
             modify (\<lambda>s. s\<lparr>p_pending_pos := (p_pending_pos s)(question_id := None)\<rparr>),
             set_persistent env KPendingCount (\<lambda>s. s\<lparr>p_pending_count := Some (count - 1)\<rparr>)]))"

definition pending_count :: "'w world \<Rightarrow> u32" where
  "pending_count s = counter (p_pending_count s)"

text \<open>The ids of slots \<open>start\<close> to \<open>end - 1\<close>, empty slots skipped.\<close>

definition list_pending :: "u32 \<Rightarrow> u32 \<Rightarrow> 'w world \<Rightarrow> u64 list" where
  "list_pending start limit s =
     (let count = counter (p_pending_count s);
          last = min (saturating_add start (min limit MAX_PENDING_PAGE)) count
      in List.map_filter (p_pending_at s) [start..<last])"

section \<open>The participant index\<close>

definition track_participant :: "'w env \<Rightarrow> address \<Rightarrow> ('w, unit) call" where
  "track_participant env a =
     and_then (gets (\<lambda>s. p_participant_pos s a)) (\<lambda>tracked.
       if tracked \<noteq> None then ret ()
       else
         and_then (gets (\<lambda>s. counter (p_participant_count s))) (\<lambda>count. block [
           set_persistent env (KParticipantPos a)
             (\<lambda>s. s\<lparr>p_participant_pos := (p_participant_pos s)(a \<mapsto> count)\<rparr>),
           set_persistent env (KParticipantAt count)
             (\<lambda>s. s\<lparr>p_participant_at := (p_participant_at s)(count \<mapsto> a)\<rparr>),
           and_then (chk_u32 (count + 1)) (\<lambda>next_count.
             set_persistent env KParticipantList
               (\<lambda>s. s\<lparr>p_participant_count := Some next_count\<rparr>))]))"

definition get_participant_count :: "'w world \<Rightarrow> u32" where
  "get_participant_count s = counter (p_participant_count s)"

definition get_participant_at :: "u32 \<Rightarrow> 'w world \<Rightarrow> address option" where
  "get_participant_at index s =
     (if counter (p_participant_count s) \<le> index then None else p_participant_at s index)"

section \<open>Well-formed arrays\<close>

text \<open>An array of \<open>n\<close> slots and a reverse map that are inverse to each other.\<close>

definition array_wf :: "nat \<Rightarrow> (nat \<rightharpoonup> 'a) \<Rightarrow> ('a \<rightharpoonup> nat) \<Rightarrow> bool" where
  "array_wf n at pos \<longleftrightarrow> n \<le> u32_max
     \<and> (\<forall>i. at i \<noteq> None \<longleftrightarrow> i < n)
     \<and> (\<forall>i q. at i = Some q \<longrightarrow> pos q = Some i)
     \<and> (\<forall>q i. pos q = Some i \<longrightarrow> at i = Some q)"

lemma array_wf_card:
  assumes "array_wf n at pos"
  shows "finite (dom pos) \<and> card (dom pos) = n"
proof -
  have "bij_betw (\<lambda>q. the (pos q)) (dom pos) {..<n}"
  proof (rule bij_betwI')
    fix q r
    assume "q \<in> dom pos" "r \<in> dom pos"
    then show "(the (pos q) = the (pos r)) = (q = r)"
      using assms unfolding array_wf_def by (metis domD option.sel option.inject)
  next
    fix q
    assume "q \<in> dom pos"
    then show "the (pos q) \<in> {..<n}"
      using assms unfolding array_wf_def by (metis domD lessThan_iff option.discI option.sel)
  next
    fix i
    assume "i \<in> {..<n}"
    then show "\<exists>q\<in>dom pos. i = the (pos q)"
      using assms unfolding array_wf_def by (metis domI lessThan_iff not_Some_eq option.sel)
  qed
  then show ?thesis
    using bij_betw_finite bij_betw_same_card by fastforce
qed

lemma array_wf_push:
  assumes "array_wf n at pos" and "pos q = None" and "n + 1 \<le> u32_max"
  shows "array_wf (n + 1) (at(n \<mapsto> q)) (pos(q \<mapsto> n))"
proof -
  have at: "\<And>j. at j \<noteq> None \<longleftrightarrow> j < n" and ap: "\<And>j r. at j = Some r \<Longrightarrow> pos r = Some j"
    and pa: "\<And>r j. pos r = Some j \<Longrightarrow> at j = Some r"
    using assms unfolding array_wf_def by blast+
  show ?thesis
    unfolding array_wf_def
  proof (intro conjI allI impI)
    fix j
    show "((at(n \<mapsto> q)) j \<noteq> None) = (j < n + 1)"
      using at [of j] by auto
  next
    fix j r
    assume "(at(n \<mapsto> q)) j = Some r"
    then show "(pos(q \<mapsto> n)) r = Some j"
      using ap [of j r] assms(2) by (auto split: if_splits)
  next
    fix r j
    assume "(pos(q \<mapsto> n)) r = Some j"
    then show "(at(n \<mapsto> q)) j = Some r"
      using pa [of r j] at [of j] by (auto split: if_splits)
  qed (use assms(3) in auto)
qed

lemma array_wf_swap_remove:
  assumes "array_wf n at pos" and "pos q = Some i" and "at (n - 1) = Some l"
  shows "array_wf (n - 1) ((at(i \<mapsto> l))(n - 1 := None)) ((pos(l \<mapsto> i))(q := None))"
proof -
  have i: "i < n" "at i = Some q" and n: "pos l = Some (n - 1)"
    using assms unfolding array_wf_def by (metis option.discI)+
  have at: "\<And>j. at j \<noteq> None \<longleftrightarrow> j < n" and ap: "\<And>j r. at j = Some r \<Longrightarrow> pos r = Some j"
    and pa: "\<And>r j. pos r = Some j \<Longrightarrow> at j = Some r" and u: "n \<le> u32_max"
    using assms unfolding array_wf_def by blast+
  show ?thesis
    unfolding array_wf_def
  proof (intro conjI allI impI)
    fix j
    show "(((at(i \<mapsto> l))(n - 1 := None)) j \<noteq> None) = (j < n - 1)"
      using i(1) at [of j] by auto
  next
    fix j r
    assume j: "((at(i \<mapsto> l))(n - 1 := None)) j = Some r"
    then show "((pos(l \<mapsto> i))(q := None)) r = Some j"
      using ap [of j r] assms(2) n i by (auto split: if_splits)
  next
    fix r j
    assume r: "((pos(l \<mapsto> i))(q := None)) r = Some j"
    then show "((at(i \<mapsto> l))(n - 1 := None)) j = Some r"
      using pa [of r j] assms(2,3) n i at [of j] by (auto split: if_splits)
  qed (use u in auto)
qed

definition index_wf :: "'w world \<Rightarrow> bool" where
  "index_wf s = array_wf (pending_count s) (p_pending_at s) (p_pending_pos s)"

definition indexed :: "'w world \<Rightarrow> u64 set" where
  "indexed s = dom (p_pending_pos s)"

definition participants_wf :: "'w world \<Rightarrow> bool" where
  "participants_wf s = array_wf (get_participant_count s) (p_participant_at s) (p_participant_pos s)"

definition participants :: "'w world \<Rightarrow> address set" where
  "participants s = dom (p_participant_pos s)"

text \<open>
  What an index operation may change: with its own fields and the log erased, the worlds
  before and after are equal.
\<close>

definition index_erase :: "'w world \<Rightarrow> 'w world" where
  "index_erase s = s\<lparr>p_pending_at := Map.empty, p_pending_pos := Map.empty, p_pending_count := None,
     ttl_log := []\<rparr>"

definition index_frame :: "'w world \<Rightarrow> 'w world \<Rightarrow> bool" where
  "index_frame s t \<longleftrightarrow> index_erase t = index_erase s"

definition participants_erase :: "'w world \<Rightarrow> 'w world" where
  "participants_erase s = s\<lparr>p_participant_at := Map.empty, p_participant_pos := Map.empty,
     p_participant_count := None, ttl_log := []\<rparr>"

definition participants_frame :: "'w world \<Rightarrow> 'w world \<Rightarrow> bool" where
  "participants_frame s t \<longleftrightarrow> participants_erase t = participants_erase s"

section \<open>Both indexes meet their contract\<close>

lemma index_add_spec:
  assumes "index_wf s" and "q \<notin> indexed s"
  shows "wp (index_add env q) (\<lambda>_ t. index_frame s t \<and> index_wf t
     \<and> indexed t = insert q (indexed s) \<and> pending_count t = pending_count s + 1) s"
  using assms
  by (auto simp: index_add_def wp_simps index_frame_def index_erase_def index_wf_def indexed_def pending_count_def
      counter_def domIff intro!: array_wf_push [unfolded One_nat_def add_0_right add_Suc_right])

text \<open>Removal never fails on a well-formed index, whether or not the id is in it.\<close>

lemma index_frame_refl [simp]: "index_frame s s"
  by (simp add: index_frame_def)

lemma index_update:
  fixes s :: "'w world"
  defines "t \<equiv> \<lambda>at pos n log. s\<lparr>p_pending_at := at, p_pending_pos := pos,
     p_pending_count := Some n, ttl_log := log\<rparr>"
  shows "index_frame s (t at pos n log)" and "index_wf (t at pos n log) = array_wf n at pos"
    and "indexed (t at pos n log) = dom pos"
  by (simp_all add: t_def index_frame_def index_erase_def index_wf_def indexed_def pending_count_def
      counter_def)

lemma index_remove_absent: "p_pending_pos s q = None \<Longrightarrow> index_remove env q s = Ok () s"
  by (simp add: index_remove_def and_then_def gets_def ret_def)

lemma index_remove_last:
  assumes "p_pending_pos s q = Some (n - 1)" and "n = pending_count s" and "0 < n"
  shows "\<exists>log. index_remove env q s = Ok () (s\<lparr>p_pending_at := (p_pending_at s)(n - 1 := None),
     p_pending_pos := (p_pending_pos s)(q := None), p_pending_count := Some (n - 1), ttl_log := log\<rparr>)"
  using assms
  by (simp add: index_remove_def and_then_def gets_def ret_def seq_do_def trap_unless_def
      modify_def set_persistent_def ttl_defs extend_ttl_def pending_count_def) (rule exI, rule refl)

lemma index_remove_swap:
  assumes "p_pending_pos s q = Some i" and "n = pending_count s" and "0 < n" and "i \<noteq> n - 1"
    and "p_pending_at s (n - 1) = Some l"
  shows "\<exists>log. index_remove env q s = Ok () (s\<lparr>
     p_pending_at := ((p_pending_at s)(i \<mapsto> l))(n - 1 := None),
     p_pending_pos := ((p_pending_pos s)(l \<mapsto> i))(q := None),
     p_pending_count := Some (n - 1), ttl_log := log\<rparr>)"
  using assms
  by (simp add: index_remove_def and_then_def gets_def ret_def seq_do_def trap_unless_def
      modify_def set_persistent_def ttl_defs extend_ttl_def pending_count_def unwrap_def)
    (rule exI, rule refl)

lemma index_remove_returns:
  assumes "index_wf s"
  shows "\<exists>t. index_remove env q s = Ok () t \<and> index_frame s t \<and> index_wf t
     \<and> indexed t = indexed s - {q}"
proof (cases "p_pending_pos s q")
  case None
  then show ?thesis
    using assms by (auto simp: index_remove_absent indexed_def intro!: exI [of _ s])
next
  case (Some i)
  let ?n = "pending_count s"
  have wf: "array_wf ?n (p_pending_at s) (p_pending_pos s)"
    using assms by (simp add: index_wf_def)
  then have i: "i < ?n" "p_pending_at s i = Some q"
    using Some unfolding array_wf_def by (metis option.discI)+
  then obtain l where l: "p_pending_at s (?n - 1) = Some l"
    using wf unfolding array_wf_def
    by (metis diff_less less_nat_zero_code nat_neq_iff not_Some_eq zero_less_one)
  note swap = array_wf_swap_remove [OF wf Some l]
  have n: "0 < ?n" using i by simp
  have "l \<in> indexed s" "q \<in> indexed s"
    using wf l Some unfolding array_wf_def indexed_def by blast+
  then have dom: "dom (((p_pending_pos s)(l \<mapsto> i))(q := None)) = indexed s - {q}"
    by (auto simp: indexed_def)
  show ?thesis
  proof (cases "i = ?n - 1")
    case True
    with Some have pos: "p_pending_pos s q = Some (?n - 1)" by simp
    have lq: "l = q" using i(2) l unfolding True [symmetric] by simp
    have at: "(p_pending_at s)(i \<mapsto> q) = p_pending_at s" using i(2) by (rule fun_upd_idem)
    have w: "array_wf (?n - 1) ((p_pending_at s)(?n - 1 := None)) ((p_pending_pos s)(q := None))"
        "dom ((p_pending_pos s)(q := None)) = indexed s - {q}"
      using swap dom by (simp_all only: True [symmetric] lq at fun_upd_upd)
    obtain log where log: "index_remove env q s = Ok () (s\<lparr>p_pending_at := (p_pending_at s)(?n - 1 := None),
     p_pending_pos := (p_pending_pos s)(q := None), p_pending_count := Some (?n - 1), ttl_log := log\<rparr>)"
      using index_remove_last [OF pos refl n, of env] by blast
    show ?thesis
      by (rule exI, intro conjI, rule log, rule index_update(1))
        (simp_all only: index_update(2,3) w)
  next
    case False
    obtain log where log: "index_remove env q s = Ok () (s\<lparr>
     p_pending_at := ((p_pending_at s)(i \<mapsto> l))(?n - 1 := None),
     p_pending_pos := ((p_pending_pos s)(l \<mapsto> i))(q := None),
     p_pending_count := Some (?n - 1), ttl_log := log\<rparr>)"
      using index_remove_swap [OF Some refl n False l, of env] by blast
    show ?thesis
      by (rule exI, intro conjI, rule log, rule index_update(1))
        (simp_all only: index_update(2,3) swap dom)
  qed
qed

lemma index_remove_spec:
  assumes "index_wf s"
  shows "wp (index_remove env q) (\<lambda>_ t. index_frame s t \<and> index_wf t
     \<and> indexed t = indexed s - {q}) s"
proof -
  obtain t where "index_remove env q s = Ok () t" "index_frame s t" "index_wf t"
      "indexed t = indexed s - {q}"
    using index_remove_returns [OF assms] by blast
  then show ?thesis by (simp add: wp_def)
qed

text \<open>The participant index only grows; an address already in it is skipped.\<close>

lemma participants_update:
  fixes s :: "'w world"
  defines "t \<equiv> \<lambda>at pos n log. s\<lparr>p_participant_at := at, p_participant_pos := pos,
     p_participant_count := Some n, ttl_log := log\<rparr>"
  shows "participants_frame s (t at pos n log)" and "participants_wf (t at pos n log) = array_wf n at pos"
    and "participants (t at pos n log) = dom pos"
  by (simp_all add: t_def participants_frame_def participants_erase_def participants_wf_def
      participants_def get_participant_count_def counter_def)

lemma track_participant_frame: "wp (track_participant env a) (\<lambda>_ t. participants_frame s t) s"
  by (simp add: track_participant_def wp_simps participants_frame_def participants_erase_def)

lemma track_participant_spec:
  assumes "participants_wf s"
  shows "wp (track_participant env a) (\<lambda>_ t. participants_wf t
     \<and> participants t = insert a (participants s)) s"
  using assms
  by (auto simp: track_participant_def wp_simps participants_wf_def participants_def
      get_participant_count_def counter_def domIff
      intro!: array_wf_push [unfolded One_nat_def add_0_right add_Suc_right])

interpretation pending: shrinking_set "index_add env" indexed pending_count index_wf "index_remove env"
  for env :: "'w env"
proof unfold_locales
  fix s :: "'w world" and q
  show "index_wf s \<Longrightarrow> q \<notin> indexed s \<Longrightarrow>
      wp (index_add env q) (\<lambda>_ t. index_wf t \<and> indexed t = insert q (indexed s)) s"
    by (rule wp_conseq [OF index_add_spec]) auto
  show "index_wf s \<Longrightarrow> finite (indexed s) \<and> card (indexed s) = pending_count s"
    by (simp add: index_wf_def indexed_def array_wf_card)
  show "index_wf s \<Longrightarrow> wp (index_remove env q) (\<lambda>_ t. index_wf t \<and> indexed t = indexed s - {q}) s"
    by (rule wp_conseq [OF index_remove_spec]) auto
  show "index_wf s \<Longrightarrow> \<exists>t. index_remove env q s = Ok () t"
    using index_remove_returns by blast
qed

interpretation participant: growing_set "track_participant env" participants get_participant_count
    participants_wf
  for env :: "'w env"
proof unfold_locales
  fix s :: "'w world" and a
  show "participants_wf s \<Longrightarrow> a \<notin> participants s \<Longrightarrow>
      wp (track_participant env a) (\<lambda>_ t. participants_wf t \<and> participants t = insert a (participants s)) s"
    by (rule track_participant_spec)
  show "participants_wf s \<Longrightarrow> finite (participants s) \<and> card (participants s) = get_participant_count s"
    by (simp add: participants_wf_def participants_def array_wf_card)
qed

end
