(* ===== verification/Stake.thy ===== *)
theory Stake
  imports Pending_Index
begin

text \<open>
  Worker bonds: the warming, settled and unbonding buckets of a \<open>StakeInfo\<close>, the entry points
  that fill and empty them, and the slash that draws from them in that order. A stake is
  well-formed when its buckets are non-negative and \<open>warming\<close> is the sum of the tranches.
\<close>

section \<open>Buckets\<close>

definition tranche_sum :: "warming_tranche list \<Rightarrow> i128" where
  "tranche_sum ts = sum_list (map tranche_amount ts)"

definition tranches_of :: "stake_info \<Rightarrow> warming_tranche list" where
  "tranches_of info = (case warming_tranches info of None \<Rightarrow> [] | Some ts \<Rightarrow> ts)"

definition some_tranches :: "warming_tranche list \<Rightarrow> warming_tranche list option" where
  "some_tranches ts = (if ts = [] then None else Some ts)"

definition warmed_up :: "u32 \<Rightarrow> warming_tranche \<Rightarrow> bool" where
  "warmed_up at_ledger t \<longleftrightarrow> saturating_add (tranche_since t) STAKE_WARMUP_LEDGERS \<le> at_ledger"

definition mature_step :: "u32 \<Rightarrow> warming_tranche \<Rightarrow> stake_info \<times> warming_tranche list
    \<Rightarrow> ('e, 's, stake_info \<times> warming_tranche list) prog" where
  "mature_step at_ledger tranche acc =
     (case acc of (info, pending) \<Rightarrow>
        if warmed_up at_ledger tranche then
          and_then (chk (settled info + tranche_amount tranche)) (\<lambda>settled'.
          and_then (chk (warming info - tranche_amount tranche)) (\<lambda>warming'.
            ret (info\<lparr>settled := settled', warming := warming'\<rparr>, pending)))
        else ret (info, pending @ [tranche]))"

definition mature_warming :: "'w env \<Rightarrow> stake_info \<Rightarrow> ('e, 's, stake_info) prog" where
  "mature_warming env info =
     (case warming_tranches info of
        None \<Rightarrow> ret info
      | Some tranches \<Rightarrow>
          and_then (fold_prog (mature_step (now env)) tranches (info, [])) (\<lambda>(info', pending).
            ret (info'\<lparr>warming_tranches := some_tranches pending\<rparr>)))"

definition add_warming :: "'w env \<Rightarrow> stake_info \<Rightarrow> i128 \<Rightarrow> (contract_error, 's, stake_info) prog" where
  "add_warming env info amount =
     and_then (ok_or (checked_add (warming info) amount) ArithmeticOverflow) (\<lambda>warming'.
       ret (info\<lparr>warming := warming', warming_tranches := Some (tranches_of info @
         [\<lparr>tranche_amount = amount, tranche_since = now env\<rparr>])\<rparr>))"

text \<open>
  The loop of \<open>drain_warming\<close> counts \<open>i\<close> down from the newest tranche and stops when nothing is
  left to take. Every subtraction is of a minimum, so none can leave \<open>i128\<close>.
\<close>

fun drain_loop :: "nat \<Rightarrow> warming_tranche list \<Rightarrow> i128 \<Rightarrow> warming_tranche list \<times> i128" where
  "drain_loop 0 tranches left = (tranches, left)"
| "drain_loop (Suc i) tranches left =
     (if left \<le> 0 then (tranches, left)
      else
        (let tranche = tranches ! i;
             taken = min left (tranche_amount tranche);
             tranche' = tranche\<lparr>tranche_amount := tranche_amount tranche - taken\<rparr>
         in drain_loop i
              (if tranche_amount tranche' = 0 then take i tranches @ drop (Suc i) tranches
               else tranches[i := tranche'])
              (left - taken)))"

definition drain_warming :: "stake_info \<Rightarrow> i128 \<Rightarrow> stake_info" where
  "drain_warming info amount =
     (case warming_tranches info of
        None \<Rightarrow> info
      | Some tranches \<Rightarrow>
          (case drain_loop (length tranches) tranches amount of (tranches', left) \<Rightarrow>
             info\<lparr>warming := warming info - (amount - left),
                  warming_tranches := some_tranches tranches'\<rparr>))"

section \<open>Reading a stake\<close>

definition stored_stake :: "data_key \<Rightarrow> 'w world \<Rightarrow> stake_info" where
  "stored_stake key s = (case p_stake s key of None \<Rightarrow> default_stake_info | Some info \<Rightarrow> info)"

definition stake_info_for_token :: "'w env \<Rightarrow> address \<Rightarrow> address \<Rightarrow> ('w, stake_info) call" where
  "stake_info_for_token env t worker =
     and_then (stake_key t worker) (\<lambda>key.
     and_then (gets (stored_stake key)) (mature_warming env))"

text \<open>\<open>unwrap_or_default\<close>: an error is replaced by the default, a trap is not.\<close>

definition or_default :: "'a \<Rightarrow> ('e, 's, 'a) prog \<Rightarrow> ('e, 's, 'a) prog" where
  "or_default d m = and_then (attempt m) (\<lambda>r. ret (case r of Inl e \<Rightarrow> d | Inr a \<Rightarrow> a))"

definition stake_info :: "'w env \<Rightarrow> address \<Rightarrow> ('w, stake_info) call" where
  "stake_info env worker =
     and_then (attempt get_token_cfg) (\<lambda>r.
       case r of
         Inl e \<Rightarrow> ret default_stake_info
       | Inr t \<Rightarrow> or_default default_stake_info (stake_info_for_token env t worker))"

section \<open>Entry points\<close>

definition put_stake :: "'w env \<Rightarrow> data_key \<Rightarrow> stake_info \<Rightarrow> ('w, unit) call" where
  "put_stake env key info = set_persistent env key (\<lambda>s. s\<lparr>p_stake := (p_stake s)(key \<mapsto> info)\<rparr>)"

definition stake :: "'w env \<Rightarrow> address \<Rightarrow> i128 \<Rightarrow> ('w, unit) call" where
  "stake env worker amount = block [
     require_not_paused,
     require_auth env worker,
     ensure (0 < amount) InvalidAmount,
     and_then get_token_cfg (\<lambda>token_addr. block [
       transfer env token_addr worker (self env) amount,
       and_then (stake_info env worker) (\<lambda>info.
       and_then (add_warming env info amount) (\<lambda>info'.
       and_then (chk (settled info' + warming info')) (\<lambda>new_total. block [
         put_stake env (KStake worker) info',
         track_participant env worker,
         bump_instance env,
         publish (AccountEv (StakeChanged worker token_addr amount new_total))])))])]"

definition stake_asset :: "'w env \<Rightarrow> address \<Rightarrow> address \<Rightarrow> i128 \<Rightarrow> ('w, unit) call" where
  "stake_asset env worker token amount = block [
     require_not_paused,
     require_auth env worker,
     ensure (0 < amount) InvalidAmount,
     require_allowed_token token,
     transfer env token worker (self env) amount,
     and_then (stake_key token worker) (\<lambda>key.
     and_then (stake_info_for_token env token worker) (\<lambda>info.
     and_then (add_warming env info amount) (\<lambda>info'.
     and_then (chk (settled info' + warming info')) (\<lambda>new_total. block [
       put_stake env key info',
       bump_instance env,
       publish (AccountEv (StakeChanged worker token amount new_total))]))))]"

definition release_ledger :: "'w env \<Rightarrow> u32 \<Rightarrow> u32" where
  "release_ledger env timeout = saturating_add (now env) (max MIN_UNBONDING_LEDGERS timeout)"

definition begin_unstake :: "'w env \<Rightarrow> address \<Rightarrow> i128 \<Rightarrow> ('w, u32) call" where
  "begin_unstake env worker amount =
     seq_do (block [require_auth env worker, ensure (0 < amount) InvalidAmount])
     (and_then (stake_info env worker) (\<lambda>info.
      and_then (chk (settled info + warming info)) (\<lambda>active.
      seq_do (ensure (amount \<le> active) InsufficientStake)
     (let from_warming = min amount (warming info);
          drained = drain_warming info from_warming;
          info1 = drained\<lparr>settled := settled drained - (amount - from_warming)\<rparr>
      in and_then (gets i_timeout_ledgers) (\<lambda>t.
         and_then (ok_or t NotInitialized) (\<lambda>timeout_ledgers.
         and_then (ok_or (checked_add (unbonding info1) amount) ArithmeticOverflow) (\<lambda>unbonding'.
         let release_at = release_ledger env timeout_ledgers;
             info2 = info1\<lparr>unbonding := unbonding', unbonding_release_at := release_at\<rparr>
         in and_then (chk (settled info2 + warming info2)) (\<lambda>new_total.
            and_then get_token_cfg (\<lambda>token_addr.
            seq_do (block [
              put_stake env (KStake worker) info2,
              bump_instance env,
              publish (AccountEv (StakeChanged worker token_addr (- amount) new_total))])
            (ret release_at))))))))))"

definition begin_unstake_asset :: "'w env \<Rightarrow> address \<Rightarrow> address \<Rightarrow> i128 \<Rightarrow> ('w, u32) call" where
  "begin_unstake_asset env worker token amount =
     seq_do (block [require_auth env worker, ensure (0 < amount) InvalidAmount])
     (and_then (stake_info_for_token env token worker) (\<lambda>info.
      and_then (chk (settled info + warming info)) (\<lambda>active.
      seq_do (ensure (amount \<le> active) InsufficientStake)
     (let from_warming = min amount (warming info);
          drained = drain_warming info from_warming;
          info1 = drained\<lparr>settled := settled drained - (amount - from_warming)\<rparr>
      in and_then (gets i_timeout_ledgers) (\<lambda>t.
         and_then (ok_or t NotInitialized) (\<lambda>timeout_ledgers.
         and_then (ok_or (checked_add (unbonding info1) amount) ArithmeticOverflow) (\<lambda>unbonding'.
         let release_at = release_ledger env timeout_ledgers;
             info2 = info1\<lparr>unbonding := unbonding', unbonding_release_at := release_at\<rparr>
         in and_then (stake_key token worker) (\<lambda>key.
            and_then (chk (settled info2 + warming info2)) (\<lambda>new_total.
            seq_do (block [
              put_stake env key info2,
              bump_instance env,
              publish (AccountEv (StakeChanged worker token (- amount) new_total))])
            (ret release_at))))))))))"

definition complete_unstake :: "'w env \<Rightarrow> address \<Rightarrow> ('w, i128) call" where
  "complete_unstake env worker =
     seq_do (require_auth env worker)
     (and_then (stake_info env worker) (\<lambda>info.
      seq_do (block [
        ensure (0 < unbonding info) NothingUnbonding,
        ensure (unbonding_release_at info \<le> now env) UnbondingNotElapsed])
     (let amount = unbonding info in
      and_then get_token_cfg (\<lambda>token_addr.
      seq_do (block [
        transfer env token_addr (self env) worker amount,
        put_stake env (KStake worker) (info\<lparr>unbonding := 0, unbonding_release_at := 0\<rparr>),
        bump_instance env])
      (ret amount)))))"

definition claim_unstake :: "'w env \<Rightarrow> address \<Rightarrow> ('w, i128) call" where
  "claim_unstake env worker = complete_unstake env worker"

definition complete_unstake_asset :: "'w env \<Rightarrow> address \<Rightarrow> address \<Rightarrow> ('w, i128) call" where
  "complete_unstake_asset env worker token =
     seq_do (require_auth env worker)
     (and_then (stake_info_for_token env token worker) (\<lambda>info.
      seq_do (block [
        ensure (0 < unbonding info) NothingUnbonding,
        ensure (unbonding_release_at info \<le> now env) UnbondingNotElapsed])
     (let amount = unbonding info in
      seq_do (transfer env token (self env) worker amount)
      (and_then (stake_key token worker) (\<lambda>key.
      seq_do (block [
        put_stake env key (info\<lparr>unbonding := 0, unbonding_release_at := 0\<rparr>),
        bump_instance env])
      (ret amount))))))"

section \<open>Slashing\<close>

text \<open>What a slash leaves of the buckets: warming first, then settled, then unbonding.\<close>

definition slash_buckets :: "stake_info \<Rightarrow> i128 \<Rightarrow> stake_info" where
  "slash_buckets info amount =
     (let from_warming = min amount (warming info);
          info1 = drain_warming info from_warming;
          left = amount - from_warming;
          from_settled = min left (settled info1);
          from_unbonding = min (left - from_settled) (unbonding info1)
      in info1\<lparr>settled := settled info1 - from_settled,
               unbonding := unbonding info1 - from_unbonding\<rparr>)"

definition slash :: "'w env \<Rightarrow> address \<Rightarrow> address \<Rightarrow> i128 \<Rightarrow> ('w, i128) call" where
  "slash env token worker cap =
     and_then (attempt (stake_key token worker)) (\<lambda>r.
       case r of
         Inl e \<Rightarrow> ret 0
       | Inr key \<Rightarrow>
           and_then (gets (\<lambda>s. p_stake s key)) (\<lambda>found.
             if found = None then ret 0
             else
               and_then (or_default default_stake_info (stake_info_for_token env token worker)) (\<lambda>info.
               and_then (chk (settled info + warming info)) (\<lambda>active.
               and_then (chk (active + unbonding info)) (\<lambda>slashable.
                 if slashable \<le> 0 then ret 0
                 else
                   and_then (mul_bps slashable SLASH_BPS) (\<lambda>five_percent.
                     let amount = min (min five_percent cap) slashable
                     in if amount \<le> 0 then ret 0
                        else seq_do (put_stake env key (slash_buckets info amount)) (ret amount)))))))"

section \<open>Well-formed stakes\<close>

definition stake_wf :: "stake_info \<Rightarrow> bool" where
  "stake_wf info \<longleftrightarrow> 0 \<le> settled info \<and> 0 \<le> unbonding info
     \<and> warming info = tranche_sum (tranches_of info)
     \<and> (\<forall>t\<in>set (tranches_of info). 0 < tranche_amount t)"

definition stake_total :: "stake_info \<Rightarrow> i128" where
  "stake_total info = settled info + warming info + unbonding info"

lemma tranche_sum_Nil [simp]: "tranche_sum [] = 0"
  by (simp add: tranche_sum_def)

lemma tranche_sum_Cons [simp]: "tranche_sum (t # ts) = tranche_amount t + tranche_sum ts"
  by (simp add: tranche_sum_def)

lemma tranche_sum_append [simp]: "tranche_sum (xs @ ys) = tranche_sum xs + tranche_sum ys"
  by (simp add: tranche_sum_def)

lemma tranche_sum_nonneg: "\<forall>t\<in>set ts. 0 < tranche_amount t \<Longrightarrow> 0 \<le> tranche_sum ts"
  by (induction ts) auto

lemma tranche_sum_filter:
  "tranche_sum (filter P ts) + tranche_sum (filter (\<lambda>t. \<not> P t) ts) = tranche_sum ts"
  by (induction ts) auto

lemma tranches_of_some [simp]: "tranches_of (info\<lparr>warming_tranches := some_tranches ts\<rparr>) = ts"
  by (simp add: tranches_of_def some_tranches_def)

lemma tranches_of_Some [simp]: "tranches_of (info\<lparr>warming_tranches := Some ts\<rparr>) = ts"
  by (simp add: tranches_of_def)

lemma tranches_of_upd [simp]:
  "tranches_of (info\<lparr>settled := a\<rparr>) = tranches_of info"
  "tranches_of (info\<lparr>warming := a\<rparr>) = tranches_of info"
  "tranches_of (info\<lparr>unbonding := a\<rparr>) = tranches_of info"
  "tranches_of (info\<lparr>unbonding_release_at := n\<rparr>) = tranches_of info"
  by (simp_all add: tranches_of_def)

lemma stake_wf_default [simp]: "stake_wf default_stake_info"
  by (simp add: stake_wf_def default_stake_info_def tranches_of_def)

lemma stake_total_default [simp]: "stake_total default_stake_info = 0"
  by (simp add: stake_total_def default_stake_info_def)

lemma stake_wf_warming: "stake_wf info \<Longrightarrow> 0 \<le> warming info"
  by (simp add: stake_wf_def tranche_sum_nonneg)

lemma stake_total_nonneg: "stake_wf info \<Longrightarrow> 0 \<le> stake_total info"
  using stake_wf_warming [of info] by (simp add: stake_total_def stake_wf_def)

section \<open>Maturing\<close>

text \<open>What maturing does, and the condition under which none of its additions overflows.\<close>

definition matured :: "u32 \<Rightarrow> stake_info \<Rightarrow> stake_info" where
  "matured n info =
     (let done = tranche_sum (filter (warmed_up n) (tranches_of info))
      in case warming_tranches info of
           None \<Rightarrow> info
         | Some ts \<Rightarrow> info\<lparr>settled := settled info + done, warming := warming info - done,
             warming_tranches := some_tranches (filter (\<lambda>t. \<not> warmed_up n t) ts)\<rparr>)"

fun mature_fits_loop :: "u32 \<Rightarrow> warming_tranche list \<Rightarrow> i128 \<Rightarrow> i128 \<Rightarrow> bool" where
  "mature_fits_loop n [] a w = True"
| "mature_fits_loop n (t # ts) a w =
     (if warmed_up n t
      then i128_range (a + tranche_amount t) \<and> i128_range (w - tranche_amount t)
        \<and> mature_fits_loop n ts (a + tranche_amount t) (w - tranche_amount t)
      else mature_fits_loop n ts a w)"

definition mature_fits :: "u32 \<Rightarrow> stake_info \<Rightarrow> bool" where
  "mature_fits n info = mature_fits_loop n (tranches_of info) (settled info) (warming info)"

lemma mature_loop_run:
  "fold_prog (mature_step n) ts (info, pending) s =
     (if mature_fits_loop n ts (settled info) (warming info)
      then Ok (info\<lparr>settled := settled info + tranche_sum (filter (warmed_up n) ts),
                    warming := warming info - tranche_sum (filter (warmed_up n) ts)\<rparr>,
               pending @ filter (\<lambda>t. \<not> warmed_up n t) ts) s
      else Trap)"
proof (induction ts arbitrary: info pending)
  case Nil
  then show ?case by (simp add: ret_def)
next
  case (Cons t ts)
  then show ?case
    by (simp add: mature_step_def and_then_def chk_def ret_def trap_def algebra_simps)
qed

lemma mature_warming_run:
  "mature_warming env info s = (if mature_fits (now env) info then Ok (matured (now env) info) s else Trap)"
  by (cases "warming_tranches info")
    (simp_all add: mature_warming_def mature_fits_def matured_def tranches_of_def and_then_def
      mature_loop_run ret_def Let_def)

lemma wp_mature_warming [wp_simps]:
  "wp (mature_warming env info) Q s = (mature_fits (now env) info \<longrightarrow> Q (matured (now env) info) s)"
  by (simp add: wp_def mature_warming_run)

lemma mature_fits_loop_wf:
  assumes "\<forall>t\<in>set ts. 0 < tranche_amount t" and "0 \<le> a" and "tranche_sum ts \<le> w"
    and "i128_range (a + w)"
  shows "mature_fits_loop n ts a w"
  using assms
proof (induction ts arbitrary: a w)
  case Nil
  then show ?case by simp
next
  case (Cons t ts)
  then have "0 \<le> tranche_sum ts" by (simp add: tranche_sum_nonneg)
  moreover have "mature_fits_loop n ts (a + tranche_amount t) (w - tranche_amount t)"
    using Cons.prems by (intro Cons.IH) auto
  moreover have "mature_fits_loop n ts a w"
    using Cons.prems by (intro Cons.IH) auto
  ultimately show ?case
    using Cons.prems by (auto simp: i128_range_def)
qed

lemma mature_fits_wf:
  "stake_wf info \<Longrightarrow> i128_range (settled info + warming info) \<Longrightarrow> mature_fits n info"
  by (simp add: mature_fits_def mature_fits_loop_wf stake_wf_def)

lemma matured_same [simp]:
  "unbonding (matured n info) = unbonding info"
  "unbonding_release_at (matured n info) = unbonding_release_at info"
  by (simp_all add: matured_def Let_def split: option.split)

lemma matured_active: "settled (matured n info) + warming (matured n info) = settled info + warming info"
  by (simp add: matured_def Let_def split: option.split)

lemma matured_total [simp]: "stake_total (matured n info) = stake_total info"
  using matured_active [of n info] by (simp add: stake_total_def)

lemma matured_wf: "stake_wf info \<Longrightarrow> stake_wf (matured n info)"
  using tranche_sum_filter [of "warmed_up n" "tranches_of info"]
    tranche_sum_nonneg [of "filter (warmed_up n) (tranches_of info)"]
  by (cases "warming_tranches info")
    (auto simp: stake_wf_def matured_def Let_def tranches_of_def some_tranches_def)

section \<open>Draining\<close>

lemma drain_loop_snoc:
  "drain_loop (length (ts @ [t])) (ts @ [t]) left =
     (if left \<le> 0 then (ts @ [t], left)
      else if tranche_amount t \<le> left then drain_loop (length ts) ts (left - tranche_amount t)
      else (ts @ [t\<lparr>tranche_amount := tranche_amount t - left\<rparr>], 0))"
proof -
  have "drain_loop (length ts) xs 0 = (xs, 0)" for xs
    by (cases "length ts") simp_all
  then show ?thesis by (simp add: Let_def list_update_append)
qed

lemma drain_loop_sum:
  assumes "\<forall>t\<in>set ts. 0 < tranche_amount t" and "0 \<le> left"
    and "drain_loop (length ts) ts left = (ts', left')"
  shows "tranche_sum ts' = tranche_sum ts - (left - left') \<and> left' = max 0 (left - tranche_sum ts)
     \<and> (\<forall>t\<in>set ts'. 0 < tranche_amount t)"
  using assms
proof (induction ts arbitrary: left rule: rev_induct)
  case Nil
  then show ?case by simp
next
  case (snoc t ts)
  have nn: "0 \<le> tranche_sum ts" using snoc.prems(1) by (simp add: tranche_sum_nonneg)
  consider "left = 0" | "0 < left" "tranche_amount t \<le> left" | "0 < left" "left < tranche_amount t"
    using snoc.prems(2) by linarith
  then show ?case
  proof cases
    case 1
    then show ?thesis using snoc.prems nn by (simp only: drain_loop_snoc) auto
  next
    case 2
    then have "drain_loop (length ts) ts (left - tranche_amount t) = (ts', left')"
      using snoc.prems(3) by (simp only: drain_loop_snoc) simp
    then have "tranche_sum ts' = tranche_sum ts - (left - tranche_amount t - left')
      \<and> left' = max 0 (left - tranche_amount t - tranche_sum ts) \<and> (\<forall>t\<in>set ts'. 0 < tranche_amount t)"
      using snoc.prems(1) 2 by (intro snoc.IH) simp_all
    then show ?thesis by simp
  next
    case 3
    then have "ts' = ts @ [t\<lparr>tranche_amount := tranche_amount t - left\<rparr>]" "left' = 0"
      using snoc.prems(3) by (simp_all only: drain_loop_snoc) simp_all
    then show ?thesis using 3 snoc.prems(1) nn by simp
  qed
qed

text \<open>Only a suffix of the newest tranches is touched: older ones keep their own clock.\<close>

lemma drain_loop_prefix:
  assumes "drain_loop (length ts) ts left = (ts', left')"
  shows "\<exists>k. ts' = take k ts \<or> (k < length ts \<and> (\<exists>a. ts' = take k ts @ [(ts ! k)\<lparr>tranche_amount := a\<rparr>]))"
  using assms
proof (induction ts arbitrary: left rule: rev_induct)
  case Nil
  then show ?case by simp
next
  case (snoc t ts)
  consider "left \<le> 0" | "0 < left" "tranche_amount t \<le> left" | "0 < left" "left < tranche_amount t"
    by linarith
  then show ?case
  proof cases
    case 1
    then show ?thesis
      using snoc.prems by (intro exI [of _ "length (ts @ [t])"]) (simp only: drain_loop_snoc, simp)
  next
    case 2
    then have "drain_loop (length ts) ts (left - tranche_amount t) = (ts', left')"
      using snoc.prems by (simp only: drain_loop_snoc) simp
    then obtain k where k: "ts' = take k ts
        \<or> (k < length ts \<and> (\<exists>a. ts' = take k ts @ [(ts ! k)\<lparr>tranche_amount := a\<rparr>]))"
      using snoc.IH by blast
    show ?thesis
      by (rule exI [of _ "min k (length ts)"]) (use k in \<open>auto simp: nth_append min_def\<close>)
  next
    case 3
    then show ?thesis
      using snoc.prems by (intro exI [of _ "length ts"]) (simp only: drain_loop_snoc, auto)
  qed
qed

lemma drain_warming_spec:
  assumes "stake_wf info" and "0 \<le> amount" and "amount \<le> warming info"
  shows "stake_wf (drain_warming info amount) \<and> warming (drain_warming info amount) = warming info - amount
     \<and> settled (drain_warming info amount) = settled info
     \<and> unbonding (drain_warming info amount) = unbonding info
     \<and> unbonding_release_at (drain_warming info amount) = unbonding_release_at info"
proof (cases "warming_tranches info")
  case None
  then have "drain_warming info amount = info" "warming info = 0"
    using assms by (simp_all add: drain_warming_def stake_wf_def tranches_of_def)
  then show ?thesis using assms by simp
next
  case (Some ts)
  obtain ts' left where d: "drain_loop (length ts) ts amount = (ts', left)"
    by (cases "drain_loop (length ts) ts amount")
  have "tranches_of info = ts" using Some by (simp add: tranches_of_def)
  then show ?thesis
    using assms drain_loop_sum [OF _ assms(2) d] Some d
    by (simp add: stake_wf_def drain_warming_def)
qed

lemma slash_buckets_spec:
  assumes "stake_wf info" and "0 \<le> amount" and "amount \<le> stake_total info"
  shows "stake_wf (slash_buckets info amount)
     \<and> stake_total (slash_buckets info amount) = stake_total info - amount"
proof -
  let ?d = "drain_warming info (min amount (warming info))"
  have d: "stake_wf ?d" "warming ?d = warming info - min amount (warming info)"
      "settled ?d = settled info" "unbonding ?d = unbonding info"
    using drain_warming_spec [OF assms(1), of "min amount (warming info)"] assms
      stake_wf_warming [OF assms(1)] by simp_all
  then show ?thesis
    using assms(2,3) stake_wf_warming [OF assms(1)]
    unfolding slash_buckets_def Let_def stake_wf_def stake_total_def min_def by auto
qed

text \<open>Moving \<open>amount\<close> out of the active buckets into the unbonding one.\<close>

lemma unbond_spec:
  assumes "stake_wf info" and "0 < amount" and "amount \<le> settled info + warming info"
    and "i = drain_warming info (min amount (warming info))"
    and "j = i\<lparr>settled := settled i - (amount - min amount (warming info)),
               unbonding := unbonding i + amount, unbonding_release_at := r\<rparr>"
  shows "stake_wf j \<and> stake_total j = stake_total info"
proof -
  have "stake_wf i" "warming i = warming info - min amount (warming info)"
      "settled i = settled info" "unbonding i = unbonding info"
    using drain_warming_spec [OF assms(1), of "min amount (warming info)"] assms(2,4)
      stake_wf_warming [OF assms(1)] by simp_all
  then show ?thesis
    using assms(2,3,5) stake_wf_warming [OF assms(1)]
    by (auto simp: stake_wf_def stake_total_def min_def)
qed

lemma add_warming_wf:
  assumes "stake_wf info" and "0 < amount"
    and "j = info\<lparr>warming := warming info + amount, warming_tranches := Some (tranches_of info @
         [\<lparr>tranche_amount = amount, tranche_since = n\<rparr>])\<rparr>"
  shows "stake_wf j \<and> stake_total j = stake_total info + amount"
  using assms by (auto simp: stake_wf_def stake_total_def)

lemma claim_wf:
  assumes "stake_wf info"
  shows "stake_wf (info\<lparr>unbonding := 0, unbonding_release_at := 0\<rparr>)
    \<and> stake_total (info\<lparr>unbonding := 0, unbonding_release_at := 0\<rparr>) = stake_total info - unbonding info"
  using assms by (auto simp: stake_wf_def stake_total_def)

section \<open>Rules for the stake operations\<close>

lemma wp_or_default [wp_simps]:
  "wp (or_default d m) Q s = (case m s of Ok a t \<Rightarrow> Q a t | Fail e t \<Rightarrow> Q d t | Trap \<Rightarrow> True)"
  by (simp add: or_default_def wp_def and_then_def attempt_def ret_def split: outcome.split)

lemma stake_key_run:
  "stake_key t w s = (case i_token s of None \<Rightarrow> Fail NotInitialized s
     | Some d \<Rightarrow> Ok (if t = d then KStake w else KStakeAsset t w) s)"
  by (simp add: stake_key_def get_token_cfg_def and_then_def gets_def ok_or_def ret_def fail_def
      split: option.split)

lemma stake_info_for_token_run:
  "stake_info_for_token env t w s = (case i_token s of None \<Rightarrow> Fail NotInitialized s
     | Some d \<Rightarrow> (let info = stored_stake (if t = d then KStake w else KStakeAsset t w) s
         in if mature_fits (now env) info then Ok (matured (now env) info) s else Trap))"
  by (simp add: stake_info_for_token_def and_then_def stake_key_run gets_def mature_warming_run
      Let_def split: option.split)

lemma stake_info_run:
  "stake_info env w s = (case i_token s of None \<Rightarrow> Ok default_stake_info s
     | Some d \<Rightarrow> (let info = stored_stake (KStake w) s
         in if mature_fits (now env) info then Ok (matured (now env) info) s else Trap))"
  by (simp add: stake_info_def or_default_def and_then_def attempt_def get_token_cfg_def gets_def
      ok_or_def ret_def fail_def stake_info_for_token_run Let_def split: option.split)

lemma wp_stake_info_for_token [wp_simps]:
  "wp (stake_info_for_token env t w) Q s = (\<forall>d. i_token s = Some d \<longrightarrow>
     mature_fits (now env) (stored_stake (if t = d then KStake w else KStakeAsset t w) s) \<longrightarrow>
     Q (matured (now env) (stored_stake (if t = d then KStake w else KStakeAsset t w) s)) s)"
  by (cases "i_token s") (auto simp: wp_def stake_info_for_token_run Let_def)

lemma wp_stake_info [wp_simps]:
  "wp (stake_info env w) Q s = (case i_token s of None \<Rightarrow> Q default_stake_info s
     | Some d \<Rightarrow> mature_fits (now env) (stored_stake (KStake w) s) \<longrightarrow>
         Q (matured (now env) (stored_stake (KStake w) s)) s)"
  by (simp add: wp_def stake_info_run Let_def split: option.split)

lemma wp_put_stake [wp_simps]:
  "wp (put_stake env key info) Q s =
     Q () (s\<lparr>p_stake := (p_stake s)(key \<mapsto> info), ttl_log := ttl_log s @
        [(now env, TtlKey key, PERSISTENT_TTL_THRESHOLD, PERSISTENT_TTL_EXTEND_TO)]\<rparr>)"
  by (simp add: put_stake_def wp_simps)

lemma wp_add_warming [wp_simps]:
  "wp (add_warming env info a) Q s = (i128_range (warming info + a) \<longrightarrow>
     Q (info\<lparr>warming := warming info + a, warming_tranches := Some (tranches_of info @
         [\<lparr>tranche_amount = a, tranche_since = now env\<rparr>])\<rparr>) s)"
  by (auto simp: add_warming_def wp_simps)

section \<open>The stakes of a world\<close>

definition stakes_wf :: "'w world \<Rightarrow> bool" where
  "stakes_wf s \<longleftrightarrow> finite (dom (p_stake s)) \<and> (\<forall>k info. p_stake s k = Some info \<longrightarrow> stake_wf info)"

text \<open>What all stakes in token \<open>t\<close> hold together, when the default token is \<open>d\<close>.\<close>

definition stake_sum :: "address \<Rightarrow> address \<Rightarrow> 'w world \<Rightarrow> i128" where
  "stake_sum d t s = msum (\<lambda>k info. if key_token d k = t then stake_total info else 0) (p_stake s)"

lemma stored_stake_wf: "stakes_wf s \<Longrightarrow> stake_wf (stored_stake k s)"
  by (simp add: stakes_wf_def stored_stake_def split: option.split)

lemma stakes_wf_put:
  "stakes_wf s \<Longrightarrow> stake_wf info \<Longrightarrow> stakes_wf (s\<lparr>p_stake := (p_stake s)(k \<mapsto> info)\<rparr>)"
  by (simp add: stakes_wf_def)

lemma stakes_wf_cong: "p_stake t = p_stake s \<Longrightarrow> stakes_wf t = stakes_wf s"
  by (simp add: stakes_wf_def)

lemma stake_sum_cong: "p_stake t = p_stake s \<Longrightarrow> stake_sum d x t = stake_sum d x s"
  by (simp add: stake_sum_def)

lemma stake_sum_put:
  assumes "stakes_wf s"
  shows "stake_sum d t (s\<lparr>p_stake := (p_stake s)(k \<mapsto> info)\<rparr>) = stake_sum d t s
    + (if key_token d k = t then stake_total info - stake_total (stored_stake k s) else 0)"
  using assms
  by (simp add: stake_sum_def stakes_wf_def msum_update mval_def stored_stake_def split: option.split)

lemma stake_sum_nonneg: "stakes_wf s \<Longrightarrow> 0 \<le> stake_sum d t s"
  unfolding stake_sum_def by (rule msum_nonneg) (auto simp: stakes_wf_def stake_total_nonneg)

text \<open>The amount a slash takes.\<close>

definition slash_amount :: "i128 \<Rightarrow> i128 \<Rightarrow> i128" where
  "slash_amount slashable cap = max 0 (min (min (mul_bps_val slashable SLASH_BPS) cap) slashable)"

definition slash_frame :: "'w world \<Rightarrow> 'w world \<Rightarrow> bool" where
  "slash_frame s t \<longleftrightarrow> t\<lparr>p_stake := Map.empty, ttl_log := []\<rparr> = s\<lparr>p_stake := Map.empty, ttl_log := []\<rparr>"

lemma slash_run:
  assumes "i_token s = Some d" and "key = (if t = d then KStake w else KStakeAsset t w)"
    and "stakes_wf s" and "info = stored_stake key s" and "i128_range (stake_total info)"
  shows "\<exists>u. slash env t w cap s = Ok (slash_amount (stake_total info) cap) u \<and> slash_frame s u
     \<and> (p_stake u = p_stake s \<and> slash_amount (stake_total info) cap = 0
        \<or> p_stake u = (p_stake s)(key \<mapsto> slash_buckets (matured (now env) info)
             (slash_amount (stake_total info) cap)))"
proof -
  have wf: "stake_wf info" using assms(3,4) stored_stake_wf by blast
  have tot: "0 \<le> stake_total info" using stake_total_nonneg [OF wf] .
  have act: "i128_range (settled info + warming info)"
    using wf assms(5) stake_wf_warming [OF wf] by (auto simp: stake_wf_def stake_total_def i128_range_def)
  have fits: "mature_fits (now env) info" using mature_fits_wf [OF wf act] .
  have m: "settled (matured (now env) info) + warming (matured (now env) info) = settled info + warming info"
    by (rule matured_active)
  have bps: "mul_bps_fits (stake_total info) SLASH_BPS"
    using tot assms(5) by (intro mul_bps_fits_dom) (simp_all add: SLASH_BPS_def)
  have none: "p_stake s key = None \<Longrightarrow> stake_total info = 0"
    using assms(4) by (simp add: stored_stake_def)
  have zero: "slash_amount 0 cap = 0" by (simp add: slash_amount_def)
  have key: "stake_key t w s = Ok key s" using assms(1,2) by (simp add: stake_key_run)
  have read: "stake_info_for_token env t w s = Ok (matured (now env) info) s"
    using assms(1,2,4) fits by (simp add: stake_info_for_token_run Let_def)
  have tt: "settled info + warming info + unbonding info = stake_total info"
    by (simp add: stake_total_def)
  define a where "a = min (min (mul_bps_val (stake_total info) SLASH_BPS) cap) (stake_total info)"
  have sa: "slash_amount (stake_total info) cap = max 0 a" by (simp add: slash_amount_def a_def)
  let ?put = "put_stake env key (slash_buckets (matured (now env) info) a) s"
  have put: "?put = Ok () (s\<lparr>p_stake := (p_stake s)(key \<mapsto> slash_buckets (matured (now env) info) a),
      ttl_log := ttl_log s @ [(now env, TtlKey key, PERSISTENT_TTL_THRESHOLD, PERSISTENT_TTL_EXTEND_TO)]\<rparr>)"
    by (simp add: put_stake_def set_persistent_def ttl_defs extend_ttl_def modify_def seq_do_def
        and_then_def ret_def)
  have run: "slash env t w cap s = (if p_stake s key = None \<or> stake_total info \<le> 0 \<or> a \<le> 0 then Ok 0 s
       else (case ?put of Ok x u \<Rightarrow> Ok a u | Fail e u \<Rightarrow> Fail e u | Trap \<Rightarrow> Trap))"
    by (simp add: slash_def and_then_def attempt_def key gets_def ret_def or_default_def read chk_def
        m act matured_same tt assms(5) mul_bps_run bps a_def [symmetric] Let_def seq_do_def put)
  show ?thesis
  proof (cases "p_stake s key = None \<or> stake_total info \<le> 0 \<or> a \<le> 0")
    case True
    then have "slash_amount (stake_total info) cap = 0"
      using none zero tot by (auto simp: slash_amount_def a_def)
    with run True show ?thesis by (auto simp: slash_frame_def)
  next
    case False
    then have "slash_amount (stake_total info) cap = a" using sa by simp
    with run False put show ?thesis by (auto simp: slash_frame_def)
  qed
qed

end
