(* ===== verification/Accounts.thy ===== *)
theory Accounts
  imports Stake
begin

text \<open>
  Balances that are not a question's escrow: payers' prepaid balances (deposit, withdraw, and
  the top-up threshold they may watch), workers' owed earnings (credit, withdraw) and the lock a
  registered lending authority may put on them, and the permissionless TTL refresh of all three.
\<close>

section \<open>Prepaid balances\<close>

definition stored_i128 :: "('k \<rightharpoonup> i128) \<Rightarrow> 'k \<Rightarrow> i128" where
  "stored_i128 m k = (case m k of None \<Rightarrow> 0 | Some v \<Rightarrow> v)"

definition put_balance :: "'w env \<Rightarrow> data_key \<Rightarrow> i128 \<Rightarrow> ('w, unit) call" where
  "put_balance env key v = set_persistent env key (\<lambda>s. s\<lparr>p_balance := (p_balance s)(key \<mapsto> v)\<rparr>)"

definition put_owed :: "'w env \<Rightarrow> data_key \<Rightarrow> i128 \<Rightarrow> ('w, unit) call" where
  "put_owed env key v = set_persistent env key (\<lambda>s. s\<lparr>p_owed := (p_owed s)(key \<mapsto> v)\<rparr>)"

definition deposit :: "'w env \<Rightarrow> address \<Rightarrow> i128 \<Rightarrow> ('w, unit) call" where
  "deposit env payer amount = block [
     require_not_paused,
     require_auth env payer,
     ensure (0 < amount) InvalidAmount,
     and_then get_token_cfg (\<lambda>token_addr. block [
       transfer env token_addr payer (self env) amount,
       and_then (gets (\<lambda>s. stored_i128 (p_balance s) (KBalance payer))) (\<lambda>existing.
       and_then (ok_or (checked_add existing amount) ArithmeticOverflow) (\<lambda>updated. block [
         put_balance env (KBalance payer) updated,
         track_participant env payer,
         bump_instance env,
         publish (AccountEv (PrepaidBalanceChanged payer token_addr amount updated))]))])]"

definition deposit_asset :: "'w env \<Rightarrow> address \<Rightarrow> address \<Rightarrow> i128 \<Rightarrow> ('w, unit) call" where
  "deposit_asset env payer token amount = block [
     require_not_paused,
     require_auth env payer,
     ensure (0 < amount) InvalidAmount,
     require_allowed_token token,
     transfer env token payer (self env) amount,
     and_then (balance_key token payer) (\<lambda>key.
     and_then (gets (\<lambda>s. stored_i128 (p_balance s) key)) (\<lambda>existing.
     and_then (ok_or (checked_add existing amount) ArithmeticOverflow) (\<lambda>updated. block [
       put_balance env key updated,
       bump_instance env,
       publish (AccountEv (PrepaidBalanceChanged payer token amount updated))])))]"

definition withdraw_balance :: "'w env \<Rightarrow> address \<Rightarrow> i128 \<Rightarrow> ('w, unit) call" where
  "withdraw_balance env payer amount = block [
     require_auth env payer,
     ensure (0 < amount) InvalidAmount,
     and_then (gets (\<lambda>s. stored_i128 (p_balance s) (KBalance payer))) (\<lambda>existing. block [
       ensure (amount \<le> existing) InsufficientBalance,
       and_then get_token_cfg (\<lambda>token_addr. block [
         transfer env token_addr (self env) payer amount,
         put_balance env (KBalance payer) (existing - amount),
         bump_instance env,
         publish (AccountEv
           (PrepaidBalanceChanged payer token_addr (- amount) (existing - amount)))])])]"

definition withdraw_balance_asset :: "'w env \<Rightarrow> address \<Rightarrow> address \<Rightarrow> i128 \<Rightarrow> ('w, unit) call" where
  "withdraw_balance_asset env payer token amount = block [
     require_auth env payer,
     ensure (0 < amount) InvalidAmount,
     and_then (balance_key token payer) (\<lambda>key.
     and_then (gets (\<lambda>s. stored_i128 (p_balance s) key)) (\<lambda>existing. block [
       ensure (amount \<le> existing) InsufficientBalance,
       transfer env token (self env) payer amount,
       put_balance env key (existing - amount),
       bump_instance env,
       publish (AccountEv (PrepaidBalanceChanged payer token (- amount) (existing - amount)))]))]"

definition get_balance :: "address \<Rightarrow> 'w world \<Rightarrow> i128" where
  "get_balance payer s = stored_i128 (p_balance s) (KBalance payer)"

definition get_balance_asset :: "address \<Rightarrow> address \<Rightarrow> 'w world \<Rightarrow> i128" where
  "get_balance_asset payer token s =
     (case balance_key token payer s of
        Ok key s' \<Rightarrow> stored_i128 (p_balance s) key
      | Fail e s' \<Rightarrow> 0
      | Trap \<Rightarrow> 0)"

section \<open>Top-up threshold\<close>

definition set_top_up_threshold :: "'w env \<Rightarrow> address \<Rightarrow> i128 \<Rightarrow> ('w, unit) call" where
  "set_top_up_threshold env payer threshold = block [
     require_auth env payer,
     ensure (0 \<le> threshold) InvalidAmount,
     modify (\<lambda>s. s\<lparr>p_top_up := (p_top_up s)(payer \<mapsto> threshold)\<rparr>),
     extend_persistent env (KTopUpThreshold payer),
     bump_instance env]"

definition get_top_up_threshold :: "address \<Rightarrow> 'w world \<Rightarrow> i128" where
  "get_top_up_threshold payer s = stored_i128 (p_top_up s) payer"

definition check_top_up_threshold :: "address \<Rightarrow> ('w, bool) call" where
  "check_top_up_threshold payer =
     and_then (gets (\<lambda>s. stored_i128 (p_top_up s) payer)) (\<lambda>threshold.
       if threshold \<le> 0 then ret False
       else
         and_then (gets (\<lambda>s. stored_i128 (p_balance s) (KBalance payer))) (\<lambda>balance.
           if threshold < balance then ret False
           else seq_do (publish (FeatureEv (TopUpNeeded payer balance threshold))) (ret True)))"

section \<open>Owed earnings\<close>

text \<open>
  \<open>credit_owed\<close> ends by entering the worker into the participant index, on the default token
  only. The token is read again there and an absent one skips the step.
\<close>

definition credit_owed :: "'w env \<Rightarrow> address \<Rightarrow> address \<Rightarrow> i128 \<Rightarrow> ('w, unit) call" where
  "credit_owed env token worker amount =
     and_then (owed_key token worker) (\<lambda>key.
     and_then (gets (\<lambda>s. stored_i128 (p_owed s) key)) (\<lambda>existing.
     and_then (ok_or (checked_add existing amount) ArithmeticOverflow) (\<lambda>updated. block [
       put_owed env key updated,
       and_then (gets i_token) (\<lambda>default_token.
         if default_token = Some token then track_participant env worker else ret ())])))"

definition do_withdraw_for_token ::
    "'w env \<Rightarrow> address \<Rightarrow> address \<Rightarrow> address \<Rightarrow> i128 \<Rightarrow> ('w, i128) call" where
  "do_withdraw_for_token env worker recipient token amount =
     seq_do (ensure (0 < amount) InvalidAmount)
     (and_then (owed_key token worker) (\<lambda>key.
      and_then (gets (\<lambda>s. stored_i128 (p_owed s) key)) (\<lambda>owed.
      seq_do (ensure (0 < owed) NothingOwed)
     (and_then (gets (\<lambda>s. stored_i128 (p_owed_lock s) worker)) (\<lambda>locked.
      and_then (chk (owed - locked)) (\<lambda>free.
      seq_do (block [
        ensure (amount \<le> free) InsufficientOwed,
        transfer env token (self env) recipient amount,
        and_then (chk (owed - amount)) (put_owed env key),
        bump_instance env,
        publish (AccountEv (WorkerPaid worker recipient token amount))])
      (ret amount)))))))"

definition do_withdraw :: "'w env \<Rightarrow> address \<Rightarrow> address \<Rightarrow> i128 \<Rightarrow> ('w, i128) call" where
  "do_withdraw env worker recipient amount =
     and_then get_token_cfg (\<lambda>token. do_withdraw_for_token env worker recipient token amount)"

definition withdraw :: "'w env \<Rightarrow> address \<Rightarrow> i128 \<Rightarrow> ('w, i128) call" where
  "withdraw env worker amount =
     seq_do (require_auth env worker) (do_withdraw env worker worker amount)"

definition withdraw_asset :: "'w env \<Rightarrow> address \<Rightarrow> address \<Rightarrow> i128 \<Rightarrow> ('w, i128) call" where
  "withdraw_asset env worker token amount =
     seq_do (require_auth env worker) (do_withdraw_for_token env worker worker token amount)"

definition withdraw_to :: "'w env \<Rightarrow> address \<Rightarrow> address \<Rightarrow> i128 \<Rightarrow> ('w, i128) call" where
  "withdraw_to env worker beneficiary amount =
     seq_do (require_auth env worker) (do_withdraw env worker beneficiary amount)"

definition withdraw_to_asset ::
    "'w env \<Rightarrow> address \<Rightarrow> address \<Rightarrow> address \<Rightarrow> i128 \<Rightarrow> ('w, i128) call" where
  "withdraw_to_asset env worker beneficiary token amount =
     seq_do (require_auth env worker) (do_withdraw_for_token env worker beneficiary token amount)"

definition get_owed :: "address \<Rightarrow> 'w world \<Rightarrow> i128" where
  "get_owed worker s = stored_i128 (p_owed s) (KOwed worker)"

definition get_owed_asset :: "address \<Rightarrow> address \<Rightarrow> 'w world \<Rightarrow> i128" where
  "get_owed_asset worker token s =
     (case owed_key token worker s of
        Ok key s' \<Rightarrow> stored_i128 (p_owed s) key
      | Fail e s' \<Rightarrow> 0
      | Trap \<Rightarrow> 0)"

section \<open>Owed earnings as collateral\<close>

definition get_locked_owed :: "address \<Rightarrow> 'w world \<Rightarrow> i128" where
  "get_locked_owed worker s = stored_i128 (p_owed_lock s) worker"

definition put_owed_lock :: "'w env \<Rightarrow> address \<Rightarrow> i128 \<Rightarrow> ('w, unit) call" where
  "put_owed_lock env worker v =
     set_persistent env (KOwedLock worker) (\<lambda>s. s\<lparr>p_owed_lock := (p_owed_lock s)(worker \<mapsto> v)\<rparr>)"

definition set_lending_authority :: "'w env \<Rightarrow> address \<Rightarrow> ('w, unit) call" where
  "set_lending_authority env authority = block [
     require_admin env,
     modify (\<lambda>s. s\<lparr>i_lending_authority := Some authority\<rparr>),
     bump_instance env]"

definition lock_owed :: "'w env \<Rightarrow> address \<Rightarrow> address \<Rightarrow> i128 \<Rightarrow> ('w, unit) call" where
  "lock_owed env authority worker amount = block [
     require_lending_authority env authority,
     ensure (0 < amount) InvalidAmount,
     and_then (gets (\<lambda>s. stored_i128 (p_owed s) (KOwed worker))) (\<lambda>owed.
     and_then (gets (get_locked_owed worker)) (\<lambda>locked.
     and_then (chk (owed - locked)) (\<lambda>free. block [
       ensure (amount \<le> free) LockExceedsOwed,
       and_then (chk (locked + amount)) (\<lambda>total_locked. block [
         put_owed_lock env worker total_locked,
         bump_instance env,
         publish (FeatureEv (OwedLocked worker amount total_locked))])])))]"

definition release_owed :: "'w env \<Rightarrow> address \<Rightarrow> address \<Rightarrow> i128 \<Rightarrow> ('w, unit) call" where
  "release_owed env authority worker amount = block [
     require_lending_authority env authority,
     ensure (0 < amount) InvalidAmount,
     and_then (gets (get_locked_owed worker)) (\<lambda>locked. block [
       ensure (amount \<le> locked) NoLockToRelease,
       and_then (chk (locked - amount)) (\<lambda>total_locked. block [
         put_owed_lock env worker total_locked,
         bump_instance env,
         publish (FeatureEv (OwedReleased worker amount total_locked))])])]"

section \<open>Keeping entries alive\<close>

definition touch_key :: "'w env \<Rightarrow> data_key \<Rightarrow> ('w world \<Rightarrow> bool) \<Rightarrow> ('w, unit) call" where
  "touch_key env key has =
     and_then (gets has) (\<lambda>h. if h then extend_persistent env key else ret ())"

definition touch :: "'w env \<Rightarrow> address \<Rightarrow> ('w, unit) call" where
  "touch env account = block [
     touch_key env (KOwed account) (\<lambda>s. p_owed s (KOwed account) \<noteq> None),
     touch_key env (KStake account) (\<lambda>s. p_stake s (KStake account) \<noteq> None),
     touch_key env (KBalance account) (\<lambda>s. p_balance s (KBalance account) \<noteq> None),
     bump_instance env]"

definition touch_asset :: "'w env \<Rightarrow> address \<Rightarrow> address \<Rightarrow> ('w, unit) call" where
  "touch_asset env account token = block [
     and_then (attempt (owed_key token account)) (\<lambda>r. case r of
         Inl e \<Rightarrow> ret () | Inr key \<Rightarrow> touch_key env key (\<lambda>s. p_owed s key \<noteq> None)),
     and_then (attempt (balance_key token account)) (\<lambda>r. case r of
         Inl e \<Rightarrow> ret () | Inr key \<Rightarrow> touch_key env key (\<lambda>s. p_balance s key \<noteq> None)),
     and_then (attempt (stake_key token account)) (\<lambda>r. case r of
         Inl e \<Rightarrow> ret () | Inr key \<Rightarrow> touch_key env key (\<lambda>s. p_stake s key \<noteq> None)),
     bump_instance env]"

end
