(* ===== verification/Questions.thy ===== *)
theory Questions
  imports Accounts
begin

text \<open>
  A question's life outside settlement: how it is opened (submit, charge and their variants), how
  it leaves Pending (\<open>settle_question\<close>), how it is refunded by the admin, by anyone after its
  deadline or in a sweep, and how a refunded one is reopened.
\<close>

section \<open>Storing questions\<close>

definition put_question :: "u64 \<Rightarrow> question \<Rightarrow> ('w, unit) call" where
  "put_question question_id q = modify (\<lambda>s. s\<lparr>p_question := (p_question s)(question_id \<mapsto> q)\<rparr>)"

definition bump_opened :: "('w, unit) call" where
  "bump_opened = block [
     modify (\<lambda>s. s\<lparr>i_open_count := bump_counter (i_open_count s)\<rparr>),
     modify (\<lambda>s. s\<lparr>i_total_opened := bump_counter (i_total_opened s)\<rparr>)]"

definition record_question :: "'w env \<Rightarrow> u64 \<Rightarrow> address \<Rightarrow> question \<Rightarrow> ('w, unit) call" where
  "record_question env question_id token question =
     and_then (gets (\<lambda>s. p_question s question_id)) (\<lambda>existing. block [
       ensure (existing = None) QuestionAlreadyExists,
       put_question question_id question,
       extend_question_ttl env (KQuestion question_id) question,
       modify (\<lambda>s. s\<lparr>p_question_token := (p_question_token s)(question_id \<mapsto> token)\<rparr>),
       extend_asset_ttl env (KQuestionToken question_id),
       index_add env question_id,
       bump_opened,
       bump_instance env,
       publish (QuestionEv (QuestionOpened question_id (q_payer question) token (q_amount question)
         (q_created_at question) (q_timeout_ledgers question)))])"

definition put_schema_hash :: "u64 \<Rightarrow> bytes option \<Rightarrow> ('w, unit) call" where
  "put_schema_hash question_id schema_hash =
     (case schema_hash of
        None \<Rightarrow> ret ()
      | Some hash \<Rightarrow> modify (\<lambda>s. s\<lparr>p_schema_hash := (p_schema_hash s)(question_id \<mapsto> hash)\<rparr>))"

definition count_category :: "symbol option \<Rightarrow> ('w, unit) call" where
  "count_category category =
     (case category of
        None \<Rightarrow> ret ()
      | Some cat \<Rightarrow> modify (\<lambda>s. s\<lparr>p_category :=
          (p_category s)(cat \<mapsto> saturating_add (counter (p_category s cat)) 1)\<rparr>))"

definition open_question :: "'w env \<Rightarrow> address \<Rightarrow> u64 \<Rightarrow> i128 \<Rightarrow> address \<Rightarrow> bytes option
    \<Rightarrow> symbol option \<Rightarrow> ('w, unit) call" where
  "open_question env payer question_id amount token schema_hash category =
     and_then (gets i_timeout_ledgers) (\<lambda>t.
     and_then (ok_or t NotInitialized) (\<lambda>timeout_ledgers. block [
       record_question env question_id token
         \<lparr>q_payer = payer, q_amount = amount, q_status = Pending, q_created_at = now env,
          q_timeout_ledgers = timeout_ledgers, q_token = token\<rparr>,
       put_schema_hash question_id schema_hash,
       count_category category]))"

section \<open>Opening a question\<close>

definition submit :: "'w env \<Rightarrow> address \<Rightarrow> u64 \<Rightarrow> i128 \<Rightarrow> ('w, unit) call" where
  "submit env payer question_id amount = block [
     require_not_paused,
     require_auth env payer,
     ensure (0 < amount) InvalidAmount,
     and_then get_token_cfg (\<lambda>token_addr. block [
       transfer env token_addr payer (self env) amount,
       open_question env payer question_id amount token_addr None None])]"

definition submit_with_schema_hash ::
    "'w env \<Rightarrow> address \<Rightarrow> u64 \<Rightarrow> i128 \<Rightarrow> bytes \<Rightarrow> ('w, unit) call" where
  "submit_with_schema_hash env payer question_id amount schema_hash = block [
     require_not_paused,
     require_auth env payer,
     ensure (0 < amount) InvalidAmount,
     and_then get_token_cfg (\<lambda>token_addr. block [
       transfer env token_addr payer (self env) amount,
       open_question env payer question_id amount token_addr (Some schema_hash) None])]"

definition submit_with_category ::
    "'w env \<Rightarrow> address \<Rightarrow> u64 \<Rightarrow> i128 \<Rightarrow> symbol \<Rightarrow> ('w, unit) call" where
  "submit_with_category env payer question_id amount category = block [
     require_not_paused,
     require_auth env payer,
     ensure (0 < amount) InvalidAmount,
     and_then get_token_cfg (\<lambda>token_addr. block [
       transfer env token_addr payer (self env) amount,
       open_question env payer question_id amount token_addr None (Some category)])]"

definition submit_asset ::
    "'w env \<Rightarrow> address \<Rightarrow> address \<Rightarrow> u64 \<Rightarrow> i128 \<Rightarrow> ('w, unit) call" where
  "submit_asset env payer token question_id amount = block [
     require_not_paused,
     require_auth env payer,
     ensure (0 < amount) InvalidAmount,
     require_allowed_token token,
     transfer env token payer (self env) amount,
     open_question env payer question_id amount token None None]"

definition charge_for_token ::
    "'w env \<Rightarrow> address \<Rightarrow> u64 \<Rightarrow> i128 \<Rightarrow> address \<Rightarrow> ('w, unit) call" where
  "charge_for_token env payer question_id amount token = block [
     require_not_paused,
     ensure (0 < amount) InvalidAmount,
     and_then (balance_key token payer) (\<lambda>key.
     and_then (gets (\<lambda>s. stored_i128 (p_balance s) key)) (\<lambda>existing. block [
       ensure (amount \<le> existing) InsufficientBalance,
       put_balance env key (existing - amount),
       open_question env payer question_id amount token None None]))]"

definition charge :: "'w env \<Rightarrow> address \<Rightarrow> u64 \<Rightarrow> i128 \<Rightarrow> ('w, unit) call" where
  "charge env payer question_id amount = block [
     require_admin env,
     and_then get_token_cfg (\<lambda>token. charge_for_token env payer question_id amount token)]"

definition charge_asset :: "'w env \<Rightarrow> address \<Rightarrow> address \<Rightarrow> u64 \<Rightarrow> i128 \<Rightarrow> ('w, unit) call" where
  "charge_asset env payer token question_id amount = block [
     require_admin env,
     require_allowed_token token,
     charge_for_token env payer question_id amount token]"

section \<open>Leaving Pending\<close>

definition count_settled :: "status \<Rightarrow> 'w world \<Rightarrow> 'w world" where
  "count_settled st s = (case st of
      Resolved \<Rightarrow> s\<lparr>i_total_resolved := bump_counter (i_total_resolved s)\<rparr>
    | Refunded \<Rightarrow> s\<lparr>i_total_refunded := bump_counter (i_total_refunded s)\<rparr>
    | _ \<Rightarrow> s)"

definition settle_question :: "'w env \<Rightarrow> u64 \<Rightarrow> question \<Rightarrow> status \<Rightarrow> ('w, unit) call" where
  "settle_question env question_id question st = block [
     set_persistent env (KQuestion question_id)
       (\<lambda>s. s\<lparr>p_question := (p_question s)(question_id \<mapsto> question\<lparr>q_status := st\<rparr>)\<rparr>),
     index_remove env question_id,
     modify (\<lambda>s. s\<lparr>i_open_count := drop_counter (i_open_count s)\<rparr>),
     modify (count_settled st),
     bump_instance env,
     publish (QuestionEv (QuestionSettled question_id st))]"

definition store_question :: "'w env \<Rightarrow> u64 \<Rightarrow> question \<Rightarrow> ('w, unit) call" where
  "store_question env question_id question = block [
     put_question question_id question,
     extend_question_ttl env (KQuestion question_id) question]"

section \<open>Refunds\<close>

text \<open>A basket is paid out leg by leg; any other question is one leg in its own token.\<close>

definition question_legs :: "u64 \<Rightarrow> i128 \<Rightarrow> ('w, (address \<times> i128) list) call" where
  "question_legs question_id amount =
     and_then (gets (\<lambda>s. p_basket s question_id)) (\<lambda>basket.
       case basket of
         Some legs \<Rightarrow> ret legs
       | None \<Rightarrow> and_then (question_token question_id) (\<lambda>token. ret [(token, amount)]))"

definition refund_leg :: "'w env \<Rightarrow> u64 \<Rightarrow> address \<Rightarrow> bool \<Rightarrow> address \<times> i128 \<Rightarrow> ('w, unit) call" where
  "refund_leg env question_id payer is_basket leg =
     (case leg of (token, amount) \<Rightarrow> block [
        transfer env token (self env) payer amount,
        (if is_basket
         then publish (QuestionEv (BasketLegSettled question_id token amount 0 0))
         else ret ())])"

definition do_refund :: "'w env \<Rightarrow> u64 \<Rightarrow> bool \<Rightarrow> ('w, unit) call" where
  "do_refund env question_id via_timeout =
     and_then (load_question question_id) (\<lambda>question. block [
       ensure (q_status question = Pending) QuestionNotPending,
       and_then (gets (\<lambda>s. p_basket s question_id)) (\<lambda>basket.
       and_then (question_legs question_id (q_amount question)) (\<lambda>legs.
         for_each legs (refund_leg env question_id (q_payer question) (basket \<noteq> None)))),
       settle_question env question_id question Refunded,
       publish (QuestionEv
         (QuestionRefunded question_id (q_payer question) (q_amount question) via_timeout))])"

definition refund :: "'w env \<Rightarrow> u64 \<Rightarrow> ('w, unit) call" where
  "refund env question_id = block [require_admin env, do_refund env question_id False]"

definition refund_deadline :: "question \<Rightarrow> u32" where
  "refund_deadline q = saturating_add (q_created_at q) (q_timeout_ledgers q)"

definition try_refund_timeout :: "'w env \<Rightarrow> u64 \<Rightarrow> ('w, unit) call" where
  "try_refund_timeout env question_id =
     and_then (load_question question_id) (\<lambda>question. block [
       ensure (q_status question = Pending) QuestionNotPending,
       ensure (refund_deadline question \<le> now env) TooEarlyForTimeout,
       do_refund env question_id True])"

definition refund_timeout :: "'w env \<Rightarrow> u64 \<Rightarrow> ('w, unit) call" where
  "refund_timeout env question_id = try_refund_timeout env question_id"

fun sweep_timeouts :: "'w env \<Rightarrow> u64 list \<Rightarrow> ('w, (contract_error + unit) list) call" where
  "sweep_timeouts env [] = ret []"
| "sweep_timeouts env (question_id # ids) =
     and_then (attempt (try_refund_timeout env question_id)) (\<lambda>r.
     and_then (sweep_timeouts env ids) (\<lambda>results. ret (r # results)))"

section \<open>Reopening a refunded question\<close>

definition reopen_question :: "'w env \<Rightarrow> address \<Rightarrow> u64 \<Rightarrow> i128 \<Rightarrow> ('w, unit) call" where
  "reopen_question env payer question_id amount = block [
     require_not_paused,
     require_auth env payer,
     ensure (0 < amount) InvalidAmount,
     and_then (load_question question_id) (\<lambda>existing. block [
       ensure (q_status existing = Refunded) QuestionNotRefunded,
       ensure (q_payer existing = payer) QuestionNotRefunded,
       reject_basket question_id,
       transfer env (q_token existing) payer (self env) amount,
       store_question env question_id
         \<lparr>q_payer = payer, q_amount = amount, q_status = Pending, q_created_at = now env,
          q_timeout_ledgers = q_timeout_ledgers existing, q_token = q_token existing\<rparr>,
       index_add env question_id,
       bump_opened,
       bump_instance env,
       publish (FeatureEv (QuestionReopened question_id payer amount (now env)
         (q_timeout_ledgers existing)))])]"

section \<open>Keeping a question alive, and reading it\<close>

definition touch_question :: "'w env \<Rightarrow> u64 \<Rightarrow> ('w, unit) call" where
  "touch_question env question_id =
     and_then (load_question question_id) (\<lambda>question. block [
       extend_question_ttl env (KQuestion question_id) question,
       touch_key env (KQuestionToken question_id) (\<lambda>s. p_question_token s question_id \<noteq> None),
       touch_key env (KQuestionBasket question_id) (\<lambda>s. p_basket s question_id \<noteq> None),
       (if open_status (q_status question) then
          and_then (gets (\<lambda>s. p_pending_pos s question_id)) (\<lambda>found.
            case found of
              None \<Rightarrow> ret ()
            | Some pos \<Rightarrow> block [
                extend_persistent env (KPendingPos question_id),
                extend_persistent env (KPendingAt pos),
                extend_persistent env KPendingCount])
        else ret ()),
       bump_instance env])"

definition get_question :: "u64 \<Rightarrow> ('w, question) call" where
  "get_question question_id = load_question question_id"

definition get_questions :: "u64 list \<Rightarrow> 'w world \<Rightarrow> question option list" where
  "get_questions question_ids s = map (p_question s) question_ids"

definition get_category_count :: "symbol \<Rightarrow> 'w world \<Rightarrow> u32" where
  "get_category_count category s = counter (p_category s category)"

end
