(* ===== verification/Settlement.thy ===== *)
theory Settlement
  imports Questions
begin

text \<open>
  Resolution: the checks on the worker lists, the fee and pool split, the slashes and their
  redistribution, the credits, the platform's take, the leaderboard, and the entry points
  \<open>resolve\<close>, \<open>resolve_by_consensus\<close> and \<open>preview_resolve\<close>.

  Two functions of the source lost their shape in a merge and are read as the surrounding code
  uses them. The header of \<open>settle_asset\<close> is followed by \<open>route_platform_take\<close>, and its body
  stands under a second header of \<open>settle_resolution\<close> with \<open>settle_asset\<close>'s parameters; in that
  body \<open>question_token\<close> is the leg's token. The body's own copy of the routing code is the same
  text as \<open>route_platform_take\<close>.
\<close>

section \<open>Worker lists and quorum bounds\<close>

text \<open>No address twice in \<open>workers\<close>, none of them in \<open>losing_workers\<close>.\<close>

fun first_list_valid :: "address list \<Rightarrow> address list \<Rightarrow> bool" where
  "first_list_valid [] others = True"
| "first_list_valid (a # rest) others = (a \<notin> set rest \<and> a \<notin> set others \<and> first_list_valid rest others)"

definition validate_worker_lists :: "address list \<Rightarrow> address list \<Rightarrow> ('w, unit) call" where
  "validate_worker_lists workers losing_workers =
     ensure (first_list_valid workers losing_workers \<and> first_list_valid losing_workers [])
       InvalidWorkerLists"

definition get_quorum_bounds :: "'w world \<Rightarrow> u32 \<times> u32" where
  "get_quorum_bounds s =
     ((case i_min_quorum s of None \<Rightarrow> 0 | Some n \<Rightarrow> n),
      (case i_max_quorum s of None \<Rightarrow> u32_max | Some n \<Rightarrow> n))"

definition set_quorum_bounds :: "'w env \<Rightarrow> u32 \<Rightarrow> u32 \<Rightarrow> ('w, unit) call" where
  "set_quorum_bounds env min_q max_q = block [
     require_admin env,
     ensure (min_q \<le> max_q) InvalidAmount,
     modify (\<lambda>s. s\<lparr>i_min_quorum := Some min_q\<rparr>),
     modify (\<lambda>s. s\<lparr>i_max_quorum := Some max_q\<rparr>),
     bump_instance env]"

definition check_quorum_bounds :: "u32 \<Rightarrow> ('w, unit) call" where
  "check_quorum_bounds quorum_size =
     and_then (gets get_quorum_bounds) (\<lambda>(min_q, max_q).
       ensure (min_q \<le> quorum_size \<and> quorum_size \<le> max_q) QuorumOutOfBounds)"

text \<open>The guards every settlement path starts with; \<open>escalate\<close> skips the configured bounds.\<close>

definition quorum_size :: "address list \<Rightarrow> address list \<Rightarrow> u32" where
  "quorum_size workers losing_workers = saturating_add (length workers) (length losing_workers)"

definition check_lists :: "address list \<Rightarrow> address list \<Rightarrow> ('w, unit) call" where
  "check_lists workers losing_workers = block [
     ensure (workers \<noteq> []) NoWorkers,
     ensure (quorum_size workers losing_workers \<le> MAX_QUORUM_SIZE) QuorumTooLarge,
     check_quorum_bounds (quorum_size workers losing_workers),
     validate_worker_lists workers losing_workers]"

section \<open>The money split\<close>

text \<open>\<open>(fee, share, dust)\<close>: every intermediate result is an \<open>i128\<close> of the source.\<close>

definition split_amount :: "i128 \<Rightarrow> i128 \<Rightarrow> ('e, 's, i128 \<times> i128 \<times> i128) prog" where
  "split_amount amount n =
     and_then (mul_bps amount PLATFORM_FEE_BPS) (\<lambda>fee.
     and_then (chk (amount - fee)) (\<lambda>pool.
     seq_do (trap_unless (n \<noteq> 0))
     (let share = pool sdiv n in
      and_then (chk (share * n)) (\<lambda>shared.
      and_then (chk (pool - shared)) (\<lambda>dust.
        ret (fee, share, dust))))))"

text \<open>One iteration of \<open>distribute_slashes\<close>, over (platform_take, redist_per_worker, total).\<close>

definition slash_loser :: "'w env \<Rightarrow> u64 \<Rightarrow> address \<Rightarrow> i128 \<Rightarrow> i128 \<Rightarrow> address
    \<Rightarrow> i128 \<times> i128 \<times> i128 \<Rightarrow> ('w, i128 \<times> i128 \<times> i128) call" where
  "slash_loser env question_id token slash_cap n loser acc =
     (case acc of (platform_take, redist_per_worker, total_slashed) \<Rightarrow>
        and_then (slash env token loser slash_cap) (\<lambda>slashed.
          if 0 < slashed then
            and_then (mul_bps slashed SLASH_REDISTRIBUTE_BPS) (\<lambda>worker_portion.
            let platform_portion = slashed - worker_portion;
                redist_share = worker_portion sdiv n;
                redist_dust = worker_portion - redist_share * n
            in and_then (ok_or (checked_add redist_per_worker redist_share) ArithmeticOverflow) (\<lambda>redist'.
               and_then (ok_or (checked_add platform_take platform_portion) ArithmeticOverflow) (\<lambda>take1.
               and_then (ok_or (checked_add take1 redist_dust) ArithmeticOverflow) (\<lambda>take2.
               and_then (ok_or (checked_add total_slashed slashed) ArithmeticOverflow) (\<lambda>total'.
               seq_do (publish (QuestionEv (WorkerSlashed question_id loser slashed)))
                 (ret (take2, redist', total')))))))
          else ret (platform_take, redist_per_worker, total_slashed)))"

definition distribute_slashes :: "'w env \<Rightarrow> u64 \<Rightarrow> address \<Rightarrow> address list \<Rightarrow> i128 \<Rightarrow> i128
    \<Rightarrow> ('w, i128 \<times> i128 \<times> i128) call" where
  "distribute_slashes env question_id token losing_workers slash_cap n =
     fold_prog (slash_loser env question_id token slash_cap n) losing_workers (0, 0, 0)"

definition credit_worker :: "'w env \<Rightarrow> u64 \<Rightarrow> address \<Rightarrow> i128 \<Rightarrow> address \<Rightarrow> ('w, unit) call" where
  "credit_worker env question_id token worker_credit worker = block [
     credit_owed env token worker worker_credit,
     publish (QuestionEv (WorkerCredited question_id worker worker_credit))]"

definition transfer_if_positive :: "'w env \<Rightarrow> address \<Rightarrow> address \<Rightarrow> i128 \<Rightarrow> ('w, unit) call" where
  "transfer_if_positive env token r amount =
     (if 0 < amount then transfer env token (self env) r amount else ret ())"

definition route_platform_take :: "'w env \<Rightarrow> address \<Rightarrow> address \<Rightarrow> i128 \<Rightarrow> ('w, unit) call" where
  "route_platform_take env token platform platform_take =
     (if 0 < platform_take then
        and_then (gets (\<lambda>s. counter (i_pg_bps s))) (\<lambda>public_goods_bps.
        and_then (gets i_pg_address) (\<lambda>maybe_pg_addr.
          if 0 < public_goods_bps then
            (case maybe_pg_addr of
               Some pg_addr \<Rightarrow>
                 and_then (mul_bps platform_take (int public_goods_bps)) (\<lambda>public_goods_share. block [
                   transfer_if_positive env token pg_addr public_goods_share,
                   transfer_if_positive env token platform (platform_take - public_goods_share)])
             | None \<Rightarrow> transfer env token (self env) platform platform_take)
          else transfer env token (self env) platform platform_take))
      else ret ())"

text \<open>
  The statements that \<open>settle_asset\<close>, \<open>escalate_resolve\<close> and \<open>finalize_resolve\<close> repeat word for
  word: the split, the slashes and the two checked sums. Returns
  \<open>(fee, total_slashed, platform_take, worker_credit)\<close>.
\<close>

definition payout :: "'w env \<Rightarrow> u64 \<Rightarrow> address \<Rightarrow> i128 \<Rightarrow> i128 \<Rightarrow> address list
    \<Rightarrow> ('w, i128 \<times> i128 \<times> i128 \<times> i128) call" where
  "payout env question_id token amount n losing_workers =
     and_then (split_amount amount n) (\<lambda>(fee, share, dust).
     and_then (mul_bps amount SLASH_CAP_BPS_OF_AMOUNT) (\<lambda>slash_cap.
     and_then (distribute_slashes env question_id token losing_workers slash_cap n)
       (\<lambda>(slash_platform_take, slash_redist_per_worker, total_slashed).
     and_then (chk (fee + dust)) (\<lambda>fee_dust.
     and_then (ok_or (checked_add fee_dust slash_platform_take) ArithmeticOverflow) (\<lambda>platform_take.
     and_then (ok_or (checked_add share slash_redist_per_worker) ArithmeticOverflow) (\<lambda>worker_credit.
       ret (fee, total_slashed, platform_take, worker_credit)))))))"

text \<open>One asset leg; returns \<open>(fee, total_slashed)\<close>.\<close>

definition settle_asset :: "'w env \<Rightarrow> u64 \<Rightarrow> address \<Rightarrow> i128 \<Rightarrow> address list \<Rightarrow> address list
    \<Rightarrow> address \<Rightarrow> ('w, i128 \<times> i128) call" where
  "settle_asset env question_id token amount workers losing_workers platform =
     and_then (payout env question_id token amount (int (length workers)) losing_workers)
       (\<lambda>(fee, total_slashed, platform_take, worker_credit).
     seq_do (block [
       for_each workers (credit_worker env question_id token worker_credit),
       route_platform_take env token platform platform_take])
     (ret (fee, total_slashed)))"

section \<open>The leaderboard\<close>

fun lb_remove :: "address \<Rightarrow> (address \<times> u32) list \<Rightarrow> (address \<times> u32) list" where
  "lb_remove worker [] = []"
| "lb_remove worker (e # es) = (if fst e = worker then es else e # lb_remove worker es)"

fun lb_insert :: "address \<times> u32 \<Rightarrow> (address \<times> u32) list \<Rightarrow> (address \<times> u32) list" where
  "lb_insert e [] = [e]"
| "lb_insert e (x # xs) = (if snd x < snd e then e # x # xs else x # lb_insert e xs)"

definition lb_update :: "address \<Rightarrow> u32 \<Rightarrow> (address \<times> u32) list \<Rightarrow> (address \<times> u32) list" where
  "lb_update worker count entries =
     (let entries' = lb_insert (worker, count) (lb_remove worker entries)
      in if LEADERBOARD_CAP < length entries' then butlast entries' else entries')"

definition get_leaderboard :: "'w world \<Rightarrow> (address \<times> u32) list" where
  "get_leaderboard s = (case i_leaderboard s of None \<Rightarrow> [] | Some es \<Rightarrow> es)"

definition get_resolved_count :: "address \<Rightarrow> 'w world \<Rightarrow> u32" where
  "get_resolved_count worker s = counter (p_resolved_count s worker)"

definition update_leaderboard :: "'w env \<Rightarrow> address \<Rightarrow> u32 \<Rightarrow> ('w, unit) call" where
  "update_leaderboard env worker count = block [
     modify (\<lambda>s. s\<lparr>i_leaderboard := Some (lb_update worker count (get_leaderboard s))\<rparr>),
     bump_instance env]"

definition record_resolved_credit :: "'w env \<Rightarrow> address \<Rightarrow> ('w, unit) call" where
  "record_resolved_credit env worker =
     and_then (gets (get_resolved_count worker)) (\<lambda>old.
     and_then (chk_u32 (old + 1)) (\<lambda>count. block [
       set_persistent env (KResolvedCount worker)
         (\<lambda>s. s\<lparr>p_resolved_count := (p_resolved_count s)(worker \<mapsto> count)\<rparr>),
       update_leaderboard env worker count]))"

section \<open>Resolving\<close>

definition settle_leg :: "'w env \<Rightarrow> u64 \<Rightarrow> address list \<Rightarrow> address list \<Rightarrow> address \<Rightarrow> bool
    \<Rightarrow> address \<times> i128 \<Rightarrow> i128 \<times> i128 \<Rightarrow> ('w, i128 \<times> i128) call" where
  "settle_leg env question_id workers losing_workers platform is_basket leg acc =
     (case leg of (token, amount) \<Rightarrow>
        and_then (settle_asset env question_id token amount workers losing_workers platform)
          (\<lambda>(fee, total_slashed).
            if is_basket then
              seq_do (publish (QuestionEv
                (BasketLegSettled question_id token amount fee total_slashed))) (ret acc)
            else ret (fee, total_slashed)))"

definition notarize :: "u64 \<Rightarrow> bytes option \<Rightarrow> ('w, unit) call" where
  "notarize question_id answer_hash =
     (case answer_hash of
        None \<Rightarrow> ret ()
      | Some hash \<Rightarrow> publish (QuestionEv (QuestionNotarized question_id hash)))"

definition settle_resolution :: "'w env \<Rightarrow> u64 \<Rightarrow> address list \<Rightarrow> address list \<Rightarrow> bytes option
    \<Rightarrow> ('w, unit) call" where
  "settle_resolution env question_id workers losing_workers answer_hash = block [
     check_lists workers losing_workers,
     and_then (load_question question_id) (\<lambda>question. block [
       ensure (q_status question = Pending) QuestionNotPending,
       and_then (gets i_platform) (\<lambda>p.
       and_then (ok_or p NotInitialized) (\<lambda>platform.
       and_then (question_token question_id) (\<lambda>token.
       and_then (gets (\<lambda>s. p_basket s question_id)) (\<lambda>basket.
       let legs = (case basket of Some legs \<Rightarrow> legs | None \<Rightarrow> [(token, q_amount question)])
       in and_then (fold_prog
            (settle_leg env question_id workers losing_workers platform (basket \<noteq> None)) legs (0, 0))
            (\<lambda>(resolved_fee, resolved_slashed). block [
          for_each workers (record_resolved_credit env),
          settle_question env question_id question Resolved,
          notarize question_id answer_hash,
          publish (QuestionEv (QuestionResolved question_id (length workers) resolved_fee
            resolved_slashed 0))])))))])]"

definition resolve :: "'w env \<Rightarrow> u64 \<Rightarrow> address list \<Rightarrow> address list \<Rightarrow> bytes \<Rightarrow> ('w, unit) call" where
  "resolve env question_id workers losing_workers answer_hash = block [
     require_resolver_or_admin env,
     settle_resolution env question_id workers losing_workers (Some answer_hash)]"

section \<open>Resolving by consensus\<close>

text \<open>
  \<open>answers\<close> is not empty. \<open>mismatch_indices\<close> are the positions that disagree with the first.
\<close>

definition mismatch_indices :: "bytes list \<Rightarrow> nat list" where
  "mismatch_indices answers = filter (\<lambda>i. answers ! i \<noteq> answers ! 0) [1..<length answers]"

definition unanimous_dissenter :: "bytes list \<Rightarrow> contract_error + nat option" where
  "unanimous_dissenter answers =
     (let n = length answers; ms = mismatch_indices answers in
      if length ms = 0 then Inr None
      else if n < 3 then Inl NoUnanimousConsensus
      else if length ms = 1 then Inr (Some (last ms))
      else if length ms = n - 1 then
        (if \<forall>i\<in>set [2..<n]. answers ! i = answers ! 1 then Inr (Some 0)
         else Inl NoUnanimousConsensus)
      else Inl NoUnanimousConsensus)"

definition get_established_answer_count :: "'w world \<Rightarrow> u32" where
  "get_established_answer_count s =
     (case i_established s of None \<Rightarrow> DEFAULT_ESTABLISHED_ANSWER_COUNT | Some n \<Rightarrow> n)"

definition set_established_answer_count :: "'w env \<Rightarrow> u32 \<Rightarrow> ('w, unit) call" where
  "set_established_answer_count env count = block [
     require_admin env,
     modify (\<lambda>s. s\<lparr>i_established := Some count\<rparr>),
     bump_instance env]"

definition sort_answer :: "u64 \<Rightarrow> nat option \<Rightarrow> nat \<times> consensus_answer
    \<Rightarrow> address list \<times> address list \<Rightarrow> ('w, address list \<times> address list) call" where
  "sort_answer question_id dissenter ientry acc =
     (case ientry of (i, entry) \<Rightarrow> case acc of (workers, losing_workers) \<Rightarrow>
        let worker = consensus_worker entry in
        if Some i \<noteq> dissenter then ret (workers @ [worker], losing_workers)
        else
          and_then (gets (\<lambda>s. get_established_answer_count s \<le> get_resolved_count worker s)) (\<lambda>established.
          seq_do (publish (DisputeEv (UnanimousDissent question_id worker established)))
            (ret (workers, if established then losing_workers @ [worker] else losing_workers))))"

definition resolve_by_consensus :: "'w env \<Rightarrow> u64 \<Rightarrow> consensus_answer list \<Rightarrow> ('w, unit) call" where
  "resolve_by_consensus env question_id answers = block [
     require_admin env,
     ensure (answers \<noteq> []) EmptyAnswerSet,
     ensure (length answers \<le> MAX_QUORUM_SIZE) QuorumTooLarge,
     ensure (first_list_valid (map consensus_worker answers) []) DuplicateAnswerAddress,
     (case unanimous_dissenter (map consensus_hash answers) of
        Inl e \<Rightarrow> fail e
      | Inr dissenter \<Rightarrow>
          and_then (fold_prog (sort_answer question_id dissenter) (enumerate 0 answers) ([], []))
            (\<lambda>(workers, losing_workers).
               settle_resolution env question_id workers losing_workers None))]"

section \<open>Previewing a resolution\<close>

definition preview_slash :: "'w env \<Rightarrow> address \<Rightarrow> address \<Rightarrow> i128 \<Rightarrow> ('w, i128) call" where
  "preview_slash env token worker cap =
     and_then (attempt (stake_key token worker)) (\<lambda>r.
       case r of
         Inl e \<Rightarrow> ret 0
       | Inr key \<Rightarrow>
           and_then (gets (\<lambda>s. p_stake s key)) (\<lambda>found.
             if found = None then ret 0
             else
               and_then (or_default default_stake_info (stake_info_for_token env token worker)) (\<lambda>info.
               and_then (chk (settled info + warming info)) (\<lambda>active.
               and_then (chk (active + unbonding info)) (\<lambda>slashable.
                 if slashable \<le> 0 then ret 0
                 else
                   and_then (chk (slashable * SLASH_BPS)) (\<lambda>product.
                     ret (max (min (min (product sdiv BPS_DENOM) cap) slashable) 0)))))))"

definition preview_loser :: "'w env \<Rightarrow> address \<Rightarrow> i128 \<Rightarrow> address \<Rightarrow> i128 \<Rightarrow> ('w, i128) call" where
  "preview_loser env token cap loser tot =
     and_then (preview_slash env token loser cap) (\<lambda>slashed. chk (tot + slashed))"

definition preview_resolve :: "'w env \<Rightarrow> u64 \<Rightarrow> address list \<Rightarrow> address list
    \<Rightarrow> ('w, resolve_preview) call" where
  "preview_resolve env question_id workers losing_workers =
     seq_do (check_lists workers losing_workers)
     (and_then (load_question question_id) (\<lambda>question.
      seq_do (block [
        ensure (q_status question = Pending) QuestionNotPending,
        reject_basket question_id])
     (let amount = q_amount question; n = int (length workers) in
      and_then (chk (amount * PLATFORM_FEE_BPS)) (\<lambda>fee_product.
      let fee = fee_product sdiv BPS_DENOM in
      and_then (chk (amount - fee)) (\<lambda>pool.
      let share = pool sdiv n; dust = pool - share * n in
      and_then (chk (amount * SLASH_CAP_BPS_OF_AMOUNT)) (\<lambda>cap_product.
      let slash_cap = cap_product sdiv BPS_DENOM in
      and_then (question_token question_id) (\<lambda>token.
      and_then (fold_prog (preview_loser env token slash_cap) losing_workers 0) (\<lambda>total_slashed.
      and_then (mul_bps total_slashed SLASH_REDISTRIBUTE_BPS) (\<lambda>worker_portion.
      let platform_portion = total_slashed - worker_portion;
          redist_share = worker_portion sdiv n;
          redist_dust = worker_portion - redist_share * n in
      and_then (chk (share + redist_share)) (\<lambda>share_total.
      and_then (chk (fee + dust)) (\<lambda>fee_dust.
      and_then (chk (fee_dust + platform_portion)) (\<lambda>take1.
      and_then (chk (take1 + redist_dust)) (\<lambda>take2.
        ret \<lparr>preview_fee = fee, preview_dust = dust, preview_share_per_worker = share_total,
             preview_total_slashed = total_slashed, preview_platform_take = take2\<rparr>)))))))))))))"

section \<open>Reputation, and the median helper\<close>

definition get_reputation :: "address \<Rightarrow> 'w world \<Rightarrow> reputation_info" where
  "get_reputation worker s =
     (case p_reputation s worker of None \<Rightarrow> \<lparr>rep_matched = 0, rep_lost = 0\<rparr> | Some i \<Rightarrow> i)"

definition put_reputation :: "'w env \<Rightarrow> address \<Rightarrow> reputation_info \<Rightarrow> ('w, unit) call" where
  "put_reputation env worker info = block [
     set_persistent env (KReputation worker)
       (\<lambda>s. s\<lparr>p_reputation := (p_reputation s)(worker \<mapsto> info)\<rparr>),
     publish (DisputeEv (ReputationUpdated worker (rep_matched info) (rep_lost info)))]"

definition record_match :: "'w env \<Rightarrow> address \<Rightarrow> ('w, unit) call" where
  "record_match env worker =
     and_then (gets (get_reputation worker)) (\<lambda>info.
     and_then (chk_u32 (rep_matched info + 1)) (\<lambda>m.
       put_reputation env worker (info\<lparr>rep_matched := m\<rparr>)))"

definition record_loss :: "'w env \<Rightarrow> address \<Rightarrow> ('w, unit) call" where
  "record_loss env loser =
     and_then (gets (get_reputation loser)) (\<lambda>info.
     and_then (chk_u32 (rep_lost info + 1)) (\<lambda>m.
       put_reputation env loser (info\<lparr>rep_lost := m\<rparr>)))"

definition record_reputation :: "'w env \<Rightarrow> u64 \<Rightarrow> address list \<Rightarrow> address list \<Rightarrow> ('w, unit) call" where
  "record_reputation env question_id workers losing_workers = block [
     require_admin env,
     and_then (gets (\<lambda>s. p_reputation_recorded s question_id)) (\<lambda>recorded.
       ensure (recorded = None) ReputationAlreadyRecorded),
     set_persistent env (KReputationRecorded question_id)
       (\<lambda>s. s\<lparr>p_reputation_recorded := (p_reputation_recorded s)(question_id \<mapsto> True)\<rparr>),
     for_each workers (record_match env),
     for_each losing_workers (record_loss env),
     bump_instance env]"

text \<open>
  \<open>compute_median\<close>: the insertion loop, then the middle of the sorted values. On no values
  \<open>n / 2 - 1\<close> underflows and the build traps.
\<close>

fun insert_value :: "i128 \<Rightarrow> i128 list \<Rightarrow> i128 list" where
  "insert_value v [] = [v]"
| "insert_value v (x # xs) = (if v < x then v # x # xs else x # insert_value v xs)"

definition sorted_values :: "answer_entry list \<Rightarrow> i128 list" where
  "sorted_values answers = fold (\<lambda>e. insert_value (answer_value e)) answers []"

definition compute_median :: "answer_entry list \<Rightarrow> ('e, 's, i128) prog" where
  "compute_median answers =
     (let values = sorted_values answers; n = length values in
      if n mod 2 = 1 then ret (values ! (n div 2))
      else seq_do (trap_unless (0 < n div 2))
        (and_then (chk (values ! (n div 2 - 1) + values ! (n div 2))) (\<lambda>sum. ret (sum sdiv 2))))"

end
