(* ===== verification/Governance.thy ===== *)
theory Governance
  imports Settlement
begin

text \<open>
  What the admin configures and what anyone may read of it: the constructor, the asset allowlist,
  the two-step admin rotation and code upgrade with their delays, the resolver, the global
  timeout, the pause flag, the public-goods routing, the migration source, and the health view.
\<close>

section \<open>Construction\<close>

definition valid_timeout :: "u32 \<Rightarrow> bool" where
  "valid_timeout timeout_ledgers \<longleftrightarrow> \<not> (timeout_ledgers = 0 \<or> MAX_TIMEOUT_LEDGERS < timeout_ledgers)"

definition constructor :: "'w env \<Rightarrow> address \<Rightarrow> address \<Rightarrow> address \<Rightarrow> u32 \<Rightarrow> ('w, unit) call" where
  "constructor env admin token platform timeout_ledgers = block [
     ensure (valid_timeout timeout_ledgers) InvalidTimeout,
     modify (\<lambda>s. s\<lparr>i_admin := Some admin\<rparr>),
     modify (\<lambda>s. s\<lparr>i_token := Some token\<rparr>),
     modify (\<lambda>s. s\<lparr>i_allowed_token := (i_allowed_token s)(token \<mapsto> True)\<rparr>),
     modify (\<lambda>s. s\<lparr>i_allowed_count := Some 1\<rparr>),
     modify (\<lambda>s. s\<lparr>i_token_decimals := (i_token_decimals s)(token \<mapsto> tok_decimals env token (ledger s))\<rparr>),
     modify (\<lambda>s. s\<lparr>i_platform := Some platform\<rparr>),
     modify (\<lambda>s. s\<lparr>i_timeout_ledgers := Some timeout_ledgers\<rparr>),
     bump_instance env]"

section \<open>The asset allowlist\<close>

definition allow_asset :: "'w env \<Rightarrow> address \<Rightarrow> bool \<Rightarrow> ('w, unit) call" where
  "allow_asset env token is_default =
     and_then (gets (\<lambda>s. case i_allowed_count s of
         Some n \<Rightarrow> n | None \<Rightarrow> if is_default then 0 else 1)) (\<lambda>count. block [
       ensure (is_default \<or> count < MAX_ALLOWED_ASSETS) AssetLimitReached,
       modify (\<lambda>s. s\<lparr>i_allowed_token := (i_allowed_token s)(token \<mapsto> True),
         i_token_decimals := (i_token_decimals s)(token \<mapsto> tok_decimals env token (ledger s))\<rparr>),
       and_then (if is_default then ret (max count 1) else chk_u32 (count + 1)) (\<lambda>count'.
         modify (\<lambda>s. s\<lparr>i_allowed_count := Some count'\<rparr>))])"

definition disallow_asset :: "address \<Rightarrow> ('w, unit) call" where
  "disallow_asset token = block [
     modify (\<lambda>s. s\<lparr>i_allowed_token := (i_allowed_token s)(token := None)\<rparr>),
     modify (\<lambda>s. s\<lparr>i_allowed_count := Some (saturating_sub
       (case i_allowed_count s of Some n \<Rightarrow> n | None \<Rightarrow> 1) 1)\<rparr>)]"

definition set_asset_allowed :: "'w env \<Rightarrow> address \<Rightarrow> bool \<Rightarrow> ('w, unit) call" where
  "set_asset_allowed env token allowed = block [
     require_admin env,
     and_then (gets (\<lambda>s. token_allowed s token)) (\<lambda>was_allowed.
     and_then get_token_cfg (\<lambda>default_token.
     let is_default = (token = default_token) in block [
       ensure (allowed \<or> \<not> is_default) CannotDisableDefaultAsset,
       (if allowed \<and> \<not> was_allowed then allow_asset env token is_default
        else if \<not> allowed \<and> was_allowed then disallow_asset token
        else ret ()),
       publish (DisputeEv (AssetPermissionChanged token allowed)),
       bump_instance env]))]"

definition is_asset_allowed :: "address \<Rightarrow> 'w world \<Rightarrow> bool" where
  "is_asset_allowed token s \<longleftrightarrow> i_token s = Some token \<or> token_allowed s token"

definition get_asset_decimals :: "'w env \<Rightarrow> address \<Rightarrow> ('w, u32) call" where
  "get_asset_decimals env token =
     and_then (gets (\<lambda>s. i_token_decimals s token)) (\<lambda>found.
       case found of
         Some decimals \<Rightarrow> ret decimals
       | None \<Rightarrow>
           and_then get_token_cfg (\<lambda>default_token.
             if token = default_token then gets (\<lambda>s. tok_decimals env token (ledger s))
             else fail AssetNotAllowed))"

section \<open>Admin rotation\<close>

definition schedule_admin_rotation :: "'w env \<Rightarrow> address \<Rightarrow> ('w, unit) call" where
  "schedule_admin_rotation env new_admin =
     (let executable_at = saturating_add (now env) ADMIN_ROTATION_DELAY_LEDGERS in block [
       modify (\<lambda>s. s\<lparr>i_pending_rotation :=
         Some \<lparr>rot_new_admin = new_admin, rot_executable_at = executable_at\<rparr>\<rparr>),
       publish (DisputeEv (AdminRotationProposed new_admin executable_at)),
       bump_instance env])"

definition propose_admin_rotation :: "'w env \<Rightarrow> address \<Rightarrow> ('w, unit) call" where
  "propose_admin_rotation env new_admin = block [
     require_admin env, schedule_admin_rotation env new_admin]"

definition set_admin :: "'w env \<Rightarrow> address \<Rightarrow> ('w, unit) call" where
  "set_admin env new_admin = block [
     require_admin env, schedule_admin_rotation env new_admin]"

definition load_rotation :: "('w, pending_admin_rotation) call" where
  "load_rotation = and_then (gets i_pending_rotation) (\<lambda>p. ok_or p NoAdminRotationPending)"

definition cancel_admin_rotation :: "'w env \<Rightarrow> ('w, unit) call" where
  "cancel_admin_rotation env = block [
     require_admin env,
     and_then load_rotation (\<lambda>pending. block [
       modify (\<lambda>s. s\<lparr>i_pending_rotation := None\<rparr>),
       publish (DisputeEv (AdminRotationCancelled (rot_new_admin pending))),
       bump_instance env])]"

definition execute_admin_rotation :: "'w env \<Rightarrow> ('w, unit) call" where
  "execute_admin_rotation env = block [
     require_admin env,
     and_then load_rotation (\<lambda>pending. block [
       ensure (rot_executable_at pending \<le> now env) AdminRotationNotReady,
       require_auth env (rot_new_admin pending),
       and_then (gets i_admin) (\<lambda>a.
       and_then (ok_or a NotInitialized) (\<lambda>old_admin. block [
         modify (\<lambda>s. s\<lparr>i_admin := Some (rot_new_admin pending)\<rparr>),
         modify (\<lambda>s. s\<lparr>i_pending_rotation := None\<rparr>),
         publish (AdminEv (AdminRotated old_admin (rot_new_admin pending))),
         publish (DisputeEv (AdminRotationExecuted (rot_new_admin pending))),
         bump_instance env]))])]"

definition get_pending_admin_rotation :: "'w world \<Rightarrow> pending_admin_rotation option" where
  "get_pending_admin_rotation s = i_pending_rotation s"

section \<open>Settings\<close>

definition set_resolver :: "'w env \<Rightarrow> address option \<Rightarrow> ('w, unit) call" where
  "set_resolver env resolver = block [
     require_admin env,
     (case resolver of
        Some addr \<Rightarrow> modify (\<lambda>s. s\<lparr>i_resolver := Some addr\<rparr>)
      | None \<Rightarrow> modify (\<lambda>s. s\<lparr>i_resolver := None\<rparr>)),
     bump_instance env]"

definition get_resolver :: "'w world \<Rightarrow> address option" where
  "get_resolver s = i_resolver s"

definition set_timeout_ledgers :: "'w env \<Rightarrow> u32 \<Rightarrow> ('w, unit) call" where
  "set_timeout_ledgers env new_timeout_ledgers = block [
     require_admin env,
     ensure (valid_timeout new_timeout_ledgers) InvalidTimeout,
     and_then (gets (\<lambda>s. counter (i_timeout_ledgers s))) (\<lambda>old_timeout_ledgers. block [
       modify (\<lambda>s. s\<lparr>i_timeout_ledgers := Some new_timeout_ledgers\<rparr>),
       bump_instance env,
       publish (AdminEv (TimeoutLedgersChanged old_timeout_ledgers new_timeout_ledgers))])]"

definition set_paused :: "'w env \<Rightarrow> bool \<Rightarrow> ('w, unit) call" where
  "set_paused env b = block [
     require_admin env,
     modify (\<lambda>s. s\<lparr>i_paused := Some b\<rparr>),
     bump_instance env,
     publish (AdminEv (PausedChanged b))]"

definition is_paused :: "'w world \<Rightarrow> bool" where
  "is_paused s = paused s"

definition set_public_goods_config :: "'w env \<Rightarrow> address \<Rightarrow> u32 \<Rightarrow> ('w, unit) call" where
  "set_public_goods_config env address bps = block [
     require_admin env,
     ensure (int bps \<le> BPS_DENOM) InvalidPublicGoodsBps,
     modify (\<lambda>s. s\<lparr>i_pg_address := Some address\<rparr>),
     modify (\<lambda>s. s\<lparr>i_pg_bps := Some bps\<rparr>),
     bump_instance env,
     publish (EscalationEv (PublicGoodsConfigSet address bps))]"

definition get_public_goods_config :: "'w world \<Rightarrow> (address \<times> u32) option" where
  "get_public_goods_config s =
     (let bps = counter (i_pg_bps s)
      in if bps = 0 then None else map_option (\<lambda>addr. (addr, bps)) (i_pg_address s))"

definition set_migration_source :: "'w env \<Rightarrow> address \<Rightarrow> ('w, unit) call" where
  "set_migration_source env source = block [
     require_admin env,
     ensure (source \<noteq> self env) InvalidMigrationTarget,
     modify (\<lambda>s. s\<lparr>i_migration_source := Some source\<rparr>),
     bump_instance env]"

definition clear_migration_source :: "'w env \<Rightarrow> ('w, unit) call" where
  "clear_migration_source env = block [
     require_admin env,
     modify (\<lambda>s. s\<lparr>i_migration_source := None\<rparr>),
     bump_instance env]"

definition get_migration_source :: "'w world \<Rightarrow> address option" where
  "get_migration_source s = i_migration_source s"

section \<open>Upgrading the code\<close>

definition load_upgrade :: "('w, pending_upgrade) call" where
  "load_upgrade = and_then (gets i_pending_upgrade) (\<lambda>u. ok_or u NoUpgradePending)"

definition propose_upgrade :: "'w env \<Rightarrow> bytes \<Rightarrow> ('w, unit) call" where
  "propose_upgrade env new_wasm_hash = block [
     require_admin env,
     (let executable_at = saturating_add (now env) UPGRADE_DELAY_LEDGERS in block [
       modify (\<lambda>s. s\<lparr>i_pending_upgrade :=
         Some \<lparr>upg_wasm_hash = new_wasm_hash, upg_executable_at = executable_at\<rparr>\<rparr>),
       extend_instance_ttl env,
       publish (AdminEv (UpgradeProposed new_wasm_hash executable_at))])]"

definition cancel_upgrade :: "'w env \<Rightarrow> ('w, unit) call" where
  "cancel_upgrade env = block [
     require_admin env,
     and_then load_upgrade (\<lambda>upgrade. block [
       modify (\<lambda>s. s\<lparr>i_pending_upgrade := None\<rparr>),
       extend_instance_ttl env,
       publish (AdminEv (UpgradeCancelled (upg_wasm_hash upgrade)))])]"

text \<open>The host replaces the contract's code, or traps when the hash was never uploaded.\<close>

definition update_current_contract_wasm :: "'w env \<Rightarrow> bytes \<Rightarrow> ('w, unit) call" where
  "update_current_contract_wasm env hash = block [
     trap_unless (wasm_uploaded env hash),
     modify (\<lambda>s. s\<lparr>current_wasm := hash\<rparr>)]"

definition execute_upgrade :: "'w env \<Rightarrow> ('w, unit) call" where
  "execute_upgrade env = block [
     require_admin env,
     and_then load_upgrade (\<lambda>upgrade. block [
       ensure (upg_executable_at upgrade \<le> now env) UpgradeNotReady,
       modify (\<lambda>s. s\<lparr>i_pending_upgrade := None\<rparr>),
       extend_instance_ttl env,
       update_current_contract_wasm env (upg_wasm_hash upgrade),
       publish (AdminEv (UpgradeExecuted (upg_wasm_hash upgrade)))])]"

definition get_pending_upgrade :: "'w world \<Rightarrow> pending_upgrade option" where
  "get_pending_upgrade s = i_pending_upgrade s"

definition version :: u32 where
  "version = CONTRACT_VERSION"

section \<open>Views\<close>

definition get_health :: "'w env \<Rightarrow> ('w, contract_health) call" where
  "get_health env =
     and_then (gets i_admin) (\<lambda>a.
     and_then (ok_or a NotInitialized) (\<lambda>admin.
     and_then get_token_cfg (\<lambda>token_addr.
     and_then (gets i_platform) (\<lambda>p.
     and_then (ok_or p NotInitialized) (\<lambda>platform.
       gets (\<lambda>s. \<lparr>health_open_question_count = counter (i_open_count s),
         health_total_opened = counter (i_total_opened s),
         health_total_resolved = counter (i_total_resolved s),
         health_total_refunded = counter (i_total_refunded s),
         health_token_balance = tok_balance env token_addr (self env) (ledger s),
         health_admin = admin, health_token = token_addr, health_platform = platform,
         health_paused = paused s\<rparr>))))))"

definition get_timeout_ledgers :: "('w, u32) call" where
  "get_timeout_ledgers = and_then (gets i_timeout_ledgers) (\<lambda>t. ok_or t NotInitialized)"

definition get_token :: "('w, address) call" where
  "get_token = get_token_cfg"

definition get_admin :: "('w, address) call" where
  "get_admin = and_then (gets i_admin) (\<lambda>a. ok_or a NotInitialized)"

definition get_platform :: "('w, address) call" where
  "get_platform = and_then (gets i_platform) (\<lambda>p. ok_or p NotInitialized)"

definition get_question_token :: "u64 \<Rightarrow> ('w, address) call" where
  "get_question_token question_id = question_token question_id"

definition question_basket :: "u64 \<Rightarrow> 'w world \<Rightarrow> (address \<times> i128) list option" where
  "question_basket question_id s = p_basket s question_id"

definition get_question_basket :: "u64 \<Rightarrow> 'w world \<Rightarrow> (address \<times> i128) list option" where
  "get_question_basket question_id s = question_basket question_id s"

text \<open>\<open>validate_basket\<close>: the loop over the legs, with the tokens of the earlier legs.\<close>

fun basket_legs_valid :: "address list \<Rightarrow> (address \<times> i128) list \<Rightarrow> ('w, unit) call" where
  "basket_legs_valid seen [] = ret ()"
| "basket_legs_valid seen ((token, amount) # legs) = block [
     ensure (0 < amount) InvalidAmount,
     require_allowed_token token,
     ensure (token \<notin> set seen) InvalidBasket,
     basket_legs_valid (seen @ [token]) legs]"

definition validate_basket :: "(address \<times> i128) list \<Rightarrow> ('w, unit) call" where
  "validate_basket basket = block [
     ensure (basket \<noteq> [] \<and> length basket \<le> MAX_BASKET_ASSETS) InvalidBasket,
     basket_legs_valid [] basket]"

end
