(* ===== verification/Migration.thy ===== *)
theory Migration
  imports Governance
begin

text \<open>
  Moving questions and balances to another deployment. The source settles or removes each entry
  before it calls the target; the target is another contract, so its two entry points are a
  parameter of the source's operations (record \<open>peer\<close>): the target changes the ledger \<open>'w\<close>, which
  for a peer stands for the tokens and whatever the target itself stores, or it traps. The
  authorization the source grants for the pull is part of that call.
\<close>

record 'w peer =
  peer_import_question ::
    "address \<Rightarrow> address \<Rightarrow> u64 \<Rightarrow> address \<Rightarrow> i128 \<Rightarrow> u32 \<Rightarrow> u32 \<Rightarrow> 'w \<Rightarrow> 'w option"
  peer_import_balances ::
    "address \<Rightarrow> address \<Rightarrow> address \<Rightarrow> i128 \<Rightarrow> i128 \<Rightarrow> i128 \<Rightarrow> 'w \<Rightarrow> 'w option"

definition call_peer :: "('w \<Rightarrow> 'w option) \<Rightarrow> ('w, unit) call" where
  "call_peer f s = (case f (ledger s) of None \<Rightarrow> Trap | Some l \<Rightarrow> Ok () (s\<lparr>ledger := l\<rparr>))"

section \<open>Questions\<close>

definition migrate_one :: "'w env \<Rightarrow> (address \<Rightarrow> 'w peer) \<Rightarrow> address \<Rightarrow> u64 \<Rightarrow> i128 \<Rightarrow> ('w, i128) call" where
  "migrate_one env peers target question_id moved =
     and_then (load_question question_id) (\<lambda>question.
     seq_do (block [
       ensure (q_status question = Pending) QuestionNotPending,
       reject_basket question_id])
     (and_then (question_token question_id) (\<lambda>token_addr.
      seq_do (block [
        settle_question env question_id question Migrated,
        call_peer (peer_import_question (peers target) (self env) token_addr question_id
          (q_payer question) (q_amount question) (q_created_at question)
          (q_timeout_ledgers question))])
      (and_then (ok_or (checked_add moved (q_amount question)) ArithmeticOverflow) (\<lambda>moved'.
       seq_do (publish (FeatureEv (QuestionMigrated question_id target token_addr
           (q_amount question))))
         (ret moved'))))))"

definition migrate_pending ::
    "'w env \<Rightarrow> (address \<Rightarrow> 'w peer) \<Rightarrow> u64 list \<Rightarrow> address \<Rightarrow> ('w, i128) call" where
  "migrate_pending env peers question_ids target =
     seq_do (block [
       require_admin env,
       ensure (target \<noteq> self env) InvalidMigrationTarget])
     (fold_prog (migrate_one env peers target) question_ids 0)"

definition require_migration_source :: "'w env \<Rightarrow> address \<Rightarrow> ('w, unit) call" where
  "require_migration_source env source =
     and_then (gets i_migration_source) (\<lambda>m.
     and_then (ok_or m MigrationNotAuthorized) (\<lambda>allowed. block [
       ensure (source = allowed) MigrationNotAuthorized,
       require_auth env source]))"

definition import_question :: "'w env \<Rightarrow> address \<Rightarrow> address \<Rightarrow> u64 \<Rightarrow> address \<Rightarrow> i128 \<Rightarrow> u32 \<Rightarrow> u32
    \<Rightarrow> ('w, unit) call" where
  "import_question env source token question_id payer amount created_at timeout_ledgers = block [
     require_migration_source env source,
     and_then get_token_cfg (\<lambda>default_token.
       if token = default_token then ret ()
       else and_then (attempt (require_allowed_token token)) (\<lambda>r.
         case r of Inl e \<Rightarrow> fail TokenMismatch | Inr u \<Rightarrow> ret ())),
     ensure (0 < amount) InvalidAmount,
     ensure (valid_timeout timeout_ledgers) InvalidTimeout,
     and_then (gets (\<lambda>s. p_question s question_id)) (\<lambda>q. ensure (q = None) QuestionAlreadyExists),
     transfer env token source (self env) amount,
     record_question env question_id token
       \<lparr>q_payer = payer, q_amount = amount, q_status = Pending, q_created_at = created_at,
        q_timeout_ledgers = timeout_ledgers, q_token = token\<rparr>]"

section \<open>Balances\<close>

text \<open>The default token, then the caller's others without repetition.\<close>

definition add_token :: "address \<Rightarrow> address \<Rightarrow> address list \<Rightarrow> address list" where
  "add_token default_token token ts =
     (if token = default_token \<or> token \<in> set ts then ts else ts @ [token])"

definition tokens_to_migrate :: "address \<Rightarrow> address list \<Rightarrow> address list" where
  "tokens_to_migrate default_token tokens = fold (add_token default_token) tokens [default_token]"

definition remove_stake :: "data_key \<Rightarrow> ('w, unit) call" where
  "remove_stake key = modify (\<lambda>s. s\<lparr>p_stake := (p_stake s)(key := None)\<rparr>)"

definition remove_owed :: "data_key \<Rightarrow> ('w, unit) call" where
  "remove_owed key = modify (\<lambda>s. s\<lparr>p_owed := (p_owed s)(key := None)\<rparr>)"

definition remove_balance :: "data_key \<Rightarrow> ('w, unit) call" where
  "remove_balance key = modify (\<lambda>s. s\<lparr>p_balance := (p_balance s)(key := None)\<rparr>)"

definition sum_balances :: "i128 \<Rightarrow> i128 \<Rightarrow> i128 \<Rightarrow> (contract_error, 's, i128) prog" where
  "sum_balances stake_amount owed_amount balance_amount =
     and_then (ok_or (checked_add stake_amount owed_amount) ArithmeticOverflow) (\<lambda>a.
       ok_or (checked_add a balance_amount) ArithmeticOverflow)"

definition migrate_account :: "'w env \<Rightarrow> (address \<Rightarrow> 'w peer) \<Rightarrow> address \<Rightarrow> address \<Rightarrow> address \<Rightarrow> i128
    \<Rightarrow> ('w, i128) call" where
  "migrate_account env peers target token address moved =
     and_then (stake_key token address) (\<lambda>stake_k.
     and_then (owed_key token address) (\<lambda>owed_k.
     and_then (balance_key token address) (\<lambda>balance_k.
     and_then (gets (stored_stake stake_k)) (\<lambda>info.
     and_then (chk (settled info + warming info)) (\<lambda>active.
     and_then (chk (active + unbonding info)) (\<lambda>stake_amount.
     and_then (gets (\<lambda>s. stored_i128 (p_owed s) owed_k)) (\<lambda>owed_amount.
     and_then (gets (\<lambda>s. stored_i128 (p_balance s) balance_k)) (\<lambda>balance_amount.
     and_then (sum_balances stake_amount owed_amount balance_amount) (\<lambda>sum_amount.
     and_then
       (if 0 < sum_amount then
          seq_do (block [
            (if 0 < stake_amount then remove_stake stake_k else ret ()),
            (if 0 < owed_amount then remove_owed owed_k else ret ()),
            (if 0 < balance_amount then remove_balance balance_k else ret ()),
            call_peer (peer_import_balances (peers target) (self env) token address
              stake_amount owed_amount balance_amount)])
          (ok_or (checked_add moved sum_amount) ArithmeticOverflow)
        else ret moved) (\<lambda>moved'.
     seq_do (publish (EscalationEv (BalanceMigrated address token stake_amount owed_amount
         balance_amount target)))
       (ret moved')))))))))))"

definition migrate_token :: "'w env \<Rightarrow> (address \<Rightarrow> 'w peer) \<Rightarrow> address list \<Rightarrow> address \<Rightarrow> address \<Rightarrow> i128
    \<Rightarrow> ('w, i128) call" where
  "migrate_token env peers addresses target token moved =
     fold_prog (migrate_account env peers target token) addresses moved"

definition migrate_balances :: "'w env \<Rightarrow> (address \<Rightarrow> 'w peer) \<Rightarrow> address list \<Rightarrow> address list \<Rightarrow> address
    \<Rightarrow> ('w, i128) call" where
  "migrate_balances env peers addresses tokens target =
     seq_do (block [
       require_admin env,
       ensure (target \<noteq> self env) InvalidBalanceMigrationTarget])
     (and_then get_token_cfg (\<lambda>default_token.
      and_then (fold_prog (migrate_token env peers addresses target)
          (tokens_to_migrate default_token tokens) 0) (\<lambda>moved.
      seq_do (bump_instance env) (ret moved))))"

definition import_stake :: "'w env \<Rightarrow> address \<Rightarrow> address \<Rightarrow> i128 \<Rightarrow> ('w, unit) call" where
  "import_stake env token address stake_amount =
     (if 0 < stake_amount then
        and_then (stake_key token address) (\<lambda>key.
        and_then (gets (stored_stake key)) (\<lambda>info.
        and_then (ok_or (checked_add (settled info) stake_amount) ArithmeticOverflow) (\<lambda>settled'. block [
          put_stake env key (info\<lparr>settled := settled'\<rparr>),
          track_participant env address])))
      else ret ())"

definition import_owed :: "'w env \<Rightarrow> address \<Rightarrow> address \<Rightarrow> i128 \<Rightarrow> ('w, unit) call" where
  "import_owed env token address owed_amount =
     (if 0 < owed_amount then
        and_then (owed_key token address) (\<lambda>key.
        and_then (gets (\<lambda>s. stored_i128 (p_owed s) key)) (\<lambda>existing.
        and_then (ok_or (checked_add existing owed_amount) ArithmeticOverflow) (\<lambda>updated. block [
          put_owed env key updated,
          track_participant env address])))
      else ret ())"

definition import_balance :: "'w env \<Rightarrow> address \<Rightarrow> address \<Rightarrow> i128 \<Rightarrow> ('w, unit) call" where
  "import_balance env token address balance_amount =
     (if 0 < balance_amount then
        and_then (balance_key token address) (\<lambda>key.
        and_then (gets (\<lambda>s. stored_i128 (p_balance s) key)) (\<lambda>existing.
        and_then (ok_or (checked_add existing balance_amount) ArithmeticOverflow) (\<lambda>updated. block [
          put_balance env key updated,
          track_participant env address])))
      else ret ())"

definition import_balances :: "'w env \<Rightarrow> address \<Rightarrow> address \<Rightarrow> address \<Rightarrow> i128 \<Rightarrow> i128 \<Rightarrow> i128
    \<Rightarrow> ('w, unit) call" where
  "import_balances env source token address stake_amount owed_amount balance_amount = block [
     require_migration_source env source,
     ensure (0 \<le> stake_amount \<and> 0 \<le> owed_amount \<and> 0 \<le> balance_amount) InvalidAmount,
     require_allowed_token token,
     and_then (sum_balances stake_amount owed_amount balance_amount) (\<lambda>sum_amount.
       if 0 < sum_amount then transfer env token source (self env) sum_amount else ret ()),
     import_stake env token address stake_amount,
     import_owed env token address owed_amount,
     import_balance env token address balance_amount,
     bump_instance env]"

end
