(* ===== verification/Dispute.thy ===== *)
theory Dispute
  imports Settlement
begin

text \<open>
  The two paths that settle a question in more than one step: escalation to a second quorum
  (\<open>escalate\<close>, \<open>escalate_resolve\<close>) and the challengeable resolution (\<open>resolve_challengeable\<close>,
  \<open>post_challenge_bond\<close>, \<open>dispute_resolve\<close>, \<open>finalize_resolve\<close>). Between the steps the question
  keeps its escrow and its place in the pending index.
\<close>

section \<open>Second quorum\<close>

definition put_escalated :: "'w env \<Rightarrow> u64 \<Rightarrow> escalated_question \<Rightarrow> ('w, unit) call" where
  "put_escalated env question_id escalated =
     set_persistent env (KEscalatedQuestion question_id)
       (\<lambda>s. s\<lparr>p_escalated := (p_escalated s)(question_id \<mapsto> escalated)\<rparr>)"

definition drop_escalated :: "u64 \<Rightarrow> ('w, unit) call" where
  "drop_escalated question_id =
     modify (\<lambda>s. s\<lparr>p_escalated := (p_escalated s)(question_id := None)\<rparr>)"

definition escalate :: "'w env \<Rightarrow> u64 \<Rightarrow> address list \<Rightarrow> address list \<Rightarrow> ('w, unit) call" where
  "escalate env question_id first_workers first_losing_workers = block [
     require_admin env,
     ensure (first_workers \<noteq> []) NoWorkers,
     ensure (quorum_size first_workers first_losing_workers \<le> MAX_QUORUM_SIZE) QuorumTooLarge,
     validate_worker_lists first_workers first_losing_workers,
     and_then (load_question question_id) (\<lambda>question. block [
       ensure (q_status question = Pending) QuestionNotPendingForEscalation,
       reject_basket question_id,
       put_escalated env question_id
         \<lparr>esc_first_workers = first_workers, esc_first_losing_workers = first_losing_workers\<rparr>,
       store_question env question_id (question\<lparr>q_status := Disputed\<rparr>),
       bump_instance env,
       publish (EscalationEv
         (QuestionEscalated question_id (length first_workers) (length first_losing_workers)))])]"

definition overturns :: "escalated_question option \<Rightarrow> address list \<Rightarrow> address list \<Rightarrow> bool" where
  "overturns escalated workers losing_workers =
     (case escalated of
        None \<Rightarrow> False
      | Some eq \<Rightarrow> esc_first_workers eq \<noteq> workers \<or> esc_first_losing_workers eq \<noteq> losing_workers)"

text \<open>One worker of the paying loop: the credit, its event, then the resolved count.\<close>

definition pay_worker :: "'w env \<Rightarrow> u64 \<Rightarrow> address \<Rightarrow> i128 \<Rightarrow> address \<Rightarrow> ('w, unit) call" where
  "pay_worker env question_id token worker_credit worker = block [
     credit_worker env question_id token worker_credit worker,
     record_resolved_credit env worker]"

definition escalate_resolve :: "'w env \<Rightarrow> u64 \<Rightarrow> address list \<Rightarrow> address list \<Rightarrow> ('w, unit) call" where
  "escalate_resolve env question_id workers losing_workers = block [
     require_admin env,
     check_lists workers losing_workers,
     and_then (load_question question_id) (\<lambda>question. block [
       ensure (q_status question = Disputed) QuestionNotDisputed,
       and_then (gets (\<lambda>s. p_escalated s question_id)) (\<lambda>escalated.
       and_then (gets i_platform) (\<lambda>p.
       and_then (ok_or p NotInitialized) (\<lambda>platform.
       and_then (question_token question_id) (\<lambda>token.
       and_then (payout env question_id token (q_amount question) (int (length workers)) losing_workers)
         (\<lambda>(fee, total_slashed, platform_take, worker_credit).
       block [
         for_each workers (pay_worker env question_id token worker_credit),
         route_platform_take env token platform platform_take,
         (if escalated \<noteq> None then drop_escalated question_id else ret ()),
         settle_question env question_id question Resolved,
         publish (QuestionEv (QuestionResolved question_id (length workers) fee total_slashed 0)),
         publish (EscalationEv
           (EscalationResolved question_id (overturns escalated workers losing_workers)))])))))])]"

definition get_escalated_question :: "u64 \<Rightarrow> 'w world \<Rightarrow> escalated_question option" where
  "get_escalated_question question_id s = p_escalated s question_id"

section \<open>Challengeable resolution\<close>

definition put_resolution :: "'w env \<Rightarrow> u64 \<Rightarrow> pending_resolution \<Rightarrow> ('w, unit) call" where
  "put_resolution env question_id res =
     set_persistent env (KPendingResolution question_id)
       (\<lambda>s. s\<lparr>p_pending_resolution := (p_pending_resolution s)(question_id \<mapsto> res)\<rparr>)"

definition drop_resolution :: "u64 \<Rightarrow> ('w, unit) call" where
  "drop_resolution question_id =
     modify (\<lambda>s. s\<lparr>p_pending_resolution := (p_pending_resolution s)(question_id := None)\<rparr>)"

definition put_bond :: "'w env \<Rightarrow> u64 \<Rightarrow> challenger_bond \<Rightarrow> ('w, unit) call" where
  "put_bond env question_id bond =
     set_persistent env (KChallengerBond question_id)
       (\<lambda>s. s\<lparr>p_bond := (p_bond s)(question_id \<mapsto> bond)\<rparr>)"

definition drop_bond :: "u64 \<Rightarrow> ('w, unit) call" where
  "drop_bond question_id = modify (\<lambda>s. s\<lparr>p_bond := (p_bond s)(question_id := None)\<rparr>)"

definition load_resolution :: "u64 \<Rightarrow> ('w, pending_resolution) call" where
  "load_resolution question_id =
     and_then (gets (\<lambda>s. p_pending_resolution s question_id)) (\<lambda>r. ok_or r NoPendingResolution)"

definition resolve_challengeable ::
    "'w env \<Rightarrow> u64 \<Rightarrow> address list \<Rightarrow> address list \<Rightarrow> u32 \<Rightarrow> ('w, unit) call" where
  "resolve_challengeable env question_id workers losing_workers dispute_window_ledgers = block [
     require_admin env,
     check_lists workers losing_workers,
     and_then (load_question question_id) (\<lambda>question.
       let dispute_deadline = saturating_add (now env) dispute_window_ledgers in block [
       ensure (q_status question = Pending) QuestionNotPending,
       reject_basket question_id,
       put_resolution env question_id
         \<lparr>res_workers = workers, res_losing_workers = losing_workers,
          res_dispute_deadline = dispute_deadline, res_disputed = False\<rparr>,
       store_question env question_id (question\<lparr>q_status := ResolvedPending\<rparr>),
       bump_instance env,
       publish (DisputeEv (ResolutionChallengeable question_id dispute_deadline))])]"

definition post_challenge_bond :: "'w env \<Rightarrow> address \<Rightarrow> u64 \<Rightarrow> i128 \<Rightarrow> ('w, unit) call" where
  "post_challenge_bond env challenger question_id amount = block [
     require_not_paused,
     require_auth env challenger,
     ensure (0 < amount) InvalidBondAmount,
     and_then (load_question question_id) (\<lambda>question. block [
       ensure (q_status question = ResolvedPending) NoChallengeableResolution,
       and_then (load_resolution question_id) (\<lambda>res. block [
         ensure (now env < res_dispute_deadline res) NoChallengeableResolution,
         and_then (gets (\<lambda>s. p_bond s question_id)) (\<lambda>b. ensure (b = None) BondAlreadyPosted),
         and_then get_token_cfg (\<lambda>token_addr. block [
           transfer env token_addr challenger (self env) amount,
           put_bond env question_id \<lparr>bond_challenger = challenger, bond_amount = amount\<rparr>,
           bump_instance env,
           publish (EscalationEv (ChallengeBondPosted question_id challenger amount))])])])]"

definition dispute_resolve :: "'w env \<Rightarrow> u64 \<Rightarrow> ('w, unit) call" where
  "dispute_resolve env question_id = block [
     require_admin env,
     and_then (load_resolution question_id) (\<lambda>res. block [
       put_resolution env question_id (res\<lparr>res_disputed := True\<rparr>),
       bump_instance env,
       publish (DisputeEv (ResolutionDisputed question_id))])]"

text \<open>The bond, if any, leaves storage and joins the platform's take; returns the new take and it.\<close>

definition forfeit_bond :: "u64 \<Rightarrow> i128 \<Rightarrow> ('w, i128 \<times> i128) call" where
  "forfeit_bond question_id platform_take =
     and_then (gets (\<lambda>s. p_bond s question_id)) (\<lambda>maybe_bond.
       case maybe_bond of
         None \<Rightarrow> ret (platform_take, 0)
       | Some bond \<Rightarrow>
           and_then (ok_or (checked_add platform_take (bond_amount bond)) ArithmeticOverflow) (\<lambda>take'.
           seq_do (block [
             drop_bond question_id,
             publish (EscalationEv (ChallengeBondSettled question_id (bond_challenger bond)
               (bond_amount bond) False))])
           (ret (take', bond_amount bond))))"

definition finalize_resolve :: "'w env \<Rightarrow> u64 \<Rightarrow> ('w, unit) call" where
  "finalize_resolve env question_id =
     and_then (load_resolution question_id) (\<lambda>res. block [
       ensure (res_dispute_deadline res < now env) DisputeWindowNotElapsed,
       ensure (\<not> res_disputed res) QuestionDisputed,
       and_then (load_question question_id) (\<lambda>question. block [
         ensure (q_status question = ResolvedPending) NoPendingResolution,
         and_then (gets i_platform) (\<lambda>p.
         and_then (ok_or p NotInitialized) (\<lambda>platform.
         and_then (question_token question_id) (\<lambda>token.
         let workers = res_workers res in
         and_then (payout env question_id token (q_amount question) (int (length workers))
             (res_losing_workers res))
           (\<lambda>(fee, total_slashed, platform_take, worker_credit).
         seq_do (for_each workers (pay_worker env question_id token worker_credit))
         (and_then (forfeit_bond question_id platform_take) (\<lambda>(final_take, forfeited_bond). block [
           route_platform_take env token platform final_take,
           drop_resolution question_id,
           settle_question env question_id question Resolved,
           publish (QuestionEv (QuestionResolved question_id (length workers) fee total_slashed
             forfeited_bond))]))))))])])"

definition get_pending_resolution :: "u64 \<Rightarrow> 'w world \<Rightarrow> pending_resolution option" where
  "get_pending_resolution question_id s = p_pending_resolution s question_id"

definition get_challenger_bond :: "u64 \<Rightarrow> 'w world \<Rightarrow> challenger_bond option" where
  "get_challenger_bond question_id s = p_bond s question_id"

end
