(* ===== verification/Attest.thy ===== *)
theory Attest
  imports Settlement
begin

text \<open>
  Records that move no funds: the stake views and their ledger-by-ledger snapshots, the passkey
  registered for a worker, the attestor-signed KYC claims and the minted claims. The signature
  checks and the XDR encodings are the host's (record \<open>host\<close>).
\<close>

section \<open>Stake views\<close>

definition get_stake :: "'w env \<Rightarrow> address \<Rightarrow> ('w, i128) call" where
  "get_stake env worker = and_then (stake_info env worker) (\<lambda>info. chk (settled info + warming info))"

definition get_matured_stake :: "'w env \<Rightarrow> address \<Rightarrow> ('w, i128) call" where
  "get_matured_stake env worker = and_then (stake_info env worker) (\<lambda>info. ret (settled info))"

definition ramp_tranche :: "u32 \<Rightarrow> warming_tranche \<Rightarrow> i128 \<Rightarrow> ('e, 's, i128) prog" where
  "ramp_tranche at_ledger tranche effective =
     (let elapsed = int (saturating_sub at_ledger (tranche_since tranche));
          elapsed_clamped = max (min elapsed (int STAKE_WARMUP_LEDGERS)) 0
      in and_then (chk (tranche_amount tranche * elapsed_clamped)) (\<lambda>product.
           chk (effective + product sdiv int STAKE_WARMUP_LEDGERS)))"

definition get_effective_stake :: "'w env \<Rightarrow> address \<Rightarrow> ('w, i128) call" where
  "get_effective_stake env worker =
     and_then (stake_info env worker) (\<lambda>info.
       case warming_tranches info of
         None \<Rightarrow> ret (settled info)
       | Some tranches \<Rightarrow> fold_prog (ramp_tranche (now env)) tranches (settled info))"

definition get_stake_info :: "'w env \<Rightarrow> address \<Rightarrow> ('w, stake_info) call" where
  "get_stake_info env worker = stake_info env worker"

definition get_stake_asset :: "'w env \<Rightarrow> address \<Rightarrow> address \<Rightarrow> ('w, i128) call" where
  "get_stake_asset env worker token =
     and_then (attempt (stake_info_for_token env token worker)) (\<lambda>r.
       case r of Inl e \<Rightarrow> ret 0 | Inr info \<Rightarrow> chk (settled info + warming info))"

definition get_matured_stake_asset :: "'w env \<Rightarrow> address \<Rightarrow> address \<Rightarrow> ('w, i128) call" where
  "get_matured_stake_asset env worker token =
     and_then (attempt (stake_info_for_token env token worker)) (\<lambda>r.
       case r of Inl e \<Rightarrow> ret 0 | Inr info \<Rightarrow> ret (settled info))"

definition get_stake_info_asset :: "'w env \<Rightarrow> address \<Rightarrow> address \<Rightarrow> ('w, stake_info) call" where
  "get_stake_info_asset env worker token =
     or_default default_stake_info (stake_info_for_token env token worker)"

definition snapshot_stake :: "'w env \<Rightarrow> address \<Rightarrow> ('w, u32) call" where
  "snapshot_stake env worker =
     and_then (stake_info env worker) (\<lambda>info.
     and_then (chk (settled info + warming info)) (\<lambda>v.
     seq_do (block [
       set_persistent env (KStakeSnapshot worker (now env))
         (\<lambda>s. s\<lparr>p_snapshot := (p_snapshot s)((worker, now env) \<mapsto> v)\<rparr>),
       bump_instance env,
       publish (DisputeEv (StakeSnapshotted worker (now env) v))])
     (ret (now env))))"

definition get_historical_stake :: "address \<Rightarrow> u32 \<Rightarrow> ('w, i128) call" where
  "get_historical_stake worker at_ledger =
     and_then (gets (\<lambda>s. p_snapshot s (worker, at_ledger))) (\<lambda>v. ok_or v StakeSnapshotNotFound)"

section \<open>Passkeys\<close>

definition register_passkey :: "'w env \<Rightarrow> address \<Rightarrow> bytes \<Rightarrow> ('w, unit) call" where
  "register_passkey env worker pubkey = block [
     require_auth env worker,
     modify (\<lambda>s. s\<lparr>p_passkey := (p_passkey s)(worker \<mapsto> pubkey)\<rparr>),
     extend_persistent env (KPasskeyPubkey worker),
     bump_instance env,
     publish (DisputeEv (PasskeyRegistered worker))]"

definition get_passkey_pubkey :: "address \<Rightarrow> 'w world \<Rightarrow> bytes option" where
  "get_passkey_pubkey worker s = p_passkey s worker"

definition verify_passkey_auth :: "'w env \<Rightarrow> address \<Rightarrow> bytes \<Rightarrow> bytes \<Rightarrow> ('w, unit) call" where
  "verify_passkey_auth env worker message signature =
     and_then (gets (\<lambda>s. p_passkey s worker)) (\<lambda>k.
     and_then (ok_or k PasskeyNotRegistered) (\<lambda>pubkey.
       trap_unless (secp256r1_ok env pubkey (sha256 env message) signature)))"

section \<open>KYC attestations and claims\<close>

definition set_kyc_attestor :: "'w env \<Rightarrow> bytes \<Rightarrow> ('w, unit) call" where
  "set_kyc_attestor env attestor_pubkey = block [
     require_admin env,
     modify (\<lambda>s. s\<lparr>i_kyc_attestor := Some attestor_pubkey\<rparr>),
     bump_instance env]"

definition get_kyc_attestor :: "'w world \<Rightarrow> bytes option" where
  "get_kyc_attestor s = i_kyc_attestor s"

definition attest_kyc :: "'w env \<Rightarrow> address \<Rightarrow> u32 \<Rightarrow> bytes \<Rightarrow> ('w, unit) call" where
  "attest_kyc env subject expiry_ledger signature =
     and_then (gets i_kyc_attestor) (\<lambda>k.
     and_then (ok_or k KycAttestorNotSet) (\<lambda>attestor_pubkey. block [
       ensure (now env < expiry_ledger) InvalidKycExpiry,
       trap_unless (ed25519_ok env attestor_pubkey
         (xdr_address env subject @ xdr_u32 env expiry_ledger) signature),
       set_persistent env (KKycAttestation subject)
         (\<lambda>s. s\<lparr>p_kyc := (p_kyc s)(subject \<mapsto> expiry_ledger)\<rparr>),
       bump_instance env,
       publish (DisputeEv (KycAttested subject expiry_ledger))]))"

definition is_kyc_verified :: "'w env \<Rightarrow> address \<Rightarrow> 'w world \<Rightarrow> bool" where
  "is_kyc_verified env subject s =
     (case p_kyc s subject of Some expiry \<Rightarrow> now env < expiry | None \<Rightarrow> False)"

definition get_claim :: "u64 \<Rightarrow> 'w world \<Rightarrow> claim_record option" where
  "get_claim question_id s = p_claim s question_id"

end
