(* ===== verification/Custody.thy ===== *)
theory Custody
  imports Migration Dispute Attest
begin

text \<open>
  Custody of funds. \<open>liabilities\<close> is what the contract owes in one token: the escrow of open
  questions, owed earnings, prepaid balances, stakes and challenger bonds. \<open>slack\<close> is its token
  balance less that. The theory shows that no operation lowers the slack of any token: whatever an
  operation pays out, the contract stops owing. \<open>books_wf\<close> collects what the accounting rests on.
\<close>

section \<open>The books\<close>

definition escrowed :: "address \<Rightarrow> u64 \<Rightarrow> question \<Rightarrow> i128" where
  "escrowed t q x = (if open_status (q_status x) \<and> q_token x = t then q_amount x else 0)"

definition keyed :: "address \<Rightarrow> address \<Rightarrow> data_key \<Rightarrow> i128 \<Rightarrow> i128" where
  "keyed d t k v = (if key_token d k = t then v else 0)"

definition keyed_stake :: "address \<Rightarrow> address \<Rightarrow> data_key \<Rightarrow> stake_info \<Rightarrow> i128" where
  "keyed_stake d t k info = (if key_token d k = t then stake_total info else 0)"

definition bonded :: "address \<Rightarrow> address \<Rightarrow> u64 \<Rightarrow> challenger_bond \<Rightarrow> i128" where
  "bonded d t q b = (if t = d then bond_amount b else 0)"

definition liabilities :: "address \<Rightarrow> address \<Rightarrow> 'w world \<Rightarrow> i128" where
  "liabilities d t s = msum (escrowed t) (p_question s) + msum (keyed d t) (p_owed s)
     + msum (keyed d t) (p_balance s) + msum (keyed_stake d t) (p_stake s)
     + msum (bonded d t) (p_bond s)"

definition slack :: "('w, 'x) host_scheme \<Rightarrow> address \<Rightarrow> address \<Rightarrow> 'w world \<Rightarrow> i128" where
  "slack E d t s = tok_balance E t (self E) (ledger s) - liabilities d t s"

text \<open>
  The conditions on each of the maps. \<open>d\<close> is the default token. A bond is held in the default
  token, so the accounting of a bonded question needs that question to be in the default token too.
\<close>

definition questions_ok :: "(u64 \<rightharpoonup> question) \<Rightarrow> (u64 \<rightharpoonup> address) \<Rightarrow> bool" where
  "questions_ok qs toks \<longleftrightarrow> finite (dom qs)
     \<and> (\<forall>q x. qs q = Some x \<longrightarrow> 0 < q_amount x \<and> toks q = Some (q_token x))"

definition amounts_ok :: "(data_key \<rightharpoonup> i128) \<Rightarrow> bool" where
  "amounts_ok m \<longleftrightarrow> finite (dom m) \<and> (\<forall>k v. m k = Some v \<longrightarrow> 0 \<le> v)"

definition locks_ok :: "(address \<rightharpoonup> i128) \<Rightarrow> bool" where
  "locks_ok m \<longleftrightarrow> (\<forall>w v. m w = Some v \<longrightarrow> 0 \<le> v)"

definition stakes_ok :: "(data_key \<rightharpoonup> stake_info) \<Rightarrow> bool" where
  "stakes_ok m \<longleftrightarrow> finite (dom m) \<and> (\<forall>k info. m k = Some info \<longrightarrow> stake_wf info)"

definition bonds_ok :: "address \<Rightarrow> (u64 \<rightharpoonup> challenger_bond) \<Rightarrow> (u64 \<rightharpoonup> question) \<Rightarrow> bool" where
  "bonds_ok d m qs \<longleftrightarrow> finite (dom m) \<and> (\<forall>q b. m q = Some b \<longrightarrow> 0 < bond_amount b
     \<and> (\<exists>x. qs q = Some x \<and> q_token x = d \<and> q_status x = ResolvedPending))"

definition books_wf :: "address \<Rightarrow> 'w world \<Rightarrow> bool" where
  "books_wf d s \<longleftrightarrow> i_token s = Some d \<and> counter (i_pg_bps s) \<le> 10000 \<and> p_basket s = Map.empty
     \<and> questions_ok (p_question s) (p_question_token s) \<and> amounts_ok (p_owed s)
     \<and> amounts_ok (p_balance s) \<and> locks_ok (p_owed_lock s) \<and> stakes_ok (p_stake s) \<and> bonds_ok d (p_bond s) (p_question s)"

lemma finite_doms:
  "questions_ok qs toks \<Longrightarrow> finite (dom qs)" "amounts_ok m \<Longrightarrow> finite (dom m)"
  "stakes_ok m' \<Longrightarrow> finite (dom m')" "bonds_ok d b qs \<Longrightarrow> finite (dom b)"
  by (simp_all add: questions_ok_def amounts_ok_def stakes_ok_def bonds_ok_def)

lemma books_finite:
  assumes "books_wf d s"
  shows "finite (dom (p_question s))" "finite (dom (p_owed s))" "finite (dom (p_balance s))"
    "finite (dom (p_stake s))" "finite (dom (p_bond s))"
  using assms by (auto simp: books_wf_def questions_ok_def amounts_ok_def stakes_ok_def bonds_ok_def)

lemma amounts_put [simp]: "amounts_ok m \<Longrightarrow> 0 \<le> v \<Longrightarrow> amounts_ok (m(k \<mapsto> v))"
  by (simp add: amounts_ok_def)

lemma amounts_drop [simp]: "amounts_ok m \<Longrightarrow> amounts_ok (m(k := None))"
  by (simp add: amounts_ok_def)

lemma stored_nonneg [simp]: "amounts_ok m \<Longrightarrow> 0 \<le> stored_i128 m k"
  by (simp add: amounts_ok_def stored_i128_def split: option.split)

lemma locks_put [simp]: "locks_ok m \<Longrightarrow> 0 \<le> v \<Longrightarrow> locks_ok (m(k \<mapsto> v))"
  by (simp add: locks_ok_def)

lemma stored_lock_nonneg [simp]: "locks_ok m \<Longrightarrow> 0 \<le> stored_i128 m k"
  by (simp add: locks_ok_def stored_i128_def split: option.split)

lemma free_amount [simp]: "locks_ok m \<Longrightarrow> a \<le> v - stored_i128 m k \<Longrightarrow> a \<le> v"
  using stored_lock_nonneg [of m k] by linarith

lemma stakes_put [simp]: "stakes_ok m \<Longrightarrow> stake_wf v \<Longrightarrow> stakes_ok (m(k \<mapsto> v))"
  by (simp add: stakes_ok_def)

lemma stakes_drop [simp]: "stakes_ok m \<Longrightarrow> stakes_ok (m(k := None))"
  by (simp add: stakes_ok_def)

lemma stakes_wf_ok [simp]: "stakes_ok (p_stake s) \<Longrightarrow> stakes_wf s"
  by (simp add: stakes_ok_def stakes_wf_def)

lemma books_defs:
  "books_wf d s = (i_token s = Some d \<and> counter (i_pg_bps s) \<le> 10000 \<and> p_basket s = Map.empty
     \<and> questions_ok (p_question s) (p_question_token s) \<and> amounts_ok (p_owed s)
     \<and> amounts_ok (p_balance s) \<and> locks_ok (p_owed_lock s) \<and> stakes_ok (p_stake s) \<and> bonds_ok d (p_bond s) (p_question s))"
  "slack E d t s = tok_balance E t (self E) (ledger s) - liabilities d t s"
  "liabilities d t s = msum (escrowed t) (p_question s) + msum (keyed d t) (p_owed s)
     + msum (keyed d t) (p_balance s) + msum (keyed_stake d t) (p_stake s)
     + msum (bonded d t) (p_bond s)"
  by (simp_all only: books_wf_def slack_def liabilities_def)

text \<open>
  \<open>outside\<close>: those whom the contract pays without their signature are not the contract itself. Then
  every operation that only moves what the contract owes leaves the slack exactly what it was
  (\<open>keeps True\<close>); in general it does not lower it (\<open>keeps False\<close>).
\<close>

definition outside :: "('w, 'x) host_scheme \<Rightarrow> 'w world \<Rightarrow> bool" where
  "outside E s \<longleftrightarrow> i_platform s \<noteq> Some (self E) \<and> i_pg_address s \<noteq> Some (self E)
     \<and> (\<forall>q x. p_question s q = Some x \<longrightarrow> q_payer x \<noteq> self E)"

definition keeps :: "bool \<Rightarrow> ('w, 'x) host_scheme \<Rightarrow> address \<Rightarrow> 'w world \<Rightarrow> 'w world \<Rightarrow> bool" where
  "keeps ex E d s u \<longleftrightarrow> books_wf d u \<and> (\<forall>t. slack E d t s \<le> slack E d t u)
     \<and> (ex \<and> outside E s \<longrightarrow> outside E u \<and> (\<forall>t. slack E d t u = slack E d t s))"

lemma keeps_refl: "books_wf d s \<Longrightarrow> keeps ex E d s s"
  by (simp add: keeps_def)

lemma keeps_trans: "keeps ex E d s u \<Longrightarrow> keeps ex E d u v \<Longrightarrow> keeps ex E d s v"
  unfolding keeps_def by (metis order_trans)

lemma keeps_wf: "keeps ex E d s u \<Longrightarrow> books_wf d u"
  by (simp add: keeps_def)

lemma keepsI:
  assumes "books_wf d u" and "\<And>t. slack E d t s + g t = slack E d t u" and "\<And>t. 0 \<le> g t"
    and "ex \<Longrightarrow> outside E s \<Longrightarrow> outside E u \<and> (\<forall>t. g t = 0)"
  shows "keeps ex E d s u"
proof -
  have "slack E d t s \<le> slack E d t u" for t using assms(2,3) [of t] by linarith
  moreover have "slack E d t u = slack E d t s" if "ex" "outside E s" for t using assms(2) [of t] assms(4) that by simp
  ultimately show ?thesis using assms(1,4) by (simp add: keeps_def)
qed

text \<open>An honest token, and a contract that signs nothing: no transfer in comes from itself.\<close>

definition honest :: "'w env \<Rightarrow> bool" where
  "honest env \<longleftrightarrow> sep41 env \<and> \<not> authorized env (self env)"

lemma honest_transfer:
  assumes "honest env" and "tok_transfer env t f r a l = Some l'"
  shows "tok_balance env t' x l' = tok_balance env t' x l
     + (if t' = t \<and> x = r then a else 0) - (if t' = t \<and> x = f then a else 0)"
  by (rule sep41_transfer) (use assms in \<open>simp_all add: honest_def\<close>)

lemma honest_self [simp]: "honest env \<Longrightarrow> authorized env a \<Longrightarrow> (a = self env) = False"
    "honest env \<Longrightarrow> authorized env a \<Longrightarrow> (self env = a) = False"
  by (auto simp: honest_def)

section \<open>What does not touch the books\<close>

definition books ::
    "'w world \<Rightarrow> address option \<times> u32 \<times> (u64 \<rightharpoonup> question) \<times> (u64 \<rightharpoonup> address)
      \<times> (u64 \<rightharpoonup> (address \<times> i128) list) \<times> (data_key \<rightharpoonup> i128) \<times> (data_key \<rightharpoonup> i128)
      \<times> (address \<rightharpoonup> i128) \<times> (data_key \<rightharpoonup> stake_info) \<times> (u64 \<rightharpoonup> challenger_bond) \<times> 'w
      \<times> address option \<times> address option" where
  "books s = (i_token s, counter (i_pg_bps s), p_question s, p_question_token s, p_basket s, p_owed s,
     p_balance s, p_owed_lock s, p_stake s, p_bond s, ledger s, i_platform s, i_pg_address s)"

lemma same_books: "books u = books s \<Longrightarrow> books_wf d s \<Longrightarrow> keeps ex E d s u"
  by (simp add: books_def keeps_def books_defs outside_def)

lemma outside_books: "books u = books s \<Longrightarrow> outside E u = outside E s"
  by (simp add: books_def outside_def)

lemma participants_frame_books: "participants_frame s u \<Longrightarrow> books u = books s"
  unfolding participants_frame_def
  by (drule arg_cong [where f = books]) (simp add: books_def participants_erase_def)

lemma index_frame_books: "index_frame s u \<Longrightarrow> books u = books s"
  unfolding index_frame_def
  by (drule arg_cong [where f = books]) (simp add: books_def index_erase_def)

lemma slash_frame_books:
  "slash_frame s u \<Longrightarrow> books (u\<lparr>p_stake := p_stake s\<rparr>) = books s"
  unfolding slash_frame_def
  by (drule arg_cong [where f = "\<lambda>x. books (x\<lparr>p_stake := p_stake s\<rparr>)"]) (simp add: books_def)

lemma index_remove_frame: "wp (index_remove env q) (\<lambda>_ t. index_frame s t) s"
  by (simp add: index_remove_def wp_simps index_frame_def index_erase_def split: option.splits)

lemma wp_track_books: "(\<And>u. books u = books s \<Longrightarrow> Q () u) \<Longrightarrow> wp (track_participant env a) Q s"
  by (rule wp_conseq [OF track_participant_frame]) (simp add: participants_frame_books)

section \<open>Accounts\<close>

lemma stored_i128_mval: "stored_i128 m k = mval (\<lambda>_ v. v) m k"
  by (simp add: stored_i128_def mval_def)

lemma mval_keyed [simp]: "mval (keyed d t) m k = (if key_token d k = t then stored_i128 m k else 0)"
  by (simp add: mval_def keyed_def stored_i128_def split: option.split)

lemmas account_defs = put_balance_def put_owed_def put_owed_lock_def

lemma key_token_case [simp]:
  "key_token d (if t = d then KOwed w else KOwedAsset t w) = t"
  "key_token d (if t = d then KBalance w else KBalanceAsset t w) = t"
  "key_token d (if t = d then KStake w else KStakeAsset t w) = t"
  by simp_all

lemmas keep_simps = books_def keeps_def books_defs msum_update honest_transfer keyed_def finite_doms outside_def

lemma deposit_keeps:
  assumes "books_wf d s" and "honest env"
  shows "wp (deposit env p a) (\<lambda>_. keeps ex env d s) s"
  using assms
  by (clarsimp simp: deposit_def wp_simps account_defs)
    (rule wp_track_books, simp add: wp_simps keep_simps)

lemma deposit_asset_keeps:
  assumes "books_wf d s" and "honest env"
  shows "wp (deposit_asset env p t a) (\<lambda>_. keeps ex env d s) s"
  using assms
  by (clarsimp simp: deposit_asset_def wp_simps account_defs keep_simps)

lemma withdraw_balance_keeps:
  assumes "books_wf d s" and "honest env"
  shows "wp (withdraw_balance env p a) (\<lambda>_. keeps ex env d s) s"
  using assms by (clarsimp simp: withdraw_balance_def wp_simps account_defs keep_simps)

lemma withdraw_balance_asset_keeps:
  assumes "books_wf d s" and "honest env"
  shows "wp (withdraw_balance_asset env p t a) (\<lambda>_. keeps ex env d s) s"
  using assms by (clarsimp simp: withdraw_balance_asset_def wp_simps account_defs keep_simps)

lemma do_withdraw_keeps:
  assumes "books_wf d s" and "honest env" and "ex \<longrightarrow> r \<noteq> self env"
  shows "wp (do_withdraw_for_token env w r t a) (\<lambda>_. keeps ex env d s) s"
proof -
  have "locks_ok (p_owed_lock s)" using assms by (simp add: books_wf_def)
  note free = free_amount [OF this]
  have "ex \<longrightarrow> self env \<noteq> r" using assms(3) by auto
  with assms show ?thesis
    by (clarsimp simp: do_withdraw_for_token_def wp_simps account_defs keep_simps dest!: free)
qed

lemma lock_keeps:
  assumes "books_wf d s" and "honest env"
  shows "wp (lock_owed env x w a) (\<lambda>_. keeps ex env d s) s"
    and "wp (release_owed env x w a) (\<lambda>_. keeps ex env d s) s"
  using assms
  by (clarsimp simp: lock_owed_def release_owed_def wp_simps account_defs get_locked_owed_def keep_simps)+

lemma withdraw_keeps:
  assumes "books_wf d s" and "honest env"
  shows "wp (withdraw env w a) (\<lambda>_. keeps ex env d s) s"
    and "wp (withdraw_asset env w t a) (\<lambda>_. keeps ex env d s) s"
  using do_withdraw_keeps [OF assms]
  by (simp_all add: withdraw_def withdraw_asset_def do_withdraw_def wp_simps honest_self [OF assms(2)])

lemma withdraw_to_keeps:
  assumes "books_wf d s" and "honest env" and "ex \<longrightarrow> r \<noteq> self env"
  shows "wp (withdraw_to env w r a) (\<lambda>_. keeps ex env d s) s"
    and "wp (withdraw_to_asset env w r t a) (\<lambda>_. keeps ex env d s) s"
  using do_withdraw_keeps [OF assms]
  by (simp_all add: withdraw_to_def withdraw_to_asset_def do_withdraw_def wp_simps)

lemma account_books:
  "wp (set_top_up_threshold env p n) (\<lambda>_ u. books u = books s) s"
  "wp (check_top_up_threshold p) (\<lambda>_ u. books u = books s) s"
  "wp (set_lending_authority env a) (\<lambda>_ u. books u = books s) s"
  "wp (touch env p) (\<lambda>_ u. books u = books s) s"
  by (simp_all add: set_top_up_threshold_def check_top_up_threshold_def set_lending_authority_def
      touch_def touch_key_def account_defs wp_simps books_def)

section \<open>Stakes\<close>

lemma mval_keyed_stake [simp]:
  "mval (keyed_stake d t) (p_stake s) k = (if key_token d k = t then stake_total (stored_stake k s) else 0)"
  by (simp add: mval_def keyed_stake_def stored_stake_def split: option.split)

lemma stored_stake_updates [simp]:
  "stored_stake k (s\<lparr>ledger := l\<rparr>) = stored_stake k s"
  "stored_stake k (s\<lparr>events := e\<rparr>) = stored_stake k s"
  "stored_stake k (s\<lparr>ttl_log := g\<rparr>) = stored_stake k s"
  by (simp_all add: stored_stake_def)

lemma stored_stake_ok [simp]: "stakes_ok (p_stake s) \<Longrightarrow> stake_wf (stored_stake k s)"
  by (rule stored_stake_wf) simp

lemma stored_stake_put [simp]: "stored_stake k (s\<lparr>p_stake := (p_stake s)(k \<mapsto> info)\<rparr>) = info"
  by (simp add: stored_stake_def)

lemma keeps_stake:
  assumes "books_wf d s" and "stake_wf info \<and> stake_total info = v"
    and "books u = books (s\<lparr>p_stake := (p_stake s)(k \<mapsto> info), ledger := ledger u\<rparr>)"
    and "\<And>t. tok_balance E t (self E) (ledger s)
       + (if key_token d k = t then v - stake_total (stored_stake k s) else 0)
       = tok_balance E t (self E) (ledger u)"
  shows "keeps ex E d s u"
proof -
  have "slack E d t u = slack E d t s" for t
    using assms(1-3) assms(4) [of t]
    by (simp add: books_def books_defs msum_update finite_doms keyed_stake_def split: if_splits)
  then show ?thesis
    using assms(1-3) by (simp add: keeps_def books_def books_defs outside_def)
qed

lemma read_stake_ok:
  assumes "books_wf d s"
  shows "i_token s = Some d" and "stake_wf (matured n (stored_stake k s))"
  using assms by (simp_all add: books_wf_def matured_wf)

lemma stake_keeps:
  assumes "books_wf d s" and "honest env"
  shows "wp (stake env w a) (\<lambda>_. keeps ex env d s) s"
proof -
  note spec = add_warming_wf [OF read_stake_ok(2) [OF assms(1)] _ refl]
  show ?thesis
    by (clarsimp simp: stake_def wp_simps Let_def read_stake_ok(1) [OF assms(1)]; rule wp_track_books, clarsimp simp: wp_simps,
      rule keeps_stake [OF assms(1) spec], assumption, simp add: books_def,
      simp add: books_def honest_transfer [OF assms(2)] assms(2))
qed

lemma stake_asset_keeps:
  assumes "books_wf d s" and "honest env"
  shows "wp (stake_asset env w t a) (\<lambda>_. keeps ex env d s) s"
proof -
  note spec = add_warming_wf [OF read_stake_ok(2) [OF assms(1)] _ refl]
  show ?thesis
    by (cases "t = d"; clarsimp simp: stake_asset_def wp_simps Let_def read_stake_ok(1) [OF assms(1)];
      rule keeps_stake [OF assms(1) spec], assumption, simp add: books_def,
      simp add: books_def honest_transfer [OF assms(2)] assms(2))
qed

lemma begin_unstake_keeps:
  assumes "books_wf d s" and "honest env"
  shows "wp (begin_unstake env w a) (\<lambda>_. keeps ex env d s) s"
proof -
  note spec = unbond_spec [OF read_stake_ok(2) [OF assms(1)] _ _ refl refl]
  show ?thesis
    by (clarsimp simp: begin_unstake_def wp_simps Let_def read_stake_ok(1) [OF assms(1)];
      rule keeps_stake [OF assms(1) spec], assumption, assumption, simp add: books_def,
      simp add: books_def)
qed

lemma begin_unstake_asset_keeps:
  assumes "books_wf d s" and "honest env"
  shows "wp (begin_unstake_asset env w t a) (\<lambda>_. keeps ex env d s) s"
proof -
  note spec = unbond_spec [OF read_stake_ok(2) [OF assms(1)] _ _ refl refl]
  show ?thesis
    by (cases "t = d"; clarsimp simp: begin_unstake_asset_def wp_simps Let_def read_stake_ok(1) [OF assms(1)];
      rule keeps_stake [OF assms(1) spec], assumption, assumption, simp add: books_def,
      simp add: books_def)
qed

lemma complete_unstake_keeps:
  assumes "books_wf d s" and "honest env"
  shows "wp (complete_unstake env w) (\<lambda>_. keeps ex env d s) s"
proof -
  note spec = claim_wf [OF read_stake_ok(2) [OF assms(1)]]
  show ?thesis
    by (clarsimp simp: complete_unstake_def wp_simps Let_def read_stake_ok(1) [OF assms(1)];
      rule keeps_stake [OF assms(1) spec], simp add: books_def,
      simp add: books_def honest_transfer [OF assms(2)] assms(2))
qed

lemma complete_unstake_asset_keeps:
  assumes "books_wf d s" and "honest env"
  shows "wp (complete_unstake_asset env w t) (\<lambda>_. keeps ex env d s) s"
proof -
  note spec = claim_wf [OF read_stake_ok(2) [OF assms(1)]]
  show ?thesis
    by (cases "t = d"; clarsimp simp: complete_unstake_asset_def wp_simps Let_def read_stake_ok(1) [OF assms(1)];
      rule keeps_stake [OF assms(1) spec], simp add: books_def,
      simp add: books_def honest_transfer [OF assms(2)] assms(2))
qed

section \<open>Questions\<close>

lemma questions_put [simp]:
  "questions_ok qs toks \<Longrightarrow> 0 < q_amount x \<Longrightarrow> t = q_token x
     \<Longrightarrow> questions_ok (qs(q \<mapsto> x)) (toks(q \<mapsto> t))"
  by (simp add: questions_ok_def)

lemma questions_same [simp]:
  "questions_ok qs toks \<Longrightarrow> qs q = Some x \<Longrightarrow> q_token y = q_token x \<Longrightarrow> 0 < q_amount y
     \<Longrightarrow> questions_ok (qs(q \<mapsto> y)) toks"
  by (simp add: questions_ok_def)

lemma bonds_ok_question [simp]:
  "bonds_ok d b qs \<Longrightarrow> qs q = None \<or> (\<exists>x. qs q = Some x \<and> q_status x \<noteq> ResolvedPending)
     \<Longrightarrow> bonds_ok d b (qs(q \<mapsto> y))"
proof -
  assume ok: "bonds_ok d b qs" and q: "qs q = None \<or> (\<exists>x. qs q = Some x \<and> q_status x \<noteq> ResolvedPending)"
  then have "b q = None" unfolding bonds_ok_def by (metis option.collapse option.discI option.inject)
  with ok show ?thesis unfolding bonds_ok_def by (metis fun_upd_other option.discI)
qed

lemma question_read:
  "questions_ok qs toks \<Longrightarrow> qs q = Some x \<Longrightarrow> 0 < q_amount x \<and> toks q = Some (q_token x)"
  by (simp add: questions_ok_def)

lemma mval_escrowed:
  "m q = None \<Longrightarrow> mval (escrowed t) m q = 0"
  "m q = Some x \<Longrightarrow> mval (escrowed t) m q = escrowed t q x"
  by (simp_all add: mval_def)

text \<open>A new question enters the books with its escrow.\<close>

lemma keeps_opened:
  assumes "books_wf d s" and "0 < q_amount x" and "p_question s q = None \<or> \<not> open_status (q_status (the (p_question s q)))"
    and "open_status (q_status x)"
    and "books u = books (s\<lparr>p_question := (p_question s)(q \<mapsto> x), p_question_token := toks,
           p_balance := p_balance u, ledger := ledger u\<rparr>)"
    and "questions_ok ((p_question s)(q \<mapsto> x)) toks" and "amounts_ok (p_balance u)"
    and "\<And>t. tok_balance E t (self E) (ledger s) - msum (keyed d t) (p_balance s)
       + (if q_token x = t then q_amount x else 0)
       = tok_balance E t (self E) (ledger u) - msum (keyed d t) (p_balance u)"
    and "ex \<longrightarrow> q_payer x \<noteq> self E"
  shows "keeps ex E d s u"
proof -
  have fin: "finite (dom (p_question s))" using assms(1) by (simp add: books_wf_def questions_ok_def)
  have old: "mval (escrowed t) (p_question s) q = 0" for t
    using assms(3) by (auto simp: mval_def escrowed_def split: option.split)
  have "slack E d t u = slack E d t s" for t
    using assms(4,5) assms(8) [of t]
    by (simp add: books_def books_defs msum_update fin old escrowed_def split: if_splits)
  moreover have "p_question s q = None \<or> (\<exists>y. p_question s q = Some y \<and> q_status y \<noteq> ResolvedPending)"
    using assms(3) by (cases "p_question s q") auto
  moreover have "outside E u" if "ex" "outside E s"
    using assms(5,9) that by (simp add: outside_def books_def)
  ultimately show ?thesis
    using assms(1,5,6,7) by (simp add: keeps_def books_def books_defs)
qed

lemma wp_record_question:
  assumes "\<And>u. p_question s q = None \<Longrightarrow>
      books u = books (s\<lparr>p_question := (p_question s)(q \<mapsto> x),
        p_question_token := (p_question_token s)(q \<mapsto> t)\<rparr>) \<Longrightarrow> Q () u"
  shows "wp (record_question env q t x) Q s"
  using assms
  by (simp add: record_question_def index_add_def bump_opened_def put_question_def wp_simps books_def)

lemma wp_open_question:
  assumes "\<And>u n. p_question s q = None \<Longrightarrow>
      books u = books (s\<lparr>p_question := (p_question s)(q \<mapsto> \<lparr>q_payer = p, q_amount = a,
          q_status = Pending, q_created_at = now env, q_timeout_ledgers = n, q_token = t\<rparr>),
        p_question_token := (p_question_token s)(q \<mapsto> t)\<rparr>) \<Longrightarrow> Q () u"
  shows "wp (open_question env p q a t h c) Q s"
  unfolding open_question_def
  apply (clarsimp simp: wp_simps)
  apply (rule wp_record_question)
  apply (auto simp: put_schema_hash_def count_category_def wp_simps books_def intro!: assms split: option.splits)
  done

lemma opened_with:
  assumes "books_wf d s" and "honest env" and "authorized env p" and "0 < a"
    and "tok_transfer env t p (self env) a (ledger s) = Some l"
  shows "wp (open_question env p q a t h c) (\<lambda>_. keeps ex env d s) (s\<lparr>ledger := l\<rparr>)"
  using assms(1)
  by (intro wp_open_question keeps_opened [where q = q])
    (auto simp: books_def books_wf_def assms(3,4) honest_transfer [OF assms(2,5)] honest_self [OF assms(2)])

lemma submit_keeps:
  assumes "books_wf d s" and "honest env"
  shows "wp (submit env p q a) (\<lambda>_. keeps ex env d s) s"
    and "wp (submit_with_schema_hash env p q a h) (\<lambda>_. keeps ex env d s) s"
    and "wp (submit_with_category env p q a c) (\<lambda>_. keeps ex env d s) s"
    and "wp (submit_asset env p t q a) (\<lambda>_. keeps ex env d s) s"
  using opened_with [OF assms]
  by (simp_all add: submit_def submit_with_schema_hash_def submit_with_category_def
      submit_asset_def wp_simps)

lemma charged_with:
  assumes "books_wf d s" and "ex \<longrightarrow> p \<noteq> self E" and "key_token d k = t" and "0 < a" and "a \<le> stored_i128 (p_balance s) k"
    and "books v = books (s\<lparr>p_balance := (p_balance s)(k \<mapsto> stored_i128 (p_balance s) k - a)\<rparr>)"
  shows "wp (open_question env p q a t h c) (\<lambda>_. keeps ex E d s) v"
proof (rule wp_open_question)
  fix u n
  define x where "x = \<lparr>q_payer = p, q_amount = a, q_status = Pending, q_created_at = now env, q_timeout_ledgers = n, q_token = t\<rparr>"
  assume new: "p_question v q = None" and u: "books u = books (v\<lparr>p_question := (p_question v)(q \<mapsto> \<lparr>q_payer = p, q_amount = a,
      q_status = Pending, q_created_at = now env, q_timeout_ledgers = n, q_token = t\<rparr>),
      p_question_token := (p_question_token v)(q \<mapsto> t)\<rparr>)"
  have u: "books u = books (s\<lparr>p_question := (p_question s)(q \<mapsto> x), p_question_token := (p_question_token s)(q \<mapsto> t),
      p_balance := (p_balance s)(k \<mapsto> stored_i128 (p_balance s) k - a)\<rparr>)" and new: "p_question s q = None"
    using u new assms(6) by (simp_all add: books_def x_def)
  have wf: "questions_ok (p_question s) (p_question_token s)" "amounts_ok (p_balance s)"
    using assms(1) by (simp_all add: books_wf_def)
  have bal: "p_balance u = (p_balance s)(k \<mapsto> stored_i128 (p_balance s) k - a)" "ledger u = ledger s"
    using u by (simp_all add: books_def)
  show "keeps ex E d s u"
  proof (rule keeps_opened [OF assms(1), where q = q and x = x])
    show "books u = books (s\<lparr>p_question := (p_question s)(q \<mapsto> x), p_question_token := (p_question_token s)(q \<mapsto> t),
        p_balance := p_balance u, ledger := ledger u\<rparr>)" using u by (simp add: books_def)
    show "tok_balance E t' (self E) (ledger s) - msum (keyed d t') (p_balance s) + (if q_token x = t' then q_amount x else 0)
        = tok_balance E t' (self E) (ledger u) - msum (keyed d t') (p_balance u)" for t'
      using assms(3) by (simp add: bal x_def msum_update books_finite [OF assms(1)]) (simp add: keyed_def)
    show "questions_ok ((p_question s)(q \<mapsto> x)) ((p_question_token s)(q \<mapsto> t))"
      using wf(1) assms(4) by (simp add: x_def)
  qed (use assms(2,4,5) wf new in \<open>simp_all add: x_def bal\<close>)
qed

lemma charge_for_token_keeps:
  assumes "books_wf d s" and "ex \<longrightarrow> p \<noteq> self E"
  shows "wp (charge_for_token env p q a t) (\<lambda>_. keeps ex E d s) s"
  by (cases "t = d"; clarsimp simp: charge_for_token_def wp_simps account_defs read_stake_ok(1) [OF assms(1)];
      rule charged_with [OF assms]; simp add: books_def)

lemma charge_keeps:
  assumes "books_wf d s" and "ex \<longrightarrow> p \<noteq> self E"
  shows "wp (charge env p q a) (\<lambda>_. keeps ex E d s) s"
    and "wp (charge_asset env p t q a) (\<lambda>_. keeps ex E d s) s"
  using charge_for_token_keeps [OF assms] by (simp_all add: charge_def charge_asset_def wp_simps)

section \<open>Leaving Pending\<close>

lemma wp_settle_question:
  assumes "\<And>u. books u = books (s\<lparr>p_question := (p_question s)(q \<mapsto> x\<lparr>q_status := st\<rparr>)\<rparr>) \<Longrightarrow> Q () u"
  shows "wp (settle_question env q x st) Q s"
proof -
  let ?s1 = "s\<lparr>p_question := (p_question s)(q \<mapsto> x\<lparr>q_status := st\<rparr>), ttl_log := ttl_log s @
        [(now env, TtlKey (KQuestion q), PERSISTENT_TTL_THRESHOLD, PERSISTENT_TTL_EXTEND_TO)]\<rparr>"
  have "wp (index_remove env q) (\<lambda>_ u. books u = books ?s1) ?s1"
    by (rule wp_conseq [OF index_remove_frame]) (rule index_frame_books)
  then show ?thesis
    by (simp add: settle_question_def wp_simps, elim wp_conseq, simp add: wp_simps)
      (rule assms, simp add: books_def count_settled_def split: status.split)
qed

text \<open>What a question pays when it closes: its escrow leaves the books.\<close>

lemma slack_closed:
  assumes "books_wf d s" and "p_question s q = Some x" and "open_status (q_status x)"
    and "\<not> open_status st"
    and "p_question u = (p_question s)(q \<mapsto> x\<lparr>q_status := st\<rparr>)"
  shows "msum (escrowed t) (p_question u) = msum (escrowed t) (p_question s)
     - (if q_token x = t then q_amount x else 0)"
  using assms by (simp add: msum_update books_finite [OF assms(1)] escrowed_def)

lemma keeps_closed:
  assumes "books_wf d s" and "p_question s q = Some x" and "open_status (q_status x)"
    and "q_status x \<noteq> ResolvedPending" and "\<not> open_status st"
    and "books u = books (s\<lparr>p_question := (p_question s)(q \<mapsto> x\<lparr>q_status := st\<rparr>), ledger := ledger u\<rparr>)"
    and "\<And>t. tok_balance E t (self E) (ledger u) = tok_balance E t (self E) (ledger s)
       - (if q_token x = t then q_amount x else 0) + g t" and "\<And>t. 0 \<le> g t" and "ex \<Longrightarrow> q_payer x \<noteq> self E \<Longrightarrow> \<forall>t. g t = 0"
  shows "keeps ex E d s u"
proof (rule keepsI [where g = g])
  show "slack E d t s + g t = slack E d t u" for t
    using slack_closed [OF assms(1-3,5), of u t] assms(6) assms(7) [of t]
    by (simp add: books_def slack_def liabilities_def)
  show "outside E u \<and> (\<forall>t. g t = 0)" if "ex" "outside E s"
    using that assms(2,6,9) by (auto simp: outside_def books_def)
  have "questions_ok ((p_question s)(q \<mapsto> x\<lparr>q_status := st\<rparr>)) (p_question_token s)"
    using assms(1,2) question_read [of "p_question s" "p_question_token s" q x]
    by (simp add: books_wf_def questions_same [where x = x])
  then show "books_wf d u"
    using assms(1,2,4,6) by (simp add: books_def books_defs)
qed (rule assms(8))

lemma books_question:
  assumes "books_wf d s" and "p_question s q = Some x"
  shows "0 < q_amount x" and "p_question_token s q = Some (q_token x)" and "p_basket s = Map.empty"
  using assms by (auto simp: books_wf_def questions_ok_def)

lemma do_refund_keeps:
  assumes "books_wf d s" and "honest env"
  shows "wp (do_refund env q b) (\<lambda>_. keeps ex env d s) s"
proof -
  have bk: "p_basket s = Map.empty" using assms(1) by (simp add: books_wf_def)
  show ?thesis
    by (clarsimp simp: do_refund_def question_legs_def refund_leg_def wp_simps bk books_question [OF assms(1)],
        rule wp_settle_question, clarsimp simp: wp_simps,
        rule keeps_closed [OF assms(1), where q = q and g = "\<lambda>t. if t = q_token x \<and> q_payer x = self env then q_amount x else 0" for x])
      (auto simp: books_def honest_transfer [OF assms(2)] books_question(1) [OF assms(1), THEN less_imp_le])
qed

lemma try_refund_keeps:
  assumes "books_wf d s" and "honest env"
  shows "wp (try_refund_timeout env q) (\<lambda>_. keeps ex env d s) s"
  using do_refund_keeps [OF assms] by (simp add: try_refund_timeout_def wp_simps)

lemma refund_keeps:
  assumes "books_wf d s" and "honest env"
  shows "wp (refund env q) (\<lambda>_. keeps ex env d s) s"
    and "wp (refund_timeout env q) (\<lambda>_. keeps ex env d s) s"
  using do_refund_keeps [OF assms] try_refund_keeps [OF assms]
  by (simp_all add: refund_def refund_timeout_def wp_simps)

text \<open>A timeout refund that returns an error has changed nothing, so a sweep may go on.\<close>

lemma sure_settle_question [clean_intros]: "sure (settle_question env q x st)"
  unfolding settle_question_def index_remove_def by (intro clean_intros)

lemma refund_legs_clean:
  "clean (and_then (question_legs q a) (\<lambda>legs. for_each legs (refund_leg env q p b)))"
proof (rule clean_and_then)
  show "reads (question_legs q a)" unfolding question_legs_def by (intro clean_intros)
  show "clean (for_each legs (refund_leg env q p b))" for legs
    unfolding refund_leg_def by (intro sure_clean clean_intros)
qed

lemma do_refund_clean: "clean (do_refund env q b)"
  unfolding do_refund_def
  by (rule clean_and_then, rule clean_intros, rule block_clean(5), rule clean_intros, rule clean_block_tail,
      rule clean_and_then, rule clean_intros, rule refund_legs_clean, intro clean_intros)

lemma try_refund_clean: "clean (try_refund_timeout env q)"
  unfolding try_refund_timeout_def
  by (rule clean_and_then, rule clean_intros, intro block_clean(5) clean_block_tail)
    (intro clean_intros do_refund_clean)+

lemma wp_keeps_trans:
  assumes "keeps ex E d s t" and "wp m (\<lambda>a u. keeps ex E d t u \<and> P a u) t"
  shows "wp m (\<lambda>a u. keeps ex E d s u \<and> P a u) t"
  by (rule wp_conseq [OF assms(2)]) (blast intro: keeps_trans [OF assms(1)])

lemma sweep_keeps:
  assumes "books_wf d s" and "honest env"
  shows "wp (sweep_timeouts env ids) (\<lambda>_. keeps ex env d s) s"
  using assms(1)
proof (induction ids arbitrary: s)
  case Nil
  then show ?case by (simp add: wp_simps keeps_refl)
next
  case (Cons q ids)
  have rest: "wp (sweep_timeouts env ids) (\<lambda>_. keeps ex env d s) u" if "keeps ex env d s u" for u
    by (rule wp_conseq [OF Cons.IH]) (use that in \<open>auto simp: keeps_def intro: order_trans\<close>)
  show ?case
  proof (cases "try_refund_timeout env q s")
    case (Ok a u)
    then have "keeps ex env d s u" using try_refund_keeps [OF Cons.prems assms(2), of q] by (simp add: wp_def)
    then show ?thesis using Ok rest by (simp add: wp_simps)
  next
    case (Fail e u)
    then have "u = s" using try_refund_clean [of env q] unfolding clean_def by blast
    then show ?thesis using Fail rest [OF keeps_refl [OF Cons.prems]] by (simp add: wp_simps)
  qed (simp add: wp_simps)
qed

section \<open>Reopening and the multi-step settlements\<close>

lemma reopen_keeps:
  assumes "books_wf d s" and "honest env"
  shows "wp (reopen_question env p q a) (\<lambda>_. keeps ex env d s) s"
proof -
  have wf: "questions_ok (p_question s) (p_question_token s)" "amounts_ok (p_balance s)"
    using assms(1) by (simp_all add: books_wf_def)
  show ?thesis
    apply (clarsimp simp: reopen_question_def index_add_def bump_opened_def store_question_def put_question_def wp_simps)
    apply (rule keeps_opened [OF assms(1), where q = q])
    apply (auto simp: books_def honest_transfer [OF assms(2)] honest_self [OF assms(2)] wf questions_same [OF wf(1)])
    done
qed

text \<open>A change of status between open statuses moves nothing.\<close>

lemma keeps_status:
  assumes "books_wf d s" and "p_question s q = Some x" and "open_status (q_status x)"
    and "q_status x \<noteq> ResolvedPending" and "open_status st"
    and "books u = books (s\<lparr>p_question := (p_question s)(q \<mapsto> x\<lparr>q_status := st\<rparr>)\<rparr>)"
  shows "keeps ex E d s u"
proof -
  have "msum (escrowed t) (p_question u) = msum (escrowed t) (p_question s)" for t
    using assms by (simp add: books_def msum_update books_finite [OF assms(1)] escrowed_def)
  then have "slack E d t u = slack E d t s" for t
    using assms(6) by (simp add: books_def slack_def liabilities_def)
  moreover have "outside E u" if "outside E s"
    using that assms(2,6) by (auto simp: outside_def books_def)
  moreover have "questions_ok ((p_question s)(q \<mapsto> x\<lparr>q_status := st\<rparr>)) (p_question_token s)"
    using assms(1,2) books_question(1) [OF assms(1,2)] by (simp add: books_wf_def questions_same [where x = x])
  ultimately show ?thesis
    using assms(1,2,4,6) by (simp add: keeps_def books_def books_defs)
qed

lemma escalate_keeps:
  assumes "books_wf d s"
  shows "wp (escalate env q ws ls) (\<lambda>_. keeps ex env d s) s"
  apply (clarsimp simp: escalate_def validate_worker_lists_def put_escalated_def store_question_def put_question_def wp_simps)
  apply (rule keeps_status [OF assms, where q = q])
  apply (auto simp: books_def)
  done

lemma check_lists_wp [wp_simps]:
  "wp (check_lists ws ls) Q s = (ws \<noteq> [] \<and> quorum_size ws ls \<le> MAX_QUORUM_SIZE
     \<and> fst (get_quorum_bounds s) \<le> quorum_size ws ls \<and> quorum_size ws ls \<le> snd (get_quorum_bounds s)
     \<and> first_list_valid ws ls \<and> first_list_valid ls [] \<longrightarrow> Q () s)"
  by (auto simp: check_lists_def check_quorum_bounds_def validate_worker_lists_def wp_simps
      split: prod.split)

lemma load_resolution_wp [wp_simps]:
  "wp (load_resolution q) Q s = (\<forall>r. p_pending_resolution s q = Some r \<longrightarrow> Q r s)"
  by (simp add: load_resolution_def wp_simps)

lemma resolve_challengeable_keeps:
  assumes "books_wf d s"
  shows "wp (resolve_challengeable env q ws ls n) (\<lambda>_. keeps ex env d s) s"
  apply (clarsimp simp: resolve_challengeable_def put_resolution_def store_question_def put_question_def Let_def wp_simps)
  apply (rule keeps_status [OF assms, where q = q])
  apply (auto simp: books_def)
  done

lemma dispute_resolve_books: "wp (dispute_resolve env q) (\<lambda>_ u. books u = books s) s"
  by (simp add: dispute_resolve_def put_resolution_def wp_simps books_def)

text \<open>A bond enters the books in the default token; the question must be in it too.\<close>

lemma post_challenge_bond_keeps:
  assumes "books_wf d s" and "honest env" and "\<And>x. p_question s q = Some x \<Longrightarrow> q_token x = d"
  shows "wp (post_challenge_bond env c q a) (\<lambda>_. keeps ex env d s) s"
proof -
  have ok: "bonds_ok d (p_bond s) (p_question s)" "i_token s = Some d" using assms(1) by (simp_all add: books_wf_def)
  have new: "bonds_ok d ((p_bond s)(q \<mapsto> b)) (p_question s)"
    if "p_question s q = Some x" "q_status x = ResolvedPending" "0 < bond_amount b" for x b
    using that ok assms(3) by (auto simp: bonds_ok_def)
  show ?thesis
    using assms(1)
    by (clarsimp simp: post_challenge_bond_def put_bond_def wp_simps ok keeps_def outside_def books_defs msum_update
        books_finite [OF assms(1)] bonded_def honest_transfer [OF assms(2)] honest_self [OF assms(2)] new)
qed

end
