(* ===== verification/Payouts.thy ===== *)
theory Payouts
  imports Custody
begin

text \<open>
  The accounting of a settlement. \<open>gains E d t v s u\<close>: from \<open>s\<close> to \<open>u\<close> the slack of token \<open>t\<close> rose
  by at least \<open>v\<close> and no other slack fell; by exactly \<open>v\<close>, and no other slack moved, when those the
  contract pays are not itself (\<open>outside\<close>). A slash gains what it took, a credit and a transfer lose
  what they paid, closing the question gains its escrow; the parts of a settlement sum to zero.
\<close>

definition gains ::
    "('w, 'x) host_scheme \<Rightarrow> address \<Rightarrow> address \<Rightarrow> i128 \<Rightarrow> 'w world \<Rightarrow> 'w world \<Rightarrow> bool" where
  "gains E d tok v s u \<longleftrightarrow> books_wf d u \<and> p_question u = p_question s \<and> dom (p_bond u) \<subseteq> dom (p_bond s)
     \<and> p_question_token u = p_question_token s \<and> i_platform u = i_platform s \<and> i_pg_address u = i_pg_address s
     \<and> (\<forall>t. slack E d t s + (if t = tok then v else 0) \<le> slack E d t u)
     \<and> (outside E s \<longrightarrow> (\<forall>t. slack E d t u = slack E d t s + (if t = tok then v else 0)))"

lemma gains_outside: "gains E d tok v s u \<Longrightarrow> outside E u = outside E s"
  by (simp add: gains_def outside_def)

text \<open>A step that moves exactly \<open>v\<close>, up to \<open>g\<close> paid to the contract itself.\<close>

lemma gainsI:
  assumes "books_wf d u" and "p_question u = p_question s" and "dom (p_bond u) \<subseteq> dom (p_bond s)"
    and "p_question_token u = p_question_token s" and "i_platform u = i_platform s" and "i_pg_address u = i_pg_address s"
    and "\<And>t. slack E d t u = slack E d t s + (if t = tok then v else 0)"
  shows "gains E d tok v s u"
  using assms by (simp add: gains_def)

lemma gains_refl [simp]: "books_wf d s \<Longrightarrow> gains E d tok 0 s s"
  by (simp add: gains_def)

lemma gains_trans: "gains E d tok v s t \<Longrightarrow> gains E d tok w t u \<Longrightarrow> gains E d tok (v + w) s u"
proof -
  assume a: "gains E d tok v s t" and b: "gains E d tok w t u"
  have "slack E d x s + (if x = tok then v + w else 0) \<le> slack E d x u" for x
    using a b unfolding gains_def by (cases "x = tok") (fastforce dest: spec [where x = x])+
  moreover have "slack E d x u = slack E d x s + (if x = tok then v + w else 0)" if "outside E s" for x
    using a b gains_outside [OF a] that unfolding gains_def by simp
  moreover have "dom (p_bond u) \<subseteq> dom (p_bond s)"
    using a b unfolding gains_def by (meson order_trans)
  ultimately show ?thesis using a b by (simp add: gains_def)
qed

lemma gains_sum:
  "gains E d tok v s t \<Longrightarrow> gains E d tok w t u \<Longrightarrow> x = v + w \<Longrightarrow> gains E d tok x s u"
  by (simp add: gains_trans)

lemma gains_no_bond: "gains E d tok v s t \<Longrightarrow> p_bond s q = None \<Longrightarrow> p_bond t q = None"
  unfolding gains_def by blast

lemma gains_eq: "gains E d tok v s u \<Longrightarrow> v = w \<Longrightarrow> gains E d tok w s u"
  by simp

lemma gains_wf: "gains E d tok v s u \<Longrightarrow> books_wf d u"
  by (simp add: gains_def)

lemma gains_books: "books u = books s \<Longrightarrow> books_wf d s \<Longrightarrow> gains E d tok 0 s u"
  by (rule gainsI) (simp_all add: books_def books_defs)

lemma gains_keeps: "gains E d tok 0 s u \<Longrightarrow> keeps ex E d s u"
  using gains_outside [of E d tok 0 s u] by (simp add: gains_def keeps_def)

lemma gains_after: "gains E d tok v s t \<Longrightarrow> books u = books t \<Longrightarrow> gains E d tok v s u"
  using gains_trans [OF _ gains_books, of E d tok v s t u] gains_wf by fastforce

lemma wp_gains:
  assumes "gains E d tok v s t" and "wp m (\<lambda>a u. gains E d tok w t u \<and> P a u) t"
  shows "wp m (\<lambda>a u. gains E d tok (v + w) s u \<and> P a u) t"
  by (rule wp_conseq [OF assms(2)]) (auto intro: gains_trans [OF assms(1)])

section \<open>Slashes\<close>

lemma gains_stake:
  assumes "books_wf d s" and "stake_wf info \<and> stake_total info = stake_total (stored_stake k s) - v"
    and "key_token d k = tok"
    and "books u = books (s\<lparr>p_stake := (p_stake s)(k \<mapsto> info)\<rparr>)"
  shows "gains E d tok v s u"
  using assms
  by (auto simp: gains_def books_def books_defs msum_update finite_doms keyed_stake_def)

lemma slash_gains:
  assumes "books_wf d s"
  shows "wp (slash env tok w cap) (\<lambda>v u. gains env d tok v s u \<and> 0 \<le> v) s"
proof -
  define key where "key = (if tok = d then KStake w else KStakeAsset tok w)"
  define info where "info = matured (now env) (stored_stake key s)"
  have wf: "stake_wf info" and tot: "stake_total info = stake_total (stored_stake key s)"
    using read_stake_ok(2) [OF assms] by (simp_all add: info_def)
  have key: "stake_key tok w s = Ok key s" "key_token d key = tok"
    using read_stake_ok(1) [OF assms] by (simp_all add: stake_key_run key_def)
  have read: "stake_info_for_token env tok w s = (if mature_fits (now env) (stored_stake key s) then Ok info s else Trap)"
    using read_stake_ok(1) [OF assms] by (simp add: stake_info_for_token_run Let_def key_def info_def)
  have put: "wp (seq_do (put_stake env key (slash_buckets info a)) (ret a))
      (\<lambda>v u. gains env d tok v s u \<and> 0 \<le> v) s" if "0 < a" "a \<le> stake_total info" for a
    using slash_buckets_spec [OF wf _ that(2)] that(1) tot
    by (simp add: wp_simps, intro gains_stake [where k = key and info = "slash_buckets info a", OF assms])
      (simp_all add: books_def key)
  define a where "a = min (min (mul_bps_val (stake_total info) SLASH_BPS) cap) (stake_total info)"
  have "a \<le> stake_total info" by (simp add: a_def)
  with put show ?thesis
    by (auto simp: slash_def wp_simps key read assms stake_total_def [symmetric] Let_def a_def [symmetric])
qed

text \<open>What \<open>distribute_slashes\<close> has accumulated: all of it is either the platform's or the workers'.\<close>

definition slashes_ok :: "('w, 'x) host_scheme \<Rightarrow> address \<Rightarrow> address \<Rightarrow> i128 \<Rightarrow> 'w world
    \<Rightarrow> i128 \<times> i128 \<times> i128 \<Rightarrow> 'w world \<Rightarrow> bool" where
  "slashes_ok E d tok n s acc u = (case acc of (platform_take, redist, total_slashed) \<Rightarrow>
     gains E d tok total_slashed s u \<and> total_slashed = platform_take + redist * n
     \<and> 0 \<le> platform_take \<and> 0 \<le> redist)"

lemma slash_split:
  fixes slashed n :: int
  assumes "0 \<le> slashed" and "0 < n" and "p = mul_bps_val slashed SLASH_REDISTRIBUTE_BPS"
  shows "0 \<le> p sdiv n" and "0 \<le> p - p sdiv n * n" and "0 \<le> slashed - p"
proof -
  have p: "0 \<le> p" "p \<le> slashed"
    using assms by (simp_all add: mul_bps_le SLASH_REDISTRIBUTE_BPS_def)
  then show "0 \<le> p sdiv n" "0 \<le> p - p sdiv n * n" "0 \<le> slashed - p"
    using assms(2) by (simp_all add: sdiv_nonneg pos_imp_zdiv_nonneg_iff minus_div_mult_eq_mod)
qed

lemma slash_loser_ok:
  assumes "slashes_ok env d tok n s acc t" and "0 < n"
  shows "wp (slash_loser env q tok cap n l acc) (slashes_ok env d tok n s) t"
proof -
  obtain a b c where acc: "acc = (a, b, c)" by (cases acc)
  have g: "gains env d tok c s t" and sum: "c = a + b * n" "0 \<le> a" "0 \<le> b"
    using assms(1) unfolding slashes_ok_def acc prod.case by blast+
  note t = gains_wf [OF g] g
  have part: "slashes_ok env d tok n s
      (a + (v - p sdiv n * n), b + p sdiv n, c + v) (u\<lparr>events := e\<rparr>)"
    if "gains env d tok v t u" "0 < v" "p = mul_bps_val v SLASH_REDISTRIBUTE_BPS" for v p u e
  proof -
    have "gains env d tok (c + v) s u" using gains_trans [OF t(2) that(1)] .
    then have "gains env d tok (c + v) s (u\<lparr>events := e\<rparr>)"
      by (rule gains_after) (simp add: books_def)
    then show ?thesis
      using slash_split [OF _ assms(2) that(3)] that(2) sum by (simp add: slashes_ok_def algebra_simps)
  qed
  have none: "slashes_ok env d tok n s (a, b, c) u" if "gains env d tok v t u" "0 \<le> v" "\<not> 0 < v" for v u
  proof -
    have "v = 0" using that by simp
    then show ?thesis using gains_trans [OF t(2) that(1)] sum by (simp add: slashes_ok_def)
  qed
  show ?thesis
    unfolding acc slash_loser_def prod.case wp_and_then
    by (rule wp_conseq [OF slash_gains [OF t(1)]])
      (auto simp: wp_simps Let_def intro: part none)
qed

lemma distribute_slashes_ok:
  assumes "books_wf d s" and "0 < n"
  shows "wp (distribute_slashes env q tok ls cap n) (slashes_ok env d tok n s) s"
  unfolding distribute_slashes_def
  by (rule wp_fold_prog_list [where I = "\<lambda>_. slashes_ok env d tok n s"])
    (use assms in \<open>simp_all add: slashes_ok_def [of env d tok n s "(0, 0, 0)"] slash_loser_ok\<close>)

section \<open>Credits\<close>

lemma gains_owed:
  assumes "books_wf d s" and "0 \<le> v" and "key_token d k = tok"
    and "books u = books (s\<lparr>p_owed := (p_owed s)(k \<mapsto> stored_i128 (p_owed s) k + v)\<rparr>)"
  shows "gains E d tok (- v) s u"
  using assms
  by (auto simp: gains_def books_def books_defs msum_update finite_doms keyed_def)

lemma credit_worker_gains:
  assumes "books_wf d s" and "0 \<le> v"
  shows "wp (credit_worker env q tok v w) (\<lambda>_. gains env d tok (- v) s) s"
proof -
  define key where "key = (if tok = d then KOwed w else KOwedAsset tok w)"
  have key: "key_token d key = tok" "owed_key tok w t = Ok key t" if "i_token t = i_token s" for t
    using read_stake_ok(1) [OF assms(1)] that
    by (simp_all add: key_def owed_key_def and_then_def get_token_cfg_def gets_def ok_or_def ret_def)
  note put = gains_owed [OF assms key(1) [OF refl], where E = env]
  show ?thesis
    by (simp add: credit_worker_def credit_owed_def wp_and_then wp_seq_do wp_block_Cons)
      (auto simp: wp_def [of "owed_key _ _"] key wp_simps account_defs intro!: wp_track_books put simp: books_def)
qed

lemma wp_for_each_gains:
  assumes "books_wf d s" and "\<And>x t. books_wf d t \<Longrightarrow> wp (f x) (\<lambda>_. gains E d tok v t) t"
  shows "wp (for_each xs f) (\<lambda>_. gains E d tok (int (length xs) * v) s) s"
  using assms(1)
proof (induction xs arbitrary: s)
  case Nil
  then show ?case by (simp add: wp_simps)
next
  case (Cons x xs)
  show ?case
    unfolding for_each.simps wp_seq_do
  proof (rule wp_conseq [OF assms(2) [OF Cons.prems]])
    fix a t
    assume t: "gains E d tok v s t"
    show "wp (for_each xs f) (\<lambda>_. gains E d tok (int (length (x # xs)) * v) s) t"
      by (rule wp_conseq [OF Cons.IH [OF gains_wf [OF t]]], erule gains_sum [OF t])
        (simp add: algebra_simps)
  qed
qed

lemma record_resolved_books: "wp (record_resolved_credit env w) (\<lambda>_ u. books u = books s) s"
  by (simp add: record_resolved_credit_def update_leaderboard_def wp_simps books_def)

lemma pay_worker_gains:
  assumes "books_wf d s" and "0 \<le> v"
  shows "wp (pay_worker env q tok v w) (\<lambda>_. gains env d tok (- v) s) s"
  unfolding pay_worker_def wp_block_Cons
  by (rule wp_conseq [OF credit_worker_gains [OF assms]], rule wp_conseq [OF record_resolved_books])
    (simp add: wp_simps gains_after)

section \<open>The platform's take\<close>

lemma transfer_gains:
  assumes "books_wf d s" and "honest env" and "0 \<le> a" and "outside env s \<longrightarrow> r \<noteq> self env"
  shows "wp (transfer env tok (self env) r a) (\<lambda>_. gains env d tok (- a) s) s"
  using assms by (auto simp: wp_simps gains_def books_defs honest_transfer)

lemma transfer_if_positive_gains:
  assumes "books_wf d s" and "honest env" and "0 \<le> a" and "outside env s \<longrightarrow> r \<noteq> self env"
  shows "wp (transfer_if_positive env tok r a) (\<lambda>_. gains env d tok (- a) s) s"
  using transfer_gains [OF assms] assms by (simp add: transfer_if_positive_def wp_ret)

lemma route_gains:
  assumes "books_wf d s" and "honest env" and "0 \<le> a" and "i_platform s = Some r"
  shows "wp (route_platform_take env tok r a) (\<lambda>_. gains env d tok (- a) s) s"
proof -
  have out: "outside env s \<longrightarrow> r \<noteq> self env" "i_pg_address s = Some x \<Longrightarrow> outside env s \<longrightarrow> x \<noteq> self env" for x
    using assms(4) by (auto simp: outside_def)
  note whole = transfer_gains [OF assms(1-3) out(1)]
  define g where "g = mul_bps_val a (int (counter (i_pg_bps s)))"
  have g: "0 \<le> g" "g \<le> a"
    using assms(1,3) by (simp_all add: g_def mul_bps_le books_wf_def)
  have split: "wp (block [transfer_if_positive env tok x g, transfer_if_positive env tok r (a - g)])
      (\<lambda>_. gains env d tok (- a) s) s" if "i_pg_address s = Some x" for x
    unfolding wp_block_Cons
  proof (rule wp_conseq [OF transfer_if_positive_gains [OF assms(1,2) g(1) out(2) [OF that]]])
    fix c t
    assume t: "gains env d tok (- g) s t"
    show "wp (transfer_if_positive env tok r (a - g)) (\<lambda>_. wp (block []) (\<lambda>_. gains env d tok (- a) s)) t"
      by (rule wp_conseq [OF transfer_if_positive_gains [OF gains_wf [OF t] assms(2)]])
        (use g out(1) gains_outside [OF t] in \<open>auto simp: wp_simps intro: gains_sum [OF t]\<close>)
  qed
  show ?thesis
    using whole split assms
    by (simp add: route_platform_take_def wp_and_then wp_gets wp_mul_bps wp_ret g_def [symmetric]
        split: option.split)
qed

section \<open>Whole settlements\<close>

lemma split_amount_run:
  assumes "0 \<le> a" and "i128_range a" and "0 < n" and "fee = a * 2000 div 10000"
  shows "split_amount a n s = Ok (fee, (a - fee) div n, (a - fee) mod n) s"
proof -
  have fee: "mul_bps a PLATFORM_FEE_BPS t = Ok fee t" for t
    using assms mul_bps_fits_dom [of a 2000]
    by (simp add: mul_bps_run PLATFORM_FEE_BPS_def mul_bps_exact)
  have "0 \<le> fee" "fee \<le> a" using assms mul_bps_le [of a 2000] by (simp_all add: mul_bps_exact)
  then have pool: "0 \<le> a - fee" "i128_range (a - fee)"
    using i128_rangeI [of "a - fee" a] assms(2) by simp_all
  moreover have "0 \<le> (a - fee) mod n" "(a - fee) mod n \<le> a - fee" "0 \<le> (a - fee) div n * n"
      "(a - fee) div n * n + (a - fee) mod n = a - fee"
    using pool assms(3) by (simp_all add: zmod_le_nonneg_dividend pos_imp_zdiv_nonneg_iff)
  ultimately have "i128_range ((a - fee) div n * n)" "i128_range ((a - fee) mod n)"
    using i128_rangeI [of "(a - fee) div n * n" "a - fee"] i128_rangeI [of "(a - fee) mod n" "a - fee"]
    by linarith+
  with pool assms(3) show ?thesis
    by (simp add: split_amount_def and_then_def seq_do_def fee chk_def ret_def trap_unless_def
        sdiv_nonneg minus_div_mult_eq_mod Let_def)
qed

lemma wp_split_amount:
  assumes "0 \<le> a" and "0 < n"
    and "\<And>fee share dust. fee + share * n + dust = a \<Longrightarrow> 0 \<le> fee \<Longrightarrow> 0 \<le> share \<Longrightarrow> 0 \<le> dust
      \<Longrightarrow> Q (fee, share, dust) s"
  shows "wp (split_amount a n) Q s"
proof -
  let ?fee = "mul_bps_val a PLATFORM_FEE_BPS"
  have fee: "0 \<le> ?fee" "?fee \<le> a" using assms(1) by (simp_all add: PLATFORM_FEE_BPS_def mul_bps_le)
  then have "0 \<le> (a - ?fee) sdiv n" "0 \<le> (a - ?fee) - (a - ?fee) sdiv n * n"
    using assms(2) by (simp_all add: sdiv_nonneg pos_imp_zdiv_nonneg_iff minus_div_mult_eq_mod)
  then show ?thesis
    using fee assms(3) by (simp add: split_amount_def wp_simps Let_def)
qed

text \<open>
  The part every settlement starts with: what it charges, shares and slashes adds up to the
  question's amount and the slashed stakes, to the last unit.
\<close>

lemma payout_gains:
  assumes "books_wf d s" and "0 \<le> a" and "0 < n"
  shows "wp (payout env q tok a n ls) (\<lambda>r t. case r of (fee, tot, ptake, credit) \<Rightarrow>
     gains env d tok tot s t \<and> 0 \<le> credit \<and> 0 \<le> ptake \<and> tot + a = n * credit + ptake) s"
proof -
  have rest: "wp (and_then (distribute_slashes env q tok ls cap n)
      (\<lambda>(x, y, tot). and_then (chk (fee + dust)) (\<lambda>fee_dust.
       and_then (ok_or (checked_add fee_dust x) ArithmeticOverflow) (\<lambda>ptake.
       and_then (ok_or (checked_add share y) ArithmeticOverflow) (\<lambda>credit.
         ret (fee, tot, ptake, credit))))))
     (\<lambda>r t. case r of (fee, tot, ptake, credit) \<Rightarrow>
       gains env d tok tot s t \<and> 0 \<le> credit \<and> 0 \<le> ptake \<and> tot + a = n * credit + ptake) s"
    if "fee + share * n + dust = a" "0 \<le> fee" "0 \<le> share" "0 \<le> dust" for fee share dust cap
    unfolding wp_and_then
    by (rule wp_conseq [OF distribute_slashes_ok [OF assms(1,3)]])
      (use that in \<open>auto simp: slashes_ok_def wp_simps algebra_simps\<close>)
  show ?thesis
    unfolding payout_def wp_and_then [of "split_amount a n"]
    by (rule wp_split_amount [OF assms(2,3)], unfold prod.case wp_and_then [of "mul_bps _ _"] wp_mul_bps)
      (intro impI, rule rest)
qed

text \<open>Crediting every worker and paying the platform loses exactly what was charged.\<close>

lemma pay_and_route:
  assumes "gains env d tok tot s t" and "honest env" and "0 \<le> credit" and "0 \<le> ptake" and "i_platform s = Some plat"
    and "\<And>w u. books_wf d u \<Longrightarrow> wp (f w) (\<lambda>_. gains env d tok (- credit) u) u"
    and "\<And>u. gains env d tok (tot - int (length ws) * credit - ptake) s u \<Longrightarrow> wp (block rest) Q u"
  shows "wp (block (for_each ws f # route_platform_take env tok plat ptake # rest)) Q t"
  unfolding wp_block_Cons
proof (rule wp_conseq [OF wp_for_each_gains [OF gains_wf [OF assms(1)] assms(6)]], assumption)
  fix c u
  assume u: "gains env d tok (int (length ws) * - credit) t u"
  have plat: "i_platform u = Some plat" using assms(1,5) u by (simp add: gains_def)
  show "wp (route_platform_take env tok plat ptake) (\<lambda>_. wp (block rest) Q) u"
    by (rule wp_conseq [OF route_gains [OF gains_wf [OF u] assms(2,4) plat]])
      (rule assms(7), auto intro: gains_sum [OF gains_trans [OF assms(1) u]])
qed

lemma settle_asset_gains:
  assumes "books_wf d s" and "honest env" and "0 \<le> a" and "ws \<noteq> []" and "i_platform s = Some plat"
  shows "wp (settle_asset env q tok a ws ls plat) (\<lambda>_. gains env d tok (- a) s) s"
proof -
  have n: "0 < int (length ws)" using assms(4) by simp
  show ?thesis
    unfolding settle_asset_def wp_and_then
  proof (rule wp_conseq [OF payout_gains [OF assms(1,3) n]], clarsimp simp: wp_seq_do simp del: block.simps)
    fix fee tot ptake credit t
    assume "gains env d tok tot s t" "0 \<le> credit" "0 \<le> ptake"
      and eq: "tot + a = int (length ws) * credit + ptake"
    then show "wp (block [for_each ws (credit_worker env q tok credit), route_platform_take env tok plat ptake])
        (\<lambda>_. wp (ret (fee, tot)) (\<lambda>_. gains env d tok (- a) s)) t"
      by (intro pay_and_route [OF _ assms(2) _ _ assms(5) credit_worker_gains])
        (use eq in \<open>auto simp: wp_simps elim!: gains_eq\<close>)
  qed
qed

text \<open>Closing the question after it has been paid for.\<close>

lemma keeps_settled:
  assumes "gains E d tok (- q_amount x) s t" and "books_wf d s" and "p_question s q = Some x"
    and "q_token x = tok" and "open_status (q_status x)" and "\<not> open_status st" and "p_bond t q = None"
    and "books u = books (t\<lparr>p_question := (p_question t)(q \<mapsto> x\<lparr>q_status := st\<rparr>)\<rparr>)"
  shows "keeps ex E d s u"
proof -
  have t: "books_wf d t" "p_question t = p_question s" using assms(1) by (simp_all add: gains_def)
  then have x: "p_question t q = Some x" using assms(3) by simp
  have moved: "slack E d y u = slack E d y t + (if y = tok then q_amount x else 0)" for y
    using slack_closed [OF t(1) x assms(5,6), of u y] assms(4,8)
    by (auto simp: books_def slack_def liabilities_def)
  have "slack E d y s \<le> slack E d y u" for y
    using assms(1) unfolding moved by (auto simp: gains_def dest: spec [where x = y] split: if_splits)
  moreover have "slack E d y u = slack E d y s" if "outside E s" for y
    using assms(1) that unfolding moved by (auto simp: gains_def)
  moreover have "outside E u" if "outside E s"
    using that assms(1,3,8) by (auto simp: gains_def outside_def books_def)
  moreover have "questions_ok ((p_question t)(q \<mapsto> x\<lparr>q_status := st\<rparr>)) (p_question_token t)"
    using t(1) x books_question(1) [OF t(1) x] by (simp add: books_wf_def questions_same [where x = x])
  moreover have "bonds_ok d (p_bond t) ((p_question t)(q \<mapsto> x\<lparr>q_status := st\<rparr>))"
    using t(1) assms(7) unfolding books_wf_def bonds_ok_def by (metis fun_upd_apply option.discI)
  ultimately show ?thesis
    using t(1) assms(8) by (simp add: keeps_def books_def books_defs)
qed

lemma no_bond:
  "books_wf d s \<Longrightarrow> p_question s q = Some x \<Longrightarrow> q_status x \<noteq> ResolvedPending \<Longrightarrow> p_bond s q = None"
  unfolding books_wf_def bonds_ok_def by (metis not_None_eq option.inject)

lemma record_all_books: "wp (for_each ws (record_resolved_credit env)) (\<lambda>_ u. books u = books s) s"
  by (rule wp_for_each) (auto intro: wp_conseq [OF record_resolved_books])

lemma notarize_books: "wp (block [notarize q h, publish e]) (\<lambda>_ u. books u = books s) s"
  by (cases h) (simp_all add: notarize_def wp_simps books_def)

lemma close_keeps:
  assumes "gains E d tok (- q_amount x) s t" and "books_wf d s" and "p_question s q = Some x"
    and "q_token x = tok" and "open_status (q_status x)" and "\<not> open_status st" and "p_bond t q = None"
    and "\<And>u. wp (block rest) (\<lambda>_ v. books v = books u) u"
  shows "wp (block (settle_question env q x st # rest)) (\<lambda>_. keeps ex E d s) t"
  unfolding wp_block_Cons
proof (rule wp_settle_question)
  fix u
  assume u: "books u = books (t\<lparr>p_question := (p_question t)(q \<mapsto> x\<lparr>q_status := st\<rparr>)\<rparr>)"
  show "wp (block rest) (\<lambda>_. keeps ex E d s) u"
    by (rule wp_conseq [OF assms(8)]) (rule keeps_settled [OF assms(1-7)], simp add: u)
qed

lemma settle_resolution_keeps:
  assumes "books_wf d s" and "honest env"
  shows "wp (settle_resolution env q ws ls h) (\<lambda>_. keeps ex env d s) s"
proof -
  have closed: "wp (for_each ws (record_resolved_credit env)) (\<lambda>_. wp (block
      [settle_question env q x Resolved, notarize q h, publish e]) (\<lambda>_. keeps ex env d s)) t"
    if "gains env d (q_token x) (- q_amount x) s t" "p_question s q = Some x" "q_status x = Pending" for t e x
  proof (rule wp_conseq [OF record_all_books], rule close_keeps [OF _ assms(1) that(2) refl _ _ _ notarize_books])
    fix u assume u: "books u = books t"
    show "gains env d (q_token x) (- q_amount x) s u" using that(1) u by (rule gains_after)
    show "p_bond u q = None"
      using gains_no_bond [OF that(1) no_bond [OF assms(1) that(2)]] that(3) u by (simp add: books_def)
  qed (simp_all add: that)
  have pays: "wp (settle_asset env q tok (q_amount x) ws ls plat) (\<lambda>_. gains env d tok (- q_amount x) s) s"
    if "p_question s q = Some x" "ws \<noteq> []" "i_platform s = Some plat" for x tok plat
    by (rule settle_asset_gains [OF assms]) (use books_question(1) [OF assms(1) that(1)] that(2,3) in simp_all)
  show ?thesis
    unfolding settle_resolution_def
    by (clarsimp simp: wp_simps books_question [OF assms(1)] Let_def settle_leg_def simp del: block.simps,
        rule wp_conseq [OF pays], assumption, assumption, assumption)
      (clarsimp simp: wp_simps closed simp del: block.simps)
qed

lemma resolve_keeps:
  assumes "books_wf d s" and "honest env"
  shows "wp (resolve env q ws ls h) (\<lambda>_. keeps ex env d s) s"
  using settle_resolution_keeps [OF assms] by (simp add: resolve_def wp_simps)

lemma sort_answer_books:
  assumes "books t = books s"
  shows "wp (sort_answer q dis e acc) (\<lambda>_ u. books u = books s) t"
  using assms by (cases acc) (simp add: sort_answer_def wp_simps books_def split: prod.split)

lemma resolve_by_consensus_keeps:
  assumes "books_wf d s" and "honest env"
  shows "wp (resolve_by_consensus env q answers) (\<lambda>_. keeps ex env d s) s"
proof -
  have sorted: "wp (fold_prog (sort_answer q dis) es ([], [])) (\<lambda>_ u. books u = books s) s" for dis es
    by (rule wp_fold_prog_list [where I = "\<lambda>_ _ u. books u = books s"]) (simp_all add: sort_answer_books)
  have rest: "wp (settle_resolution env q ws ls None) (\<lambda>_. keeps ex env d s) u" if "books u = books s" for u ws ls
  proof -
    have u: "keeps ex env d s u" using same_books [OF that assms(1)] .
    then have "books_wf d u" by (rule keeps_wf)
    then show ?thesis
      by (rule wp_conseq [OF settle_resolution_keeps [OF _ assms(2)]]) (rule keeps_trans [OF u])
  qed
  have tail: "wp (and_then (fold_prog (sort_answer q dis) es ([], [])) (\<lambda>(ws, ls).
      settle_resolution env q ws ls None)) (\<lambda>_. keeps ex env d s) s" for dis es
    unfolding wp_and_then by (rule wp_conseq [OF sorted]) (simp add: rest split: prod.split)
  show ?thesis
    unfolding resolve_by_consensus_def
    by (cases "unanimous_dissenter (map consensus_hash answers)") (simp_all add: wp_simps tail [unfolded wp_and_then] )
qed

lemma escalate_resolve_keeps:
  assumes "books_wf d s" and "honest env"
  shows "wp (escalate_resolve env q ws ls) (\<lambda>_. keeps ex env d s) s"
proof -
  have closed: "wp (block [if b then drop_escalated q else ret (), settle_question env q x Resolved,
      publish e, publish e']) (\<lambda>_. keeps ex env d s) t"
    if "gains env d (q_token x) v s t" "v = - q_amount x" "p_question s q = Some x" "q_status x = Disputed"
    for b t v e e' x
    unfolding wp_block_Cons [of "if _ then _ else _"]
  proof (rule wp_conseq [where P = "\<lambda>_ u. books u = books t"])
    show "wp (if b then drop_escalated q else ret ()) (\<lambda>_ u. books u = books t) t"
      by (simp add: drop_escalated_def wp_simps books_def)
    fix u assume u: "books u = books t"
    show "wp (block [settle_question env q x Resolved, publish e, publish e']) (\<lambda>_. keeps ex env d s) u"
    proof (rule close_keeps [OF _ assms(1) that(3) refl])
      show "gains env d (q_token x) (- q_amount x) s u" using gains_after [OF that(1) u] that(2) by simp
      show "p_bond u q = None"
        using gains_no_bond [OF that(1) no_bond [OF assms(1) that(3)]] that(4) u by (simp add: books_def)
    qed (simp_all add: that wp_simps books_def)
  qed
  have body: "wp (case r of (fee, tot, ptake, credit) \<Rightarrow> block [
      for_each ws (pay_worker env q (q_token x) credit), route_platform_take env (q_token x) plat ptake,
      if b then drop_escalated q else ret (), settle_question env q x Resolved,
      publish (e fee tot), publish e']) (\<lambda>_. keeps ex env d s) t"
    if "case r of (fee, tot, ptake, credit) \<Rightarrow> gains env d (q_token x) tot s t \<and> 0 \<le> credit \<and> 0 \<le> ptake
        \<and> tot + q_amount x = int (length ws) * credit + ptake"
      "p_question s q = Some x" "q_status x = Disputed" "i_platform s = Some plat" for r x plat b e e' t
  proof -
    obtain fee tot ptake credit where r: "r = (fee, tot, ptake, credit)" by (cases r)
    show ?thesis
      using that(1) unfolding r prod.case
      by (intro pay_and_route [OF _ assms(2) _ _ that(4) pay_worker_gains] closed [OF _ _ that(2,3)]) (auto elim!: gains_eq)
  qed
  show ?thesis
    unfolding escalate_resolve_def
    by (clarsimp simp: wp_simps books_question [OF assms(1)] simp del: block.simps split del: if_split,
        rule wp_conseq [OF payout_gains [OF assms(1)] body])
      (simp_all add: books_question(1) [OF assms(1), THEN less_imp_le])
qed

text \<open>A bond is settled in the same way: it leaves the books and joins what the platform gets.\<close>

lemma forfeit_gains:
  assumes "gains E d (q_token x) v s t" and "p_question s q = Some x"
  shows "wp (forfeit_bond q ptake) (\<lambda>r u. gains E d (q_token x) (v + snd r) s u \<and> p_bond u q = None
     \<and> fst r = ptake + snd r \<and> 0 \<le> snd r) t"
proof -
  have t: "books_wf d t" "p_question t q = Some x" using assms by (simp_all add: gains_def)
  have drop: "gains E d (q_token x) (bond_amount b) t u"
    if "p_bond t q = Some b" "books u = books (t\<lparr>p_bond := (p_bond t)(q := None)\<rparr>)" for b u
  proof -
    have "q_token x = d"
      using t that(1) unfolding books_wf_def bonds_ok_def by (metis option.inject)
    moreover have "bonds_ok d ((p_bond t)(q := None)) (p_question t)"
      using t(1) by (auto simp: books_wf_def bonds_ok_def)
    ultimately show ?thesis
      using t(1) that
      by (intro gainsI) (auto simp: books_def books_defs msum_delete books_finite [OF t(1)] bonded_def)
  qed
  have pos: "p_bond t q = Some b \<Longrightarrow> 0 < bond_amount b" for b
    using t(1) by (auto simp: books_wf_def bonds_ok_def)
  show ?thesis
    using assms(1)
    by (auto simp: forfeit_bond_def drop_bond_def wp_simps books_def pos less_imp_le split: option.split
        intro!: gains_trans [OF assms(1) drop])
qed

lemma finalize_resolve_keeps:
  assumes "books_wf d s" and "honest env"
    and "\<And>r. p_pending_resolution s q = Some r \<Longrightarrow> res_workers r \<noteq> []"
  shows "wp (finalize_resolve env q) (\<lambda>_. keeps ex env d s) s"
proof -
  have closed: "wp (block [drop_resolution q, settle_question env q x Resolved, publish e]) (\<lambda>_. keeps ex env d s) t"
    if "gains env d (q_token x) (- q_amount x) s t" "p_question s q = Some x" "q_status x = ResolvedPending"
      "p_bond t q = None" for t e x
    unfolding wp_block_Cons [of "drop_resolution _"]
  proof (rule wp_conseq [where P = "\<lambda>_ u. books u = books t"])
    show "wp (drop_resolution q) (\<lambda>_ u. books u = books t) t"
      by (simp add: drop_resolution_def wp_simps books_def)
    fix u assume u: "books u = books t"
    show "wp (block [settle_question env q x Resolved, publish e]) (\<lambda>_. keeps ex env d s) u"
      by (rule close_keeps [OF gains_after [OF that(1) u] assms(1) that(2) refl])
        (use that u in \<open>simp_all add: wp_simps books_def\<close>)
  qed
  have tail: "wp (case p of (final_take, forfeited) \<Rightarrow> block [
      route_platform_take env (q_token x) plat final_take, drop_resolution q,
      settle_question env q x Resolved, publish (e forfeited)]) (\<lambda>_. keeps ex env d s) t"
    if "gains env d (q_token x) (v + snd p) s t \<and> p_bond t q = None \<and> fst p = ptake + snd p \<and> 0 \<le> snd p"
      "v - ptake = - q_amount x" "0 \<le> ptake" "p_question s q = Some x" "q_status x = ResolvedPending"
      "i_platform s = Some plat"
    for p t v ptake x plat e
  proof -
    obtain f b where p: "p = (f, b)" by (cases p)
    have g: "gains env d (q_token x) (v + b) s t" and f: "f = ptake + b" "0 \<le> f"
      using that(1,3) by (simp_all add: p)
    have plat: "i_platform t = Some plat" using g that(6) by (simp add: gains_def)
    show ?thesis
      unfolding p prod.case wp_block_Cons [of "route_platform_take _ _ _ _"]
    proof (rule wp_conseq [OF route_gains [OF gains_wf [OF g] assms(2) f(2) plat]], rule closed [OF _ that(4,5)])
      fix u assume u: "gains env d (q_token x) (- f) t u"
      show "gains env d (q_token x) (- q_amount x) s u"
        by (rule gains_sum [OF g u]) (use f that(2) in simp)
      show "p_bond u q = None" using gains_no_bond [OF u] that(1) by simp
    qed
  qed
  have body: "wp (case r of (fee, tot, ptake, credit) \<Rightarrow>
      seq_do (for_each ws (pay_worker env q (q_token x) credit))
       (and_then (forfeit_bond q ptake) (\<lambda>(final_take, forfeited). block [
          route_platform_take env (q_token x) plat final_take, drop_resolution q,
          settle_question env q x Resolved, publish (e fee tot forfeited)]))) (\<lambda>_. keeps ex env d s) t"
    if "case r of (fee, tot, ptake, credit) \<Rightarrow> gains env d (q_token x) tot s t \<and> 0 \<le> credit \<and> 0 \<le> ptake
        \<and> tot + q_amount x = int (length ws) * credit + ptake"
      "p_question s q = Some x" "q_status x = ResolvedPending" "i_platform s = Some plat" for r x plat e t ws
  proof -
    obtain fee tot ptake credit where r: "r = (fee, tot, ptake, credit)" by (cases r)
    have g: "gains env d (q_token x) tot s t" and pos: "0 \<le> credit" "0 \<le> ptake"
      and eq: "tot + q_amount x = int (length ws) * credit + ptake"
      using that(1) by (simp_all add: r)
    show ?thesis
      unfolding r prod.case wp_seq_do wp_and_then
    proof (rule wp_conseq [OF wp_for_each_gains [OF gains_wf [OF g] pay_worker_gains [OF _ pos(1)]]], assumption)
      fix c u assume u: "gains env d (q_token x) (int (length ws) * - credit) t u"
      show "wp (forfeit_bond q ptake) (\<lambda>p. wp (case p of (final_take, forfeited) \<Rightarrow> block [
          route_platform_take env (q_token x) plat final_take, drop_resolution q,
          settle_question env q x Resolved, publish (e fee tot forfeited)]) (\<lambda>_. keeps ex env d s)) u"
        by (rule wp_conseq [OF forfeit_gains [OF gains_trans [OF g u] that(2)] tail [OF _ _ pos(2) that(2-4)]])
          (use eq in auto)
    qed
  qed
  show ?thesis
    unfolding finalize_resolve_def
    by (clarsimp simp: wp_simps books_question [OF assms(1)] Let_def simp del: block.simps split del: if_split,
        rule wp_conseq [OF payout_gains [OF assms(1)] body])
      (simp_all add: books_question(1) [OF assms(1), THEN less_imp_le] assms(3))
qed

section \<open>Migration\<close>

text \<open>
  The host lets the target take out of this contract what the source authorized for the call,
  and nothing else.
\<close>

definition peer_bounded :: "('w, 'x) host_scheme \<Rightarrow> 'w peer \<Rightarrow> bool" where
  "peer_bounded E p \<longleftrightarrow>
     (\<forall>tok q r a c n l l'. peer_import_question p (self E) tok q r a c n l = Some l' \<longrightarrow>
        (\<forall>t. tok_balance E t (self E) l - (if t = tok then a else 0) \<le> tok_balance E t (self E) l')) \<and>
     (\<forall>tok w a b c l l'. peer_import_balances p (self E) tok w a b c l = Some l' \<longrightarrow>
        (\<forall>t. tok_balance E t (self E) l - (if t = tok then a + b + c else 0) \<le> tok_balance E t (self E) l'))"

lemma peer_boundedD:
  assumes "peer_bounded E p"
  shows "peer_import_question p (self E) tok q r a c n l = Some l' \<Longrightarrow>
      \<forall>t. tok_balance E t (self E) l \<le> tok_balance E t (self E) l' + (if t = tok then a else 0)"
    and "peer_import_balances p (self E) tok w a b e l = Some l' \<Longrightarrow>
      \<forall>t. tok_balance E t (self E) l \<le> tok_balance E t (self E) l' + (if t = tok then a + b + e else 0)"
  using assms unfolding peer_bounded_def by (simp_all add: diff_le_eq)

lemma wp_call_peer [wp_simps]:
  "wp (call_peer f) Q s = (\<forall>l. f (ledger s) = Some l \<longrightarrow> Q () (s\<lparr>ledger := l\<rparr>))"
  by (simp add: call_peer_def wp_def split: option.split)

lemma wp_fold_keeps:
  assumes "books_wf d s" and "\<And>x a t. books_wf d t \<Longrightarrow> wp (f x a) (\<lambda>_. keeps ex E d t) t"
  shows "wp (fold_prog f xs a) (\<lambda>_. keeps ex E d s) s"
proof (rule wp_fold_prog_list [where I = "\<lambda>_ _. keeps ex E d s"])
  fix x a t assume t: "keeps ex E d s t"
  then have "books_wf d t" by (simp add: keeps_def)
  then show "wp (f x a) (\<lambda>_. keeps ex E d s) t"
    by (rule wp_conseq [OF assms(2)]) (rule keeps_trans [OF t])
qed (simp add: keeps_refl assms(1))

lemma migrate_one_keeps:
  assumes "books_wf d s" and "peer_bounded env (peers target)"
  shows "wp (migrate_one env peers target q n) (\<lambda>_. keeps False env d s) s"
proof -
  have "keeps False env d s (v\<lparr>ledger := l, events := e\<rparr>)"
    if "p_question s q = Some x" "q_status x = Pending"
      "peer_import_question (peers target) (self env) (q_token x) q (q_payer x) (q_amount x)
        (q_created_at x) (q_timeout_ledgers x) (ledger v) = Some l"
      "books v = books (s\<lparr>p_question := (p_question s)(q \<mapsto> x\<lparr>q_status := Migrated\<rparr>)\<rparr>)" for x v l e
  proof (rule keeps_closed [OF assms(1) that(1), where g = "\<lambda>t. tok_balance env t (self env) l
        - (tok_balance env t (self env) (ledger s) - (if q_token x = t then q_amount x else 0))"])
    fix t
    have "ledger v = ledger s" using that(4) by (simp add: books_def)
    then show "0 \<le> tok_balance env t (self env) l
        - (tok_balance env t (self env) (ledger s) - (if q_token x = t then q_amount x else 0))"
      using spec [OF peer_boundedD(1) [OF assms(2) that(3)], of t] by auto
  qed (use that in \<open>simp_all add: books_def\<close>)
  then show ?thesis
    by (clarsimp simp: migrate_one_def wp_simps books_question [OF assms(1)])
      (rule wp_settle_question, clarsimp simp: wp_simps)
qed

lemma migrate_pending_keeps:
  assumes "books_wf d s" and "peer_bounded env (peers target)"
  shows "wp (migrate_pending env peers ids target) (\<lambda>_. keeps False env d s) s"
  using wp_fold_keeps [where f = "migrate_one env peers target", OF assms(1) migrate_one_keeps
    [where peers = peers and target = target, OF _ assms(2)]]
  by (simp add: migrate_pending_def wp_simps)

lemma import_question_keeps:
  assumes "books_wf d s" and "honest env" and "ex \<longrightarrow> p \<noteq> self env"
  shows "wp (import_question env src t q p a c n) (\<lambda>_. keeps ex env d s) s"
proof -
  have "wp (record_question env q t \<lparr>q_payer = p, q_amount = a, q_status = Pending, q_created_at = c,
      q_timeout_ledgers = n, q_token = t\<rparr>) (\<lambda>_. keeps ex env d s) (s\<lparr>ledger := l\<rparr>)"
    if "authorized env src" "0 < a" "tok_transfer env t src (self env) a (ledger s) = Some l" for l
    using assms(1)
    by (intro wp_record_question keeps_opened [where q = q])
      (auto simp: books_def books_wf_def that(1,2) honest_transfer [OF assms(2) that(3)] honest_self [OF assms(2)] assms(3))
  then show ?thesis
    by (auto simp: import_question_def require_migration_source_def require_allowed_token_def
        get_token_cfg_def attempt_def wp_simps and_then_def gets_def ok_or_def ensure_def ret_def fail_def
        split: outcome.split option.split)
qed

text \<open>What \<open>migrate_balances\<close> removes is what it hands over.\<close>

lemma wp_removes [wp_simps]:
  "wp (if b then remove_stake k else ret ()) Q s
     = Q () (s\<lparr>p_stake := if b then (p_stake s)(k := None) else p_stake s\<rparr>)"
  "wp (if b then remove_owed k else ret ()) Q s
     = Q () (s\<lparr>p_owed := if b then (p_owed s)(k := None) else p_owed s\<rparr>)"
  "wp (if b then remove_balance k else ret ()) Q s
     = Q () (s\<lparr>p_balance := if b then (p_balance s)(k := None) else p_balance s\<rparr>)"
  by (simp_all add: remove_stake_def remove_owed_def remove_balance_def wp_simps)

lemma msum_removed:
  assumes "books_wf d s"
  shows "v = stake_total (stored_stake k s) \<Longrightarrow>
      msum (keyed_stake d t) (if 0 < v then (p_stake s)(k := None) else p_stake s)
        = msum (keyed_stake d t) (p_stake s) - (if key_token d k = t then v else 0)"
    and "a = stored_i128 (p_owed s) k' \<Longrightarrow>
      msum (keyed d t) (if 0 < a then (p_owed s)(k' := None) else p_owed s)
        = msum (keyed d t) (p_owed s) - (if key_token d k' = t then a else 0)"
    and "b = stored_i128 (p_balance s) k'' \<Longrightarrow>
      msum (keyed d t) (if 0 < b then (p_balance s)(k'' := None) else p_balance s)
        = msum (keyed d t) (p_balance s) - (if key_token d k'' = t then b else 0)"
proof -
  have "0 \<le> stake_total (stored_stake k s)" "0 \<le> stored_i128 (p_owed s) k'" "0 \<le> stored_i128 (p_balance s) k''"
    using assms by (simp_all add: books_wf_def stake_total_nonneg)
  then show "v = stake_total (stored_stake k s) \<Longrightarrow>
      msum (keyed_stake d t) (if 0 < v then (p_stake s)(k := None) else p_stake s)
        = msum (keyed_stake d t) (p_stake s) - (if key_token d k = t then v else 0)"
    and "a = stored_i128 (p_owed s) k' \<Longrightarrow>
      msum (keyed d t) (if 0 < a then (p_owed s)(k' := None) else p_owed s)
        = msum (keyed d t) (p_owed s) - (if key_token d k' = t then a else 0)"
    and "b = stored_i128 (p_balance s) k'' \<Longrightarrow>
      msum (keyed d t) (if 0 < b then (p_balance s)(k'' := None) else p_balance s)
        = msum (keyed d t) (p_balance s) - (if key_token d k'' = t then b else 0)"
    by (auto simp: msum_delete books_finite [OF assms])
qed

lemma keeps_drained:
  assumes "books_wf d s" and "key_token d k = tok" "key_token d k' = tok" "key_token d k'' = tok"
    and "v = stake_total (stored_stake k s)" "a = stored_i128 (p_owed s) k'" "b = stored_i128 (p_balance s) k''"
    and "books u = books (s\<lparr>p_stake := if 0 < v then (p_stake s)(k := None) else p_stake s,
         p_owed := if 0 < a then (p_owed s)(k' := None) else p_owed s,
         p_balance := if 0 < b then (p_balance s)(k'' := None) else p_balance s, ledger := ledger u\<rparr>)"
    and "\<forall>t. tok_balance E t (self E) (ledger s)
         \<le> tok_balance E t (self E) (ledger u) + (if t = tok then v + a + b else 0)"
  shows "keeps False E d s u"
proof -
  note m = msum_removed(1) [OF assms(1,5)] msum_removed(2) [OF assms(1,6)] msum_removed(3) [OF assms(1,7)]
  have "slack E d t s \<le> slack E d t u" for t
    using spec [OF assms(9), of t] assms(8)
    by (simp add: books_def slack_def liabilities_def m assms(2-4) split del: if_split) (auto split: if_splits)
  moreover have "books_wf d u"
    using assms(1,8) by (simp add: books_def books_wf_def)
  ultimately show ?thesis by (simp add: keeps_def)
qed

lemma migrate_account_keeps:
  assumes "books_wf d s" and "peer_bounded env (peers target)"
  shows "wp (migrate_account env peers target tok w n) (\<lambda>_. keeps False env d s) s"
proof -
  have moved: "keeps False env d s (s\<lparr>p_stake := if 0 < v then (p_stake s)(k := None) else p_stake s,
         p_owed := if 0 < a then (p_owed s)(k' := None) else p_owed s,
         p_balance := if 0 < b then (p_balance s)(k'' := None) else p_balance s, ledger := l, events := e\<rparr>)"
    if "key_token d k = tok" "key_token d k' = tok" "key_token d k'' = tok"
      "peer_import_balances (peers target) (self env) tok w v a b (ledger s) = Some l"
      "v = stake_total (stored_stake k s)" "a = stored_i128 (p_owed s) k'" "b = stored_i128 (p_balance s) k''"
    for k k' k'' v a b l e
    by (rule keeps_drained [OF assms(1) that(1-3,5-7)])
      (use peer_boundedD(2) [OF assms(2) that(4)] in \<open>simp_all add: books_def\<close>)
  have same: "keeps False env d s (s\<lparr>events := e\<rparr>)" for e
    by (rule same_books [OF _ assms(1)]) (simp add: books_def)
  have hand_over: "wp (if 0 < v + a + b then seq_do (block [
         if 0 < v then remove_stake k else ret (), if 0 < a then remove_owed k' else ret (),
         if 0 < b then remove_balance k'' else ret (),
         call_peer (peer_import_balances (peers target) (self env) tok w v a b)])
       (ok_or (checked_add n (v + a + b)) ArithmeticOverflow) else ret n)
     (\<lambda>m. wp (seq_do (publish e) (ret m)) (\<lambda>_. keeps False env d s)) s"
    if "key_token d k = tok" "key_token d k' = tok" "key_token d k'' = tok"
      "v = stake_total (stored_stake k s)" "a = stored_i128 (p_owed s) k'" "b = stored_i128 (p_balance s) k''"
    for k k' k'' v a b e
    by (split if_split, intro conjI impI, unfold wp_seq_do wp_block_Cons wp_block_Nil wp_removes wp_ret wp_publish)
      (auto simp: wp_call_peer wp_ok_or wp_publish wp_ret intro!: moved [OF that(1-3) _ that(4-6)] same
        cong: if_cong split del: if_split)
  show ?thesis
    unfolding migrate_account_def wp_and_then wp_stake_key wp_owed_key wp_balance_key wp_gets wp_chk
      sum_balances_def wp_ok_or checked_add_Some read_stake_ok(1) [OF assms(1)] option.inject
    by (intro allI impI, elim conjE, hypsubst, rule hand_over)
      (simp_all add: stake_total_def)
qed

lemma migrate_balances_keeps:
  assumes "books_wf d s" and "peer_bounded env (peers target)"
  shows "wp (migrate_balances env peers ws toks target) (\<lambda>_. keeps False env d s) s"
proof -
  have one: "wp (migrate_token env peers ws target t n) (\<lambda>_. keeps False env d u) u" if "books_wf d u" for t n u
    unfolding migrate_token_def
    by (rule wp_fold_keeps [OF that])
      (rule migrate_account_keeps [where peers = peers and target = target, OF _ assms(2)])
  have "wp (fold_prog (migrate_token env peers ws target) ts 0) (\<lambda>_. keeps False env d s) s" for ts
    by (rule wp_fold_keeps [OF assms(1) one])
  then have "wp (fold_prog (migrate_token env peers ws target) ts 0)
      (\<lambda>m. wp (seq_do (extend_ttl env TtlInstance x y) (ret m)) (\<lambda>_. keeps False env d s)) s" for ts x y
    by (rule wp_conseq) (simp add: wp_simps keeps_def books_defs)
  then show ?thesis
    by (simp add: migrate_balances_def wp_simps)
qed

text \<open>\<open>import_balances\<close> credits what it pulled: one step for the pull, one for each credit.\<close>

lemma import_stake_gains:
  assumes "books_wf d s" and "0 \<le> v"
  shows "wp (import_stake env tok w v) (\<lambda>_. gains env d tok (- v) s) s"
proof -
  have "gains env d tok (- v) s u"
    if "books u = books (s\<lparr>p_stake := (p_stake s)(k \<mapsto> stored_stake k s\<lparr>settled := settled (stored_stake k s) + v\<rparr>)\<rparr>)"
      "key_token d k = tok" for u k
  proof (rule gains_stake [OF assms(1) _ that(2,1)])
    have "stake_wf (stored_stake k s)" using assms(1) by (simp add: books_wf_def)
    then show "stake_wf (stored_stake k s\<lparr>settled := settled (stored_stake k s) + v\<rparr>) \<and>
        stake_total (stored_stake k s\<lparr>settled := settled (stored_stake k s) + v\<rparr>)
          = stake_total (stored_stake k s) - - v"
      using assms(2) by (simp add: stake_wf_def stake_total_def tranches_of_def)
  qed
  then show ?thesis
    using assms
    by (cases "tok = d"; cases "v = 0"; auto simp: import_stake_def wp_simps read_stake_ok(1) [OF assms(1)]
        books_def intro!: wp_track_books)
qed

lemma import_owed_gains:
  assumes "books_wf d s" and "0 \<le> v"
  shows "wp (import_owed env tok w v) (\<lambda>_. gains env d tok (- v) s) s"
  using assms
  by (cases "tok = d"; cases "v = 0"; auto simp: import_owed_def wp_simps read_stake_ok(1) [OF assms(1)]
      account_defs books_def intro!: wp_track_books gains_owed [OF assms])

lemma gains_balance:
  assumes "books_wf d s" and "0 \<le> v" and "key_token d k = tok"
    and "books u = books (s\<lparr>p_balance := (p_balance s)(k \<mapsto> stored_i128 (p_balance s) k + v)\<rparr>)"
  shows "gains E d tok (- v) s u"
  using assms
  by (auto simp: gains_def books_def books_defs msum_update finite_doms keyed_def)

lemma import_balance_gains:
  assumes "books_wf d s" and "0 \<le> v"
  shows "wp (import_balance env tok w v) (\<lambda>_. gains env d tok (- v) s) s"
  using assms
  by (cases "tok = d"; cases "v = 0"; auto simp: import_balance_def wp_simps read_stake_ok(1) [OF assms(1)]
      account_defs books_def intro!: wp_track_books gains_balance [OF assms])

lemma wp_gains_next:
  assumes "gains E d tok v s t" and "wp m (\<lambda>_. gains E d tok w t) t"
    and "\<And>u. gains E d tok (v + w) s u \<Longrightarrow> wp k Q u"
  shows "wp m (\<lambda>_. wp k Q) t"
  by (rule wp_conseq [OF assms(2)]) (rule assms(3), rule gains_trans [OF assms(1)])

lemma import_balances_keeps:
  assumes "books_wf d s" and "honest env"
  shows "wp (import_balances env src tok w a b c) (\<lambda>_. keeps ex env d s) s"
proof -
  have pulled: "gains env d tok v s (s\<lparr>ledger := l\<rparr>)"
    if "authorized env src" "0 \<le> v" "tok_transfer env tok src (self env) v (ledger s) = Some l" for v l
    using assms(1) that(2)
    by (intro gainsI) (simp_all add: books_defs honest_transfer [OF assms(2) that(3)] honest_self [OF assms(2) that(1)])
  have credits: "wp (block [import_stake env tok w a, import_owed env tok w b, import_balance env tok w c,
      bump_instance env]) (\<lambda>_. keeps ex env d s) t"
    if "gains env d tok (a + b + c) s t" "0 \<le> a" "0 \<le> b" "0 \<le> c" for t
    unfolding wp_block_Cons [of "import_stake _ _ _ _"]
  proof (rule wp_gains_next [OF that(1) import_stake_gains [OF gains_wf [OF that(1)] that(2)]])
    fix u assume u: "gains env d tok (a + b + c + - a) s u"
    show "wp (block [import_owed env tok w b, import_balance env tok w c, bump_instance env]) (\<lambda>_. keeps ex env d s) u"
      unfolding wp_block_Cons [of "import_owed _ _ _ _"]
    proof (rule wp_gains_next [OF u import_owed_gains [OF gains_wf [OF u] that(3)]])
      fix v assume v: "gains env d tok (a + b + c + - a + - b) s v"
      show "wp (block [import_balance env tok w c, bump_instance env]) (\<lambda>_. keeps ex env d s) v"
        unfolding wp_block_Cons [of "import_balance _ _ _ _"]
      proof (rule wp_gains_next [OF v import_balance_gains [OF gains_wf [OF v] that(4)]])
        fix z assume "gains env d tok (a + b + c + - a + - b + - c) s z"
        then show "wp (block [bump_instance env]) (\<lambda>_. keeps ex env d s) z"
          by (auto simp: wp_simps books_def intro!: gains_keeps elim!: gains_after)
      qed
    qed
  qed
  have none: "gains env d tok (a + b + c) s s" if "\<not> 0 < a + b + c" "0 \<le> a" "0 \<le> b" "0 \<le> c"
    using that assms(1) by (intro gains_eq [OF gains_refl]) auto
  note credits = credits [unfolded wp_block_Cons [of "import_stake _ _ _ _"] bump_instance_def]
  show ?thesis
    unfolding import_balances_def require_migration_source_def sum_balances_def
    by (auto simp: wp_block_Cons [of "require_migration_source _ _"] wp_simps pulled none intro!: credits simp del: block.simps)
qed

end
