(* ===== verification/Lifecycle.thy ===== *)
theory Lifecycle
  imports Payouts
begin

text \<open>
  The life of a question as a state machine. \<open>edge\<close> lists every way one call may change a question
  and who must have signed or what must have happened for it. \<open>stage_ok\<close> is the invariant that ties
  a question's status to the pending index, the open-question counter and the records of the
  multi-step settlements. Every operation keeps the invariant and follows the edges.
\<close>

section \<open>Statuses and edges\<close>

definition admin_signed :: "'w env \<Rightarrow> 'w world \<Rightarrow> bool" where
  "admin_signed env s \<longleftrightarrow> (\<exists>a. i_admin s = Some a \<and> authorized env a)"

definition resolver_signed :: "'w env \<Rightarrow> 'w world \<Rightarrow> bool" where
  "resolver_signed env s \<longleftrightarrow> (\<exists>a. i_admin s = Some a
     \<and> authorized env (case i_resolver s of Some r \<Rightarrow> r | None \<Rightarrow> a))"

definition source_signed :: "'w env \<Rightarrow> 'w world \<Rightarrow> bool" where
  "source_signed env s \<longleftrightarrow> (\<exists>a. i_migration_source s = Some a \<and> authorized env a)"

definition final_unchallenged :: "'w env \<Rightarrow> 'w world \<Rightarrow> u64 \<Rightarrow> bool" where
  "final_unchallenged env s q \<longleftrightarrow> (\<exists>r. p_pending_resolution s q = Some r
     \<and> res_dispute_deadline r < now env \<and> \<not> res_disputed r)"

inductive edge :: "'w env \<Rightarrow> 'w world \<Rightarrow> u64 \<Rightarrow> question option \<Rightarrow> question option \<Rightarrow> bool"
  for env s q where
  opened: "q_status x = Pending \<Longrightarrow> i_timeout_ledgers s = Some (q_timeout_ledgers x) \<Longrightarrow>
    q_created_at x = now env \<Longrightarrow> authorized env (q_payer x) \<or> admin_signed env s \<Longrightarrow>
    edge env s q None (Some x)"
| imported: "q_status x = Pending \<Longrightarrow> valid_timeout (q_timeout_ledgers x) \<Longrightarrow> source_signed env s \<Longrightarrow>
    edge env s q None (Some x)"
| resolved: "q_status x = Pending \<Longrightarrow> resolver_signed env s \<or> admin_signed env s \<Longrightarrow>
    edge env s q (Some x) (Some (x\<lparr>q_status := Resolved\<rparr>))"
| refunded: "q_status x = Pending \<Longrightarrow> admin_signed env s \<or> refund_deadline x \<le> now env \<Longrightarrow>
    edge env s q (Some x) (Some (x\<lparr>q_status := Refunded\<rparr>))"
| migrated: "q_status x = Pending \<Longrightarrow> admin_signed env s \<Longrightarrow>
    edge env s q (Some x) (Some (x\<lparr>q_status := Migrated\<rparr>))"
| escalated: "q_status x = Pending \<Longrightarrow> admin_signed env s \<Longrightarrow>
    edge env s q (Some x) (Some (x\<lparr>q_status := Disputed\<rparr>))"
| challengeable: "q_status x = Pending \<Longrightarrow> admin_signed env s \<Longrightarrow>
    edge env s q (Some x) (Some (x\<lparr>q_status := ResolvedPending\<rparr>))"
| second_quorum: "q_status x = Disputed \<Longrightarrow> admin_signed env s \<Longrightarrow>
    edge env s q (Some x) (Some (x\<lparr>q_status := Resolved\<rparr>))"
| finalized: "q_status x = ResolvedPending \<Longrightarrow> final_unchallenged env s q \<Longrightarrow>
    edge env s q (Some x) (Some (x\<lparr>q_status := Resolved\<rparr>))"
| reopened: "q_status x = Refunded \<Longrightarrow> authorized env (q_payer x) \<Longrightarrow>
    edge env s q (Some x) (Some (x\<lparr>q_status := Pending, q_amount := a, q_created_at := now env\<rparr>))"

definition qstatus :: "'w world \<Rightarrow> u64 \<Rightarrow> status option" where
  "qstatus s q = map_option q_status (p_question s q)"

definition open_ids :: "(u64 \<rightharpoonup> question) \<Rightarrow> u64 set" where
  "open_ids qs = {q. \<exists>x. qs q = Some x \<and> open_status (q_status x)}"

definition stage_ok :: "'w world \<Rightarrow> bool" where
  "stage_ok s \<longleftrightarrow> index_wf s \<and> indexed s = open_ids (p_question s)
     \<and> counter (i_open_count s) = pending_count s
     \<and> (\<forall>q. (p_pending_resolution s q \<noteq> None) = (qstatus s q = Some ResolvedPending))
     \<and> (\<forall>q r. p_pending_resolution s q = Some r \<longrightarrow> res_workers r \<noteq> [])
     \<and> (\<forall>q. (p_escalated s q \<noteq> None) = (qstatus s q = Some Disputed))"

definition moves :: "'w env \<Rightarrow> 'w world \<Rightarrow> 'w world \<Rightarrow> bool" where
  "moves env s u \<longleftrightarrow> (\<forall>q. p_question u q = p_question s q
     \<or> edge env s q (p_question s q) (p_question u q))"

definition lives :: "'w env \<Rightarrow> 'w world \<Rightarrow> 'w world \<Rightarrow> bool" where
  "lives env s u \<longleftrightarrow> stage_ok u \<and> moves env s u"

section \<open>What does not touch the stages\<close>

definition stage :: "'w world \<Rightarrow> (u64 \<rightharpoonup> question) \<times> (u32 \<rightharpoonup> u64) \<times> (u64 \<rightharpoonup> u32) \<times> u32 option
    \<times> u32 \<times> (u64 \<rightharpoonup> pending_resolution) \<times> (u64 \<rightharpoonup> escalated_question)" where
  "stage s = (p_question s, p_pending_at s, p_pending_pos s, p_pending_count s,
     counter (i_open_count s), p_pending_resolution s, p_escalated s)"

lemma stage_ok_cong: "stage u = stage s \<Longrightarrow> stage_ok u = stage_ok s"
  by (simp add: stage_def stage_ok_def index_wf_def indexed_def pending_count_def qstatus_def)

lemma same_stage: "stage u = stage s \<Longrightarrow> stage_ok s \<Longrightarrow> lives env s u"
  using stage_ok_cong [of u s] by (simp add: lives_def moves_def stage_def)

lemma participants_frame_stage: "participants_frame s u \<Longrightarrow> stage u = stage s"
  unfolding participants_frame_def
  by (drule arg_cong [where f = stage]) (simp add: stage_def participants_erase_def)

lemma slash_frame_stage: "slash_frame s u \<Longrightarrow> stage u = stage s"
  unfolding slash_frame_def by (drule arg_cong [where f = stage]) (simp add: stage_def)

lemma index_frame_rest:
  assumes "index_frame s u"
  shows "p_question u = p_question s \<and> i_open_count u = i_open_count s
     \<and> p_pending_resolution u = p_pending_resolution s \<and> p_escalated u = p_escalated s"
  using arg_cong [OF assms [unfolded index_frame_def],
      where f = "\<lambda>x. (p_question x, i_open_count x, p_pending_resolution x, p_escalated x)"]
  by (simp add: index_erase_def)

section \<open>Opening, closing and restaging a question\<close>

lemma index_add_stage:
  assumes "index_wf s" and "q \<notin> indexed s"
  shows "wp (index_add env q) (\<lambda>_ u. index_frame s u \<and> index_wf u \<and> indexed u = insert q (indexed s)
     \<and> pending_count u = pending_count s + 1 \<and> pending_count s + 1 \<le> u32_max) s"
proof -
  have "wp (index_add env q) (\<lambda>_ u. pending_count s + 1 \<le> u32_max) s"
    by (simp add: index_add_def wp_simps pending_count_def)
  with index_add_spec [OF assms, of env]
  have "wp (index_add env q) (\<lambda>_ u. (index_frame s u \<and> index_wf u \<and> indexed u = insert q (indexed s)
     \<and> pending_count u = pending_count s + 1) \<and> pending_count s + 1 \<le> u32_max) s"
    by (simp only: wp_conj)
  then show ?thesis by (rule wp_conseq) simp
qed

lemma indexed_stage: "indexed (s\<lparr>p_question := f\<rparr>) = indexed s" "index_wf (s\<lparr>p_question := f\<rparr>) = index_wf s"
  by (simp_all add: indexed_def index_wf_def pending_count_def)

text \<open>
  What is left to show of an operation that opened \<open>q\<close>: \<open>q\<close> was closed before, and the world after
  differs from the one before by the question, the index and the counter.
\<close>

lemma stage_opened:
  assumes "stage_ok s" and "q \<notin> open_ids (p_question s)" and "q_status x = Pending"
    and "p_question u = (p_question s)(q \<mapsto> x)"
    and "index_wf u" and "indexed u = insert q (indexed s)" and "pending_count u = pending_count s + 1"
    and "pending_count s + 1 \<le> u32_max" and "counter (i_open_count u) = saturating_add (counter (i_open_count s)) 1"
    and "p_pending_resolution u = p_pending_resolution s" and "p_escalated u = p_escalated s"
  shows "stage_ok u"
proof -
  have "open_ids (p_question u) = insert q (open_ids (p_question s))"
    using assms(3,4) by (auto simp: open_ids_def)
  moreover have "saturating_add (pending_count s) 1 = pending_count s + 1"
    using assms(8) by (simp add: saturating_add_exact)
  moreover have "qstatus u r = (if r = q then Some Pending else qstatus s r)" for r
    using assms(3,4) by (simp add: qstatus_def)
  moreover have "qstatus s q \<noteq> Some ResolvedPending" "qstatus s q \<noteq> Some Disputed"
    using assms(2) by (auto simp: open_ids_def qstatus_def)
  ultimately show ?thesis
    using assms by (simp add: stage_ok_def)
qed

lemma stage_closed:
  assumes "stage_ok s" and "p_question s q = Some x" and "open_status (q_status x)" and "\<not> open_status st"
    and "p_question u = (p_question s)(q \<mapsto> x\<lparr>q_status := st\<rparr>)"
    and "index_wf u" and "indexed u = indexed s - {q}"
    and "counter (i_open_count u) = counter (i_open_count s) - 1"
    and "p_pending_resolution u = (p_pending_resolution s)(q := None)"
    and "p_escalated u = (p_escalated s)(q := None)"
  shows "stage_ok u"
proof -
  have st: "st \<noteq> ResolvedPending" "st \<noteq> Disputed" using assms(4) by auto
  have ids: "open_ids (p_question u) = open_ids (p_question s) - {q}"
    using assms(4,5) by (auto simp: open_ids_def)
  have "q \<in> indexed s" using assms(1-3) by (auto simp: stage_ok_def open_ids_def)
  moreover have "index_wf s" using assms(1) by (simp add: stage_ok_def)
  then have "finite (indexed s)" "card (indexed s) = pending_count s"
    using pending.size_card by blast+
  moreover have "card (indexed u) = pending_count u" using assms(6) pending.size_card by blast
  ultimately have "pending_count u = pending_count s - 1" using assms(7) by simp
  moreover have "qstatus u r = (if r = q then Some st else qstatus s r)" for r
    using assms(5) by (simp add: qstatus_def)
  ultimately show ?thesis
    using assms(1,6-10) ids st by (auto simp: stage_ok_def)
qed

lemma moves_one:
  "p_question u = (p_question s)(q \<mapsto> y) \<Longrightarrow> edge env s q (p_question s q) (Some y) \<Longrightarrow> moves env s u"
  by (simp add: moves_def)

lemmas index_views = index_wf_def indexed_def pending_count_def

lemma wp_record_stage:
  assumes "stage_ok s" and "q_status x = Pending"
  shows "wp (record_question env q t x) (\<lambda>_ u. stage_ok u \<and> p_question s q = None
     \<and> p_question u = (p_question s)(q \<mapsto> x)) s"
proof -
  have wf: "index_wf s" "indexed s = open_ids (p_question s)" using assms(1) by (simp_all add: stage_ok_def)
  show ?thesis
    unfolding record_question_def put_question_def bump_opened_def
    apply (clarsimp simp: wp_simps)
    apply (rule wp_conseq [OF index_add_stage])
    apply (use wf in \<open>simp add: index_views\<close>)
    apply (use wf in \<open>simp add: index_views open_ids_def\<close>)
    apply (clarsimp simp: wp_simps)
    apply (drule index_frame_rest)
    apply (intro conjI, rule stage_opened [OF assms(1)])
    apply (simp_all add: assms(2) open_ids_def bump_counter_def index_views)
    apply (simp_all add: counter_def)
    done
qed

lemma reopened_question:
  "\<lparr>q_payer = q_payer x, q_amount = a, q_status = Pending, q_created_at = n,
     q_timeout_ledgers = q_timeout_ledgers x, q_token = q_token x\<rparr>
   = x\<lparr>q_status := Pending, q_amount := a, q_created_at := n\<rparr>"
  by simp

lemma reopen_lives:
  assumes "stage_ok s"
  shows "wp (reopen_question env p q a) (\<lambda>_. lives env s) s"
proof -
  have wf: "index_wf s" "indexed s = open_ids (p_question s)" using assms(1) by (simp_all add: stage_ok_def)
  show ?thesis
    unfolding reopen_question_def put_question_def store_question_def bump_opened_def
    apply (clarsimp simp: wp_simps reopened_question)
    apply (rule wp_conseq [OF index_add_stage])
    apply (use wf in \<open>simp add: index_views\<close>)
    apply (use wf in \<open>simp add: index_views open_ids_def\<close>)
    apply (clarsimp simp: wp_simps lives_def)
    apply (drule index_frame_rest)
    apply (intro conjI, rule stage_opened [OF assms(1)])
    apply (simp_all add: open_ids_def bump_counter_def index_views)
    apply (simp_all add: counter_def)
    apply (rule moves_one, simp, simp add: edge.reopened)
    done
qed

lemma settle_stage:
  assumes "stage_ok s" and "p_question s q = Some x" and "open_status (q_status x)" and "\<not> open_status st"
    and "stage t = stage (s\<lparr>p_pending_resolution := (p_pending_resolution s)(q := None),
           p_escalated := (p_escalated s)(q := None)\<rparr>)"
  shows "wp (settle_question env q x st) (\<lambda>_ u. stage_ok u
     \<and> p_question u = (p_question s)(q \<mapsto> x\<lparr>q_status := st\<rparr>)) t"
proof -
  have wf: "index_wf s" using assms(1) by (simp add: stage_ok_def)
  show ?thesis
    using assms(5)
    unfolding settle_question_def
    apply (clarsimp simp: wp_simps stage_def)
    apply (rule wp_conseq [OF index_remove_spec])
    apply (use wf in \<open>simp add: index_views\<close>)
    apply (clarsimp simp: wp_simps)
    apply (drule index_frame_rest)
    apply (intro conjI, rule stage_closed [OF assms(1-4)])
    apply (cases st; simp add: index_views count_settled_def drop_counter_def counter_def saturating_sub_def)+
    done
qed

section \<open>Operations that leave every question where it is\<close>

lemma wp_track_stage: "(\<And>u. stage u = stage s \<Longrightarrow> Q () u) \<Longrightarrow> wp (track_participant env a) Q s"
  by (rule wp_conseq [OF track_participant_frame]) (simp add: participants_frame_stage)

lemma account_stage:
  "wp (deposit env p a) (\<lambda>_ u. stage u = stage s) s"
  "wp (deposit_asset env p t a) (\<lambda>_ u. stage u = stage s) s"
  "wp (withdraw_balance env p a) (\<lambda>_ u. stage u = stage s) s"
  "wp (withdraw_balance_asset env p t a) (\<lambda>_ u. stage u = stage s) s"
  "wp (withdraw env w a) (\<lambda>_ u. stage u = stage s) s"
  "wp (withdraw_asset env w t a) (\<lambda>_ u. stage u = stage s) s"
  "wp (withdraw_to env w r a) (\<lambda>_ u. stage u = stage s) s"
  "wp (withdraw_to_asset env w r t a) (\<lambda>_ u. stage u = stage s) s"
  "wp (set_top_up_threshold env p n) (\<lambda>_ u. stage u = stage s) s"
  "wp (check_top_up_threshold p) (\<lambda>_ u. stage u = stage s) s"
  "wp (set_lending_authority env a') (\<lambda>_ u. stage u = stage s) s"
  "wp (lock_owed env a' w n) (\<lambda>_ u. stage u = stage s) s"
  "wp (release_owed env a' w n) (\<lambda>_ u. stage u = stage s) s"
  "wp (touch env p) (\<lambda>_ u. stage u = stage s) s"
  by (auto simp: deposit_def deposit_asset_def withdraw_balance_def withdraw_balance_asset_def
      withdraw_def withdraw_asset_def withdraw_to_def withdraw_to_asset_def do_withdraw_def
      do_withdraw_for_token_def set_top_up_threshold_def check_top_up_threshold_def
      set_lending_authority_def lock_owed_def release_owed_def touch_def touch_key_def account_defs
      wp_simps stage_def intro!: wp_track_stage)

lemma stake_stage:
  "wp (stake env w a) (\<lambda>_ u. stage u = stage s) s"
  "wp (stake_asset env w t a) (\<lambda>_ u. stage u = stage s) s"
  "wp (begin_unstake env w a) (\<lambda>_ u. stage u = stage s) s"
  "wp (begin_unstake_asset env w t a) (\<lambda>_ u. stage u = stage s) s"
  "wp (complete_unstake env w) (\<lambda>_ u. stage u = stage s) s"
  "wp (complete_unstake_asset env w t) (\<lambda>_ u. stage u = stage s) s"
  by (auto simp: stake_def stake_asset_def begin_unstake_def begin_unstake_asset_def complete_unstake_def
      complete_unstake_asset_def Let_def wp_simps stage_def intro!: wp_track_stage split: option.split)

lemma slash_stage: "wp (slash env tok w cap) (\<lambda>_ u. stage u = stage s) s"
  by (auto simp: slash_def wp_simps stake_key_run stake_info_for_token_run Let_def stage_def split: option.split)

lemma slash_loser_stage:
  assumes "stage t = stage s"
  shows "wp (slash_loser env q tok cap n l acc) (\<lambda>_ u. stage u = stage s) t"
proof (cases acc)
  case (fields a b c)
  show ?thesis
    unfolding fields slash_loser_def prod.case wp_and_then
    by (rule wp_conseq [OF slash_stage]) (use assms in \<open>simp add: wp_simps Let_def stage_def\<close>)
qed

lemma payout_stage: "wp (payout env q tok a n ls) (\<lambda>_ u. stage u = stage s) s"
proof -
  have dist: "wp (distribute_slashes env q tok ls cap n) (\<lambda>_ u. stage u = stage s) s" for cap
    unfolding distribute_slashes_def
    by (rule wp_fold_prog_list [where I = "\<lambda>_ _ u. stage u = stage s"]) (simp_all add: slash_loser_stage)
  have rest: "wp (and_then (distribute_slashes env q tok ls cap n) k) (\<lambda>_ u. stage u = stage s) s"
    if "\<And>r u. wp (k r) (\<lambda>_ v. stage v = stage u) u" for cap k
    unfolding wp_and_then by (rule wp_conseq [OF dist], rule wp_conseq [OF that]) simp
  show ?thesis
    unfolding payout_def split_amount_def
    by (auto simp: wp_and_then [of "mul_bps _ _"] wp_and_then [of "chk _"] wp_and_then [of "seq_do _ _"]
        wp_and_then [of "and_then _ _"] wp_seq_do wp_mul_bps wp_chk wp_ret wp_trap_unless Let_def
        intro!: rest) (auto simp: wp_simps split: prod.split)
qed

lemma credit_stage: "wp (credit_worker env q tok v w) (\<lambda>_ u. stage u = stage s) s"
  by (auto simp: credit_worker_def credit_owed_def wp_simps account_defs stage_def intro!: wp_track_stage)

lemma record_stage: "wp (record_resolved_credit env w) (\<lambda>_ u. stage u = stage s) s"
  by (simp add: record_resolved_credit_def update_leaderboard_def wp_simps stage_def)

lemma pay_stage: "wp (pay_worker env q tok v w) (\<lambda>_ u. stage u = stage s) s"
  unfolding pay_worker_def wp_block_Cons
  by (rule wp_conseq [OF credit_stage], rule wp_conseq [OF record_stage]) (simp add: wp_simps)

lemma for_each_stage:
  assumes "\<And>x t. wp (f x) (\<lambda>_ u. stage u = stage t) t"
  shows "wp (for_each xs f) (\<lambda>_ u. stage u = stage s) s"
  by (rule wp_for_each) (auto intro: wp_conseq [OF assms])

lemma route_stage: "wp (route_platform_take env tok r a) (\<lambda>_ u. stage u = stage s) s"
  by (auto simp: route_platform_take_def transfer_if_positive_def wp_simps stage_def split: option.split)

section \<open>Operations that move one question\<close>

definition restaged :: "'w world \<Rightarrow> u64 \<Rightarrow> status \<Rightarrow> status \<Rightarrow> 'w world \<Rightarrow> bool" where
  "restaged s q st st' u \<longleftrightarrow> stage_ok u \<and> (\<exists>x. p_question s q = Some x \<and> q_status x = st
     \<and> p_question u = (p_question s)(q \<mapsto> x\<lparr>q_status := st'\<rparr>))"

lemma restaged_lives:
  assumes "restaged s q st st' u"
    and "\<And>x. p_question s q = Some x \<Longrightarrow> q_status x = st \<Longrightarrow> edge env s q (Some x) (Some (x\<lparr>q_status := st'\<rparr>))"
  shows "lives env s u"
  using assms unfolding restaged_def lives_def by (auto intro!: moves_one)

lemma restaged_cong: "stage v = stage u \<Longrightarrow> restaged s q st st' u \<Longrightarrow> restaged s q st st' v"
  using stage_ok_cong [of v u] by (auto simp: restaged_def stage_def)

lemma wp_closes:
  fixes s :: "'w world" and env :: "'w env"
  assumes "stage_ok s" and "stage t = stage (s\<lparr>p_pending_resolution := (p_pending_resolution s)(q := None),
           p_escalated := (p_escalated s)(q := None)\<rparr>)"
    and "p_question s q = Some x" and "q_status x = st" and "open_status st" and "\<not> open_status st'"
    and "\<And>u :: 'w world. wp (block rest) (\<lambda>_ v. stage v = stage u) u"
  shows "wp (block (settle_question env q x st' # rest)) (\<lambda>_. restaged s q st st') t"
  unfolding wp_block_Cons
proof (rule wp_conseq [OF settle_stage [OF assms(1,3) _ assms(6,2)]])
  fix u :: "'w world"
  assume "stage_ok u \<and> p_question u = (p_question s)(q \<mapsto> x\<lparr>q_status := st'\<rparr>)"
  then have "restaged s q st st' u" using assms(3,4) by (simp add: restaged_def)
  then show "wp (block rest) (\<lambda>_. restaged s q st st') u"
    by (intro wp_conseq [OF assms(7)]) (rule restaged_cong)
qed (simp add: assms(4,5))

lemma no_records:
  assumes "stage_ok s" and "p_question s q = Some x"
  shows "q_status x \<noteq> ResolvedPending \<Longrightarrow> (p_pending_resolution s)(q := None) = p_pending_resolution s"
    and "q_status x \<noteq> Disputed \<Longrightarrow> (p_escalated s)(q := None) = p_escalated s"
proof -
  have "(p_pending_resolution s q \<noteq> None) = (q_status x = ResolvedPending)"
      "(p_escalated s q \<noteq> None) = (q_status x = Disputed)"
    using assms unfolding stage_ok_def qstatus_def by simp_all
  then show "q_status x \<noteq> ResolvedPending \<Longrightarrow> (p_pending_resolution s)(q := None) = p_pending_resolution s"
    and "q_status x \<noteq> Disputed \<Longrightarrow> (p_escalated s)(q := None) = p_escalated s"
    by (auto intro!: fun_upd_idem)
qed

lemma pending_stage:
  "stage_ok s \<Longrightarrow> p_question s q = Some x \<Longrightarrow> q_status x = Pending \<Longrightarrow> stage t = stage s \<Longrightarrow>
    stage t = stage (s\<lparr>p_pending_resolution := (p_pending_resolution s)(q := None),
           p_escalated := (p_escalated s)(q := None)\<rparr>)"
  using no_records [of s q x] by (simp add: stage_def)

lemma settle_asset_stage:
  fixes s :: "'w world"
  shows "wp (settle_asset env q tok a ws ls plat) (\<lambda>_ u. stage u = stage s) s"
  unfolding settle_asset_def wp_and_then
proof (rule wp_conseq [OF payout_stage], clarsimp simp: wp_seq_do simp del: block.simps)
  fix fee tot ptake credit and t :: "'w world"
  assume t: "stage t = stage s"
  show "wp (block [for_each ws (credit_worker env q tok credit), route_platform_take env tok plat ptake])
        (\<lambda>_. wp (ret (fee, tot)) (\<lambda>_ u. stage u = stage s)) t"
    unfolding wp_block_Cons
    by (rule wp_conseq [OF for_each_stage [OF credit_stage]], rule wp_conseq [OF route_stage])
      (simp add: wp_simps t)
qed

lemma settle_leg_stage:
  "stage t = stage s \<Longrightarrow> wp (settle_leg env q ws ls plat b leg acc) (\<lambda>_ u. stage u = stage s) t"
  unfolding settle_leg_def
  by (cases leg, simp only: prod.case wp_and_then, rule wp_conseq [OF settle_asset_stage])
    (auto simp: wp_simps stage_def split: prod.split)

lemma settle_resolution_stage:
  assumes "stage_ok s" and "stage t = stage s"
  shows "wp (settle_resolution env q ws ls h) (\<lambda>_. restaged s q Pending Resolved) t"
proof -
  have qs: "p_question t = p_question s" using assms(2) by (simp add: stage_def)
  have legs: "wp (fold_prog (settle_leg env q ws ls plat b) xs acc) (\<lambda>_ u. stage u = stage s) t" for plat b xs acc
    by (rule wp_fold_prog_list [where I = "\<lambda>_ _ u. stage u = stage s"]) (simp_all add: assms settle_leg_stage)
  have closes: "wp (for_each ws (record_resolved_credit env)) (\<lambda>_. wp (block
      [settle_question env q x Resolved, notarize q h, publish e]) (\<lambda>_. restaged s q Pending Resolved)) u"
    if "stage u = stage s" "p_question s q = Some x" "q_status x = Pending" for u e x
  proof (rule wp_conseq [OF for_each_stage [OF record_stage]], rule wp_closes [OF assms(1) _ that(2,3)])
    fix v assume "stage v = stage u"
    then show "stage v = stage (s\<lparr>p_pending_resolution := (p_pending_resolution s)(q := None),
           p_escalated := (p_escalated s)(q := None)\<rparr>)"
      using that(1) by (intro pending_stage [OF assms(1) that(2,3)]) simp
    show "wp (block [notarize q h, publish e]) (\<lambda>_ w. stage w = stage z) z" for z
      by (cases h) (simp_all add: notarize_def wp_simps stage_def)
  qed simp_all
  have tail: "wp (case r of (fee, sl) \<Rightarrow> block [for_each ws (record_resolved_credit env),
      settle_question env q x Resolved, notarize q h, publish (e fee sl)]) (\<lambda>_. restaged s q Pending Resolved) u"
    if "stage u = stage s" "p_question s q = Some x" "q_status x = Pending" for u e x r
    unfolding case_prod_beta wp_block_Cons [of "for_each _ _"] by (rule closes [OF that])
  show ?thesis
    unfolding settle_resolution_def
    by (auto simp: wp_simps qs Let_def intro!: wp_conseq [OF legs] wp_conseq [OF settle_leg_stage [OF assms(2)]]
        tail closes simp del: block.simps split: option.split)
qed

lemma resolve_lives:
  assumes "stage_ok s"
  shows "wp (resolve env q ws ls h) (\<lambda>_. lives env s) s"
proof -
  have "wp (settle_resolution env q ws ls (Some h)) (\<lambda>_. lives env s) s" if "resolver_signed env s"
    by (rule wp_conseq [OF settle_resolution_stage [OF assms refl]], erule restaged_lives)
      (simp add: edge.resolved that)
  then show ?thesis
    by (auto simp: resolve_def wp_simps resolver_signed_def)
qed

lemma sort_answer_stage:
  assumes "stage t = stage s"
  shows "wp (sort_answer q dis e acc) (\<lambda>_ u. stage u = stage s) t"
  using assms by (cases acc) (simp add: sort_answer_def wp_simps stage_def split: prod.split)

lemma resolve_by_consensus_lives:
  assumes "stage_ok s"
  shows "wp (resolve_by_consensus env q answers) (\<lambda>_. lives env s) s"
proof -
  have sorted: "wp (fold_prog (sort_answer q dis) es ([], [])) (\<lambda>_ u. stage u = stage s) s" for dis es
    by (rule wp_fold_prog_list [where I = "\<lambda>_ _ u. stage u = stage s"]) (simp_all add: sort_answer_stage)
  have rest: "wp (settle_resolution env q ws ls None) (\<lambda>_. lives env s) u"
    if "stage u = stage s" "admin_signed env s" for u ws ls
    by (rule wp_conseq [OF settle_resolution_stage [OF assms that(1)]], erule restaged_lives)
      (simp add: edge.resolved that(2))
  have tail: "wp (fold_prog (sort_answer q dis) es ([], [])) (\<lambda>p. wp (case p of (ws, ls) \<Rightarrow>
      settle_resolution env q ws ls None) (\<lambda>_. lives env s)) s" if "admin_signed env s" for dis es
    by (rule wp_conseq [OF sorted]) (simp add: rest that split: prod.split)
  show ?thesis
    unfolding resolve_by_consensus_def
    by (cases "unanimous_dissenter (map consensus_hash answers)")
      (auto simp: wp_simps admin_signed_def intro!: tail)
qed

text \<open>Refunds, timeouts and sweeps.\<close>

lemma do_refund_stage:
  assumes "stage_ok s"
  shows "wp (do_refund env q b) (\<lambda>_. restaged s q Pending Refunded) s"
proof -
  have legs: "wp (for_each legs (refund_leg env q p b')) (\<lambda>_ u. stage u = stage s) s" for legs p b'
    by (rule for_each_stage) (simp add: refund_leg_def wp_simps stage_def split: prod.split)
  have closes: "wp (settle_question env q x Refunded) (\<lambda>_. wp (block [publish e]) (\<lambda>_. restaged s q Pending Refunded)) u"
    if "stage u = stage s" "p_question s q = Some x" "q_status x = Pending" for u e x
    using wp_closes [OF assms pending_stage [OF assms that(2,3,1)] that(2,3), of Refunded "[publish e]"]
    by (simp add: wp_block_Cons [of "settle_question _ _ _ _"] wp_simps stage_def del: block.simps)
  show ?thesis
    unfolding do_refund_def question_legs_def
    by (auto simp: wp_simps intro!: wp_conseq [OF legs] closes simp del: block.simps for_each.simps split: option.split)
qed

lemma do_refund_lives:
  assumes "stage_ok s"
    and "\<And>x. p_question s q = Some x \<Longrightarrow> admin_signed env s \<or> refund_deadline x \<le> now env"
  shows "wp (do_refund env q b) (\<lambda>_. lives env s) s"
  by (rule wp_conseq [OF do_refund_stage [OF assms(1)]], erule restaged_lives)
    (simp add: edge.refunded assms(2))

lemma refund_lives:
  assumes "stage_ok s"
  shows "wp (refund env q) (\<lambda>_. lives env s) s"
  by (auto simp: refund_def wp_simps admin_signed_def intro!: do_refund_lives [OF assms])

text \<open>A sweep, like a migration, moves some of the pending questions one step and no other.\<close>

definition batch :: "(question \<Rightarrow> bool) \<Rightarrow> status \<Rightarrow> 'w world \<Rightarrow> 'w world \<Rightarrow> bool" where
  "batch P st s u \<longleftrightarrow> stage_ok u \<and> (\<forall>q. p_question u q = p_question s q
     \<or> (\<exists>x. p_question s q = Some x \<and> q_status x = Pending \<and> P x
          \<and> p_question u q = Some (x\<lparr>q_status := st\<rparr>)))"

lemma batch_refl: "stage_ok s \<Longrightarrow> batch P st s s"
  by (simp add: batch_def)

lemma batch_step:
  assumes "batch P st s t" and "restaged t q Pending st u" and "st \<noteq> Pending"
    and "\<And>x. p_question t q = Some x \<Longrightarrow> P x"
  shows "batch P st s u"
  unfolding batch_def
proof (intro conjI allI)
  show "stage_ok u" using assms(2) by (simp add: restaged_def)
  fix r
  obtain x where x: "p_question t q = Some x" "q_status x = Pending"
      "p_question u = (p_question t)(q \<mapsto> x\<lparr>q_status := st\<rparr>)"
    using assms(2) by (auto simp: restaged_def)
  show "p_question u r = p_question s r \<or> (\<exists>x. p_question s r = Some x \<and> q_status x = Pending \<and> P x
          \<and> p_question u r = Some (x\<lparr>q_status := st\<rparr>))"
  proof (cases "r = q")
    case True
    have "p_question t q = p_question s q \<or> (\<exists>y. p_question t q = Some (y\<lparr>q_status := st\<rparr>))"
      using assms(1) unfolding batch_def by blast
    with x(1,2) assms(3) have "p_question s q = Some x" by auto
    with True x assms(4) [OF x(1)] show ?thesis by simp
  next
    case False
    with x(3) show ?thesis using assms(1) unfolding batch_def by simp
  qed
qed

lemma batch_lives:
  assumes "batch P st s u"
    and "\<And>q x. P x \<Longrightarrow> q_status x = Pending \<Longrightarrow> edge env s q (Some x) (Some (x\<lparr>q_status := st\<rparr>))"
  shows "lives env s u"
  using assms unfolding batch_def lives_def moves_def by (metis (no_types, lifting))

lemma try_refund_stage:
  assumes "stage_ok s"
  shows "wp (try_refund_timeout env q) (\<lambda>_ u. restaged s q Pending Refunded u
     \<and> (\<forall>x. p_question s q = Some x \<longrightarrow> refund_deadline x \<le> now env)) s"
  by (auto simp: try_refund_timeout_def wp_simps wp_conj intro!: do_refund_stage [OF assms])

lemma refund_timeout_lives:
  assumes "stage_ok s"
  shows "wp (refund_timeout env q) (\<lambda>_. lives env s) s"
  unfolding refund_timeout_def
  by (rule wp_conseq [OF try_refund_stage [OF assms]], elim conjE, erule restaged_lives)
    (simp add: edge.refunded)

lemma sweep_batch:
  assumes "batch (\<lambda>x. refund_deadline x \<le> now env) Refunded s t"
  shows "wp (sweep_timeouts env ids) (\<lambda>_. batch (\<lambda>x. refund_deadline x \<le> now env) Refunded s) t"
  using assms
proof (induction ids arbitrary: t)
  case Nil
  then show ?case by (simp add: wp_simps)
next
  case (Cons q ids)
  have ok: "stage_ok t" using Cons.prems by (simp add: batch_def)
  show ?case
  proof (cases "try_refund_timeout env q t")
    case (Ok a u)
    then have "restaged t q Pending Refunded u \<and> (\<forall>x. p_question t q = Some x \<longrightarrow> refund_deadline x \<le> now env)"
      using wp_OkD [OF try_refund_stage [OF ok]] by blast
    then have "batch (\<lambda>x. refund_deadline x \<le> now env) Refunded s u"
      using batch_step [OF Cons.prems] by blast
    then show ?thesis using Ok Cons.IH by (simp add: wp_simps)
  next
    case (Fail e u)
    then have "u = t" using try_refund_clean [of env q] unfolding clean_def by blast
    then show ?thesis using Fail Cons.IH [OF Cons.prems] by (simp add: wp_simps)
  qed (simp add: wp_simps)
qed

lemma sweep_lives:
  assumes "stage_ok s"
  shows "wp (sweep_timeouts env ids) (\<lambda>_. lives env s) s"
  by (rule wp_conseq [OF sweep_batch [OF batch_refl [OF assms]]], erule batch_lives) (simp add: edge.refunded)

section \<open>Opening questions\<close>

lemma record_lives:
  fixes s :: "'w world"
  assumes "stage_ok s" and "stage t = stage s" and "q_status x = Pending" and "edge env s q None (Some x)"
  shows "wp (record_question env q tok x) (\<lambda>_. lives env s) t"
proof (rule wp_conseq [OF wp_record_stage [OF _ assms(3)]])
  fix u :: "'w world"
  assume "stage_ok u \<and> p_question t q = None \<and> p_question u = (p_question t)(q \<mapsto> x)"
  then show "lives env s u"
    using assms(2,4) unfolding lives_def
    by (intro conjI moves_one) (auto simp: stage_def)
qed (use assms(1,2) stage_ok_cong in blast)

lemma open_lives:
  assumes "stage_ok s" and "stage t = stage s" and "i_timeout_ledgers t = i_timeout_ledgers s"
    and "authorized env p \<or> admin_signed env s"
  shows "wp (open_question env p q a tok h c) (\<lambda>_. lives env s) t"
proof -
  have cong: "lives env s v" if "lives env s u" "stage v = stage u" for u v
    using that stage_ok_cong [OF that(2)] by (simp add: lives_def moves_def stage_def)
  have tail: "wp (block [put_schema_hash q h, count_category c]) (\<lambda>_. lives env s) u" if "lives env s u" for u
    using cong [OF that]
    by (auto simp: put_schema_hash_def count_category_def wp_simps stage_def split: option.split)
  show ?thesis
    unfolding open_question_def
    apply (clarsimp simp: wp_simps simp del: block.simps)
    apply (rule wp_conseq [OF record_lives [OF assms(1,2)]], simp)
     apply (rule edge.opened, (use assms(3,4) in \<open>simp; fail\<close>)+)
    apply (rule tail, assumption)
    done
qed

lemma submit_lives:
  assumes "stage_ok s"
  shows "wp (submit env p q a) (\<lambda>_. lives env s) s"
    and "wp (submit_with_schema_hash env p q a h) (\<lambda>_. lives env s) s"
    and "wp (submit_with_category env p q a c) (\<lambda>_. lives env s) s"
    and "wp (submit_asset env p t q a) (\<lambda>_. lives env s) s"
    and "wp (charge env p q a) (\<lambda>_. lives env s) s"
    and "wp (charge_asset env p t q a) (\<lambda>_. lives env s) s"
  by (auto simp: submit_def submit_with_schema_hash_def submit_with_category_def submit_asset_def
      charge_def charge_asset_def charge_for_token_def account_defs wp_simps stage_def admin_signed_def
      intro!: open_lives [OF assms])

lemma import_question_lives:
  assumes "stage_ok s"
  shows "wp (import_question env src t q p a c n) (\<lambda>_. lives env s) s"
  by (auto simp: import_question_def require_migration_source_def require_allowed_token_def
      get_token_cfg_def attempt_def wp_simps and_then_def gets_def ok_or_def ensure_def ret_def fail_def stage_def
      source_signed_def intro!: record_lives [OF assms] edge.imported split: outcome.split option.split)

section \<open>Settlements in several steps\<close>

text \<open>A pending question that is put aside keeps its place in the index.\<close>

lemma stage_aside:
  assumes "stage_ok s" and "p_question s q = Some x" and "q_status x = Pending"
    and "st = Disputed \<or> st = ResolvedPending \<and> res_workers (the (p_pending_resolution u q)) \<noteq> []"
    and "p_question u = (p_question s)(q \<mapsto> x\<lparr>q_status := st\<rparr>)"
    and "p_pending_resolution u = (if st = ResolvedPending then (p_pending_resolution s)(q \<mapsto> r) else p_pending_resolution s)"
    and "p_escalated u = (if st = Disputed then (p_escalated s)(q \<mapsto> e) else p_escalated s)"
    and "p_pending_at u = p_pending_at s" "p_pending_pos u = p_pending_pos s" "p_pending_count u = p_pending_count s"
    and "counter (i_open_count u) = counter (i_open_count s)"
  shows "restaged s q Pending st u"
proof -
  have "open_ids (p_question u) = open_ids (p_question s)"
    using assms(2-5) by (auto simp: open_ids_def)
  moreover have "qstatus u r = (if r = q then Some st else qstatus s r)" for r
    using assms(5) by (simp add: qstatus_def)
  moreover have "qstatus s q = Some Pending" using assms(2,3) by (simp add: qstatus_def)
  ultimately have "stage_ok u"
    using assms(1,4,6-11) by (auto simp: stage_ok_def index_views)
  then show ?thesis using assms(2,3,5) by (simp add: restaged_def)
qed

lemma escalate_lives:
  assumes "stage_ok s"
  shows "wp (escalate env q ws ls) (\<lambda>_. lives env s) s"
proof -
  have aside: "lives env s u" if "p_question s q = Some x" "q_status x = Pending"
      "stage u = stage (s\<lparr>p_question := (p_question s)(q \<mapsto> x\<lparr>q_status := Disputed\<rparr>),
        p_escalated := (p_escalated s)(q \<mapsto> e)\<rparr>)" "admin_signed env s" for u x e
  proof (rule restaged_lives)
    show "restaged s q Pending Disputed u"
      by (rule stage_aside [OF assms that(1,2)]) (use that(3) in \<open>simp_all add: stage_def\<close>)
  qed (simp add: edge.escalated that(4))
  show ?thesis
    by (clarsimp simp: escalate_def validate_worker_lists_def put_escalated_def store_question_def put_question_def
        wp_simps, rule aside, assumption, assumption, simp add: stage_def)
      (simp add: admin_signed_def)
qed

lemma resolve_challengeable_lives:
  assumes "stage_ok s"
  shows "wp (resolve_challengeable env q ws ls n) (\<lambda>_. lives env s) s"
proof -
  have aside: "lives env s u" if "p_question s q = Some x" "q_status x = Pending"
      "stage u = stage (s\<lparr>p_question := (p_question s)(q \<mapsto> x\<lparr>q_status := ResolvedPending\<rparr>),
        p_pending_resolution := (p_pending_resolution s)(q \<mapsto> r)\<rparr>)"
      "admin_signed env s" "res_workers r \<noteq> []" for u x r
  proof (rule restaged_lives)
    show "restaged s q Pending ResolvedPending u"
      by (rule stage_aside [OF assms that(1,2)]) (use that(3,5) in \<open>simp_all add: stage_def\<close>)
  qed (simp add: edge.challengeable that(4))
  show ?thesis
    by (clarsimp simp: resolve_challengeable_def put_resolution_def store_question_def put_question_def
        Let_def wp_simps, rule aside, assumption, assumption, simp add: stage_def)
      (simp_all add: admin_signed_def)
qed

lemma dispute_resolve_lives:
  assumes "stage_ok s"
  shows "wp (dispute_resolve env q) (\<lambda>_. lives env s) s"
proof -
  have "lives env s u" if "p_pending_resolution s q = Some r"
      "stage u = stage (s\<lparr>p_pending_resolution := (p_pending_resolution s)(q \<mapsto> r\<lparr>res_disputed := True\<rparr>)\<rparr>)" for u r
  proof -
    have "stage_ok u"
      using assms that by (auto simp: stage_ok_def stage_def index_views qstatus_def)
    moreover have "p_question u = p_question s" using that(2) by (simp add: stage_def)
    ultimately show ?thesis by (simp add: lives_def moves_def)
  qed
  then show ?thesis
    by (auto simp: dispute_resolve_def put_resolution_def wp_simps stage_def)
qed

lemma escalate_resolve_lives:
  assumes "stage_ok s"
  shows "wp (escalate_resolve env q ws ls) (\<lambda>_. lives env s) s"
proof -
  have closes: "wp (block [if b then drop_escalated q else ret (), settle_question env q x Resolved,
      publish e, publish e']) (\<lambda>_. restaged s q Disputed Resolved) t"
    if "stage t = stage s" "p_question s q = Some x" "q_status x = Disputed" "b = (p_escalated s q \<noteq> None)"
    for b t e e' x
    unfolding wp_block_Cons [of "if _ then _ else _"]
  proof (rule wp_conseq [where P = "\<lambda>_ u. stage u = stage (s\<lparr>p_pending_resolution := (p_pending_resolution s)(q := None),
           p_escalated := (p_escalated s)(q := None)\<rparr>)"])
    have "(p_pending_resolution s)(q := None) = p_pending_resolution s"
      using no_records(1) [OF assms that(2)] that(3) by simp
    then show "wp (if b then drop_escalated q else ret ()) (\<lambda>_ u. stage u = stage (s\<lparr>p_pending_resolution := (p_pending_resolution s)(q := None),
           p_escalated := (p_escalated s)(q := None)\<rparr>)) t"
      using that(1,4) by (auto simp: drop_escalated_def wp_simps stage_def fun_upd_idem)
    fix u :: "'a world"
    assume u: "stage u = stage (s\<lparr>p_pending_resolution := (p_pending_resolution s)(q := None),
           p_escalated := (p_escalated s)(q := None)\<rparr>)"
    show "wp (block [settle_question env q x Resolved, publish e, publish e']) (\<lambda>_. restaged s q Disputed Resolved) u"
      by (rule wp_closes [OF assms u that(2,3)]) (simp_all add: wp_simps stage_def)
  qed
  have body: "wp (case r of (fee, tot, ptake, credit) \<Rightarrow> block [
      for_each ws (pay_worker env q tok credit), route_platform_take env tok plat ptake,
      if b then drop_escalated q else ret (), settle_question env q x Resolved,
      publish (e fee tot), publish e']) (\<lambda>_. restaged s q Disputed Resolved) t"
    if "stage t = stage s" "p_question s q = Some x" "q_status x = Disputed" "b = (p_escalated s q \<noteq> None)"
    for r x plat b e e' t tok
    unfolding case_prod_beta wp_block_Cons [of "for_each _ _"] wp_block_Cons [of "route_platform_take _ _ _ _"]
    by (rule wp_conseq [OF for_each_stage [OF pay_stage]], rule wp_conseq [OF route_stage], rule closes)
      (simp_all add: that)
  have "wp (payout env q tok a n ls) (\<lambda>r. wp (case r of (fee, tot, ptake, credit) \<Rightarrow> block [
      for_each ws (pay_worker env q tok credit), route_platform_take env tok plat ptake,
      if b then drop_escalated q else ret (), settle_question env q x Resolved,
      publish (e fee tot), publish e']) (\<lambda>_. lives env s)) s"
    if "p_question s q = Some x" "q_status x = Disputed" "b = (p_escalated s q \<noteq> None)" "admin_signed env s"
    for x plat b e e' tok a n
    by (rule wp_conseq [OF payout_stage], rule wp_conseq [OF body [OF _ that(1-3)]], assumption,
        erule restaged_lives) (simp add: edge.second_quorum that(4))
  then show ?thesis
    unfolding escalate_resolve_def
    by (auto simp: wp_simps admin_signed_def simp del: block.simps split del: if_split split: option.split)
qed

lemma forfeit_stage: "wp (forfeit_bond q v) (\<lambda>_ u. stage u = stage s) s"
  by (auto simp: forfeit_bond_def drop_bond_def wp_simps stage_def split: option.split)

lemma finalize_resolve_stage:
  assumes "stage_ok s"
  shows "wp (finalize_resolve env q) (\<lambda>_ u. restaged s q ResolvedPending Resolved u
     \<and> final_unchallenged env s q) s"
proof -
  have closes: "wp (block [drop_resolution q, settle_question env q x Resolved, publish e])
      (\<lambda>_. restaged s q ResolvedPending Resolved) t"
    if "stage t = stage s" "p_question s q = Some x" "q_status x = ResolvedPending" for t e x
    unfolding wp_block_Cons [of "drop_resolution _"]
  proof (rule wp_conseq [where P = "\<lambda>_ u. stage u = stage (s\<lparr>p_pending_resolution := (p_pending_resolution s)(q := None),
           p_escalated := (p_escalated s)(q := None)\<rparr>)"])
    have "(p_escalated s)(q := None) = p_escalated s"
      using no_records(2) [OF assms that(2)] that(3) by simp
    then show "wp (drop_resolution q) (\<lambda>_ u. stage u = stage (s\<lparr>p_pending_resolution := (p_pending_resolution s)(q := None),
           p_escalated := (p_escalated s)(q := None)\<rparr>)) t"
      using that(1) by (simp add: drop_resolution_def wp_simps stage_def)
    fix u :: "'a world"
    assume u: "stage u = stage (s\<lparr>p_pending_resolution := (p_pending_resolution s)(q := None),
           p_escalated := (p_escalated s)(q := None)\<rparr>)"
    show "wp (block [settle_question env q x Resolved, publish e]) (\<lambda>_. restaged s q ResolvedPending Resolved) u"
      by (rule wp_closes [OF assms u that(2,3)]) (simp_all add: wp_simps stage_def)
  qed
  have body: "wp (case r of (fee, tot, ptake, credit) \<Rightarrow>
      seq_do (for_each ws (pay_worker env q tok credit))
       (and_then (forfeit_bond q ptake) (\<lambda>(final_take, forfeited). block [
          route_platform_take env tok plat final_take, drop_resolution q,
          settle_question env q x Resolved, publish (e fee tot forfeited)])))
      (\<lambda>_. restaged s q ResolvedPending Resolved) t"
    if "stage t = stage s" "p_question s q = Some x" "q_status x = ResolvedPending"
    for r x plat e t tok ws
    unfolding case_prod_beta wp_seq_do wp_and_then wp_block_Cons [of "route_platform_take _ _ _ _"]
    by (rule wp_conseq [OF for_each_stage [OF pay_stage]], rule wp_conseq [OF forfeit_stage],
        rule wp_conseq [OF route_stage], rule closes) (simp_all add: that)
  have "wp (payout env q tok a n ls) (\<lambda>r. wp (case r of (fee, tot, ptake, credit) \<Rightarrow>
      seq_do (for_each ws (pay_worker env q tok credit))
       (and_then (forfeit_bond q ptake) (\<lambda>(final_take, forfeited). block [
          route_platform_take env tok plat final_take, drop_resolution q,
          settle_question env q x Resolved, publish (e fee tot forfeited)])))
      (\<lambda>_. restaged s q ResolvedPending Resolved)) s"
    if "p_question s q = Some x" "q_status x = ResolvedPending" for x plat e tok a n ls ws
    by (rule wp_conseq [OF payout_stage], rule body [OF _ that])
  then show ?thesis
    unfolding finalize_resolve_def
    by (auto simp: wp_simps wp_conj Let_def final_unchallenged_def simp del: block.simps split: option.split)
qed

lemma finalize_resolve_lives:
  assumes "stage_ok s"
  shows "wp (finalize_resolve env q) (\<lambda>_. lives env s) s"
  by (rule wp_conseq [OF finalize_resolve_stage [OF assms]], elim conjE, erule restaged_lives)
    (simp add: edge.finalized)

section \<open>Migration\<close>

lemma migrate_one_batch:
  assumes "batch (\<lambda>_. True) Migrated s t"
  shows "wp (migrate_one env peers target q n) (\<lambda>_. batch (\<lambda>_. True) Migrated s) t"
proof -
  have ok: "stage_ok t" using assms by (simp add: batch_def)
  have "wp (settle_question env q x Migrated) (\<lambda>_ u. restaged t q Pending Migrated u) t"
    if "p_question t q = Some x" "q_status x = Pending" for x
    using wp_closes [OF ok pending_stage [OF ok that refl] that, of Migrated "[]"]
    by (simp add: wp_block_Cons wp_simps)
  then have closes: "wp (settle_question env q x Migrated) (\<lambda>_ u. batch (\<lambda>_. True) Migrated s u) t"
    if "p_question t q = Some x" "q_status x = Pending" for x
    by (rule wp_conseq) (use that batch_step [OF assms] in auto)
  have cong: "batch (\<lambda>_. True) Migrated s u \<Longrightarrow> stage v = stage u \<Longrightarrow> batch (\<lambda>_. True) Migrated s v" for u v
    using stage_ok_cong [of v u] by (simp add: batch_def stage_def)
  show ?thesis
    by (auto simp: migrate_one_def wp_simps intro!: wp_conseq [OF closes] split: option.split)
      (auto simp: wp_simps stage_def elim!: cong)
qed

lemma migrate_pending_lives:
  assumes "stage_ok s"
  shows "wp (migrate_pending env peers ids target) (\<lambda>_. lives env s) s"
proof -
  have "wp (fold_prog (migrate_one env peers target) ids 0) (\<lambda>_. batch (\<lambda>_. True) Migrated s) s"
    by (rule wp_fold_prog_list [where I = "\<lambda>_ _. batch (\<lambda>_. True) Migrated s"])
      (simp_all add: batch_refl assms migrate_one_batch)
  then have "wp (fold_prog (migrate_one env peers target) ids 0) (\<lambda>_. lives env s) s" if "admin_signed env s"
    by (rule wp_conseq) (erule batch_lives, simp add: edge.migrated that)
  then show ?thesis
    by (auto simp: migrate_pending_def wp_simps admin_signed_def)
qed

lemma migrate_balances_stage: "wp (migrate_balances env peers ws toks target) (\<lambda>_ u. stage u = stage s) s"
proof -
  have hand_over: "wp (if c then seq_do (block [
         if x then remove_stake k else ret (), if y then remove_owed k' else ret (),
         if z then remove_balance k'' else ret (), call_peer f]) (ok_or v ArithmeticOverflow) else ret n)
     (\<lambda>m. wp (seq_do (publish e) (ret m)) (\<lambda>_ u. stage u = stage s)) t" if "stage t = stage s"
    for c x y z k k' k'' f v n e t
    using that
    by (cases c) (simp_all add: remove_stake_def remove_owed_def remove_balance_def wp_simps stage_def)
  have one: "wp (migrate_account env peers target tok w n) (\<lambda>_ u. stage u = stage s) t" if "stage t = stage s" for tok w n t
    unfolding migrate_account_def wp_and_then wp_stake_key wp_owed_key wp_balance_key wp_gets wp_chk
      sum_balances_def wp_ok_or
    by (intro allI impI, rule hand_over) (rule that)
  have tok: "wp (migrate_token env peers ws target tok n) (\<lambda>_ u. stage u = stage s) t" if "stage t = stage s" for tok n t
    unfolding migrate_token_def
    by (rule wp_fold_prog_list [where I = "\<lambda>_ _ u. stage u = stage s"]) (simp_all add: that one)
  have "wp (fold_prog (migrate_token env peers ws target) ts 0) (\<lambda>_ u. stage u = stage s) s" for ts
    by (rule wp_fold_prog_list [where I = "\<lambda>_ _ u. stage u = stage s"]) (simp_all add: tok)
  then have "wp (fold_prog (migrate_token env peers ws target) ts 0)
      (\<lambda>m. wp (seq_do (extend_ttl env TtlInstance x y) (ret m)) (\<lambda>_ u. stage u = stage s)) s" for ts x y
    by (rule wp_conseq) (simp add: wp_simps stage_def)
  then show ?thesis
    by (simp add: migrate_balances_def wp_simps)
qed

lemma import_balances_stage: "wp (import_balances env src tok w a b c) (\<lambda>_ u. stage u = stage s) s"
proof -
  have parts: "wp (import_stake env tok w v) (\<lambda>_ u. stage u = stage t) t"
      "wp (import_owed env tok w v) (\<lambda>_ u. stage u = stage t) t"
      "wp (import_balance env tok w v) (\<lambda>_ u. stage u = stage t) t" for v t
    by (auto simp: import_stake_def import_owed_def import_balance_def account_defs wp_simps stage_def
        intro!: wp_track_stage)
  have rest: "wp (import_stake env tok w a) (\<lambda>_. wp (block [import_owed env tok w b, import_balance env tok w c,
      bump_instance env]) (\<lambda>_ u. stage u = stage s)) t" if "stage t = stage s" for t
    unfolding wp_block_Cons
    by (rule wp_conseq [OF parts(1)], rule wp_conseq [OF parts(2)], rule wp_conseq [OF parts(3)])
      (use that in \<open>simp add: wp_simps stage_def\<close>)
  have paid: "stage (s\<lparr>ledger := l\<rparr>) = stage s" for l by (simp add: stage_def)
  show ?thesis
    unfolding import_balances_def require_migration_source_def sum_balances_def
      wp_block_Cons [of "import_stake _ _ _ _"]
    by (auto simp: wp_simps paid intro!: rest [unfolded bump_instance_def] simp del: block.simps)
qed

end
