(* ===== verification/System.thy ===== *)
theory System
  imports Lifecycle
begin

text \<open>
  The contract as a whole: its state-changing entry points (\<open>entry\<close>, \<open>exec\<close>), the worlds it can
  reach from its constructor by committed calls of anybody in any order (\<open>reachable\<close>), and the two
  invariants of every such world, custody of funds and the stage invariant.
\<close>

section \<open>Entry points\<close>

datatype (plugins only: code size) entry =
    Submit address u64 i128
  | SubmitWithSchemaHash address u64 i128 bytes
  | SubmitWithCategory address u64 i128 symbol
  | SubmitAsset address address u64 i128
  | Deposit address i128
  | DepositAsset address address i128
  | WithdrawBalance address i128
  | WithdrawBalanceAsset address address i128
  | SetAssetAllowed address bool
  | Charge address u64 i128
  | ChargeAsset address address u64 i128
  | Resolve u64 "address list" "address list" bytes
  | ResolveByConsensus u64 "consensus_answer list"
  | SetEstablishedAnswerCount u32
  | Stake address i128
  | StakeAsset address address i128
  | BeginUnstake address i128
  | CompleteUnstake address
  | ClaimUnstake address
  | BeginUnstakeAsset address address i128
  | CompleteUnstakeAsset address address
  | Withdraw address i128
  | WithdrawAsset address address i128
  | WithdrawTo address address i128
  | WithdrawToAsset address address address i128
  | Touch address
  | TouchAsset address address
  | TouchQuestion u64
  | Refund u64
  | RefundTimeout u64
  | SetAdmin address
  | ProposeAdminRotation address
  | CancelAdminRotation
  | ExecuteAdminRotation
  | SetResolver "address option"
  | SetTimeoutLedgers u32
  | ProposeUpgrade bytes
  | CancelUpgrade
  | ExecuteUpgrade
  | SetPaused bool
  | SetMigrationSource address
  | ClearMigrationSource
  | MigratePending "u64 list" address
  | ImportQuestion address address u64 address i128 u32 u32
  | ReopenQuestion address u64 i128
  | SetQuorumBounds u32 u32
  | SetTopUpThreshold address i128
  | CheckTopUpThreshold address
  | SetLendingAuthority address
  | LockOwed address address i128
  | ReleaseOwed address address i128
  | SetPublicGoodsConfig address u32
  | RegisterPasskey address bytes
  | SetKycAttestor bytes
  | AttestKyc address u32 bytes
  | SweepTimeouts "u64 list"
  | RecordReputation u64 "address list" "address list"
  | SnapshotStake address
  | MigrateBalances "address list" "address list" address
  | ImportBalances address address address i128 i128 i128
  | Escalate u64 "address list" "address list"
  | EscalateResolve u64 "address list" "address list"
  | ResolveChallengeable u64 "address list" "address list" u32
  | PostChallengeBond address u64 i128
  | DisputeResolve u64
  | FinalizeResolve u64

definition void :: "('e, 's, 'a) prog \<Rightarrow> ('e, 's, unit) prog" where
  "void m = seq_do m (ret ())"

primrec exec :: "'w env \<Rightarrow> (address \<Rightarrow> 'w peer) \<Rightarrow> entry \<Rightarrow> ('w, unit) call" where
  "exec env peers (Submit p q a) = submit env p q a"
| "exec env peers (SubmitWithSchemaHash p q a h) = submit_with_schema_hash env p q a h"
| "exec env peers (SubmitWithCategory p q a c) = submit_with_category env p q a c"
| "exec env peers (SubmitAsset p t q a) = submit_asset env p t q a"
| "exec env peers (Deposit p a) = deposit env p a"
| "exec env peers (DepositAsset p t a) = deposit_asset env p t a"
| "exec env peers (WithdrawBalance p a) = withdraw_balance env p a"
| "exec env peers (WithdrawBalanceAsset p t a) = withdraw_balance_asset env p t a"
| "exec env peers (SetAssetAllowed t b) = set_asset_allowed env t b"
| "exec env peers (Charge p q a) = charge env p q a"
| "exec env peers (ChargeAsset p t q a) = charge_asset env p t q a"
| "exec env peers (Resolve q ws ls h) = resolve env q ws ls h"
| "exec env peers (ResolveByConsensus q as) = resolve_by_consensus env q as"
| "exec env peers (SetEstablishedAnswerCount n) = set_established_answer_count env n"
| "exec env peers (Stake w a) = stake env w a"
| "exec env peers (StakeAsset w t a) = stake_asset env w t a"
| "exec env peers (BeginUnstake w a) = void (begin_unstake env w a)"
| "exec env peers (CompleteUnstake w) = void (complete_unstake env w)"
| "exec env peers (ClaimUnstake w) = void (claim_unstake env w)"
| "exec env peers (BeginUnstakeAsset w t a) = void (begin_unstake_asset env w t a)"
| "exec env peers (CompleteUnstakeAsset w t) = void (complete_unstake_asset env w t)"
| "exec env peers (Withdraw w a) = void (withdraw env w a)"
| "exec env peers (WithdrawAsset w t a) = void (withdraw_asset env w t a)"
| "exec env peers (WithdrawTo w r a) = void (withdraw_to env w r a)"
| "exec env peers (WithdrawToAsset w r t a) = void (withdraw_to_asset env w r t a)"
| "exec env peers (Touch a) = touch env a"
| "exec env peers (TouchAsset a t) = touch_asset env a t"
| "exec env peers (TouchQuestion q) = touch_question env q"
| "exec env peers (Refund q) = refund env q"
| "exec env peers (RefundTimeout q) = refund_timeout env q"
| "exec env peers (SetAdmin a) = set_admin env a"
| "exec env peers (ProposeAdminRotation a) = propose_admin_rotation env a"
| "exec env peers CancelAdminRotation = cancel_admin_rotation env"
| "exec env peers ExecuteAdminRotation = execute_admin_rotation env"
| "exec env peers (SetResolver r) = set_resolver env r"
| "exec env peers (SetTimeoutLedgers n) = set_timeout_ledgers env n"
| "exec env peers (ProposeUpgrade h) = propose_upgrade env h"
| "exec env peers CancelUpgrade = cancel_upgrade env"
| "exec env peers ExecuteUpgrade = execute_upgrade env"
| "exec env peers (SetPaused b) = set_paused env b"
| "exec env peers (SetMigrationSource a) = set_migration_source env a"
| "exec env peers ClearMigrationSource = clear_migration_source env"
| "exec env peers (MigratePending qs a) = void (migrate_pending env peers qs a)"
| "exec env peers (ImportQuestion src t q p a c n) = import_question env src t q p a c n"
| "exec env peers (ReopenQuestion p q a) = reopen_question env p q a"
| "exec env peers (SetQuorumBounds m n) = set_quorum_bounds env m n"
| "exec env peers (SetTopUpThreshold p n) = set_top_up_threshold env p n"
| "exec env peers (CheckTopUpThreshold p) = void (check_top_up_threshold p)"
| "exec env peers (SetLendingAuthority a) = set_lending_authority env a"
| "exec env peers (LockOwed x w a) = lock_owed env x w a"
| "exec env peers (ReleaseOwed x w a) = release_owed env x w a"
| "exec env peers (SetPublicGoodsConfig a n) = set_public_goods_config env a n"
| "exec env peers (RegisterPasskey w k) = register_passkey env w k"
| "exec env peers (SetKycAttestor k) = set_kyc_attestor env k"
| "exec env peers (AttestKyc w n sg) = attest_kyc env w n sg"
| "exec env peers (SweepTimeouts qs) = void (sweep_timeouts env qs)"
| "exec env peers (RecordReputation q ws ls) = record_reputation env q ws ls"
| "exec env peers (SnapshotStake w) = void (snapshot_stake env w)"
| "exec env peers (MigrateBalances ws ts a) = void (migrate_balances env peers ws ts a)"
| "exec env peers (ImportBalances src t w a b c) = import_balances env src t w a b c"
| "exec env peers (Escalate q ws ls) = escalate env q ws ls"
| "exec env peers (EscalateResolve q ws ls) = escalate_resolve env q ws ls"
| "exec env peers (ResolveChallengeable q ws ls n) = resolve_challengeable env q ws ls n"
| "exec env peers (PostChallengeBond c q a) = post_challenge_bond env c q a"
| "exec env peers (DisputeResolve q) = dispute_resolve env q"
| "exec env peers (FinalizeResolve q) = finalize_resolve env q"

section \<open>Entry points that touch neither the books nor the stages\<close>

lemma wp_void [wp_simps]: "wp (void m) Q s = wp m (\<lambda>_. Q ()) s"
  by (simp add: void_def wp_simps)

definition aside :: "'w world \<Rightarrow> 'w world \<Rightarrow> bool" where
  "aside s u \<longleftrightarrow> books u = books s \<and> stage u = stage s"

lemmas aside_defs = aside_def books_def stage_def

lemma aside_keeps: "aside s u \<Longrightarrow> books_wf d s \<Longrightarrow> keeps ex E d s u"
  by (simp add: aside_def same_books)

lemma aside_lives: "aside s u \<Longrightarrow> stage_ok s \<Longrightarrow> lives env s u"
  by (simp add: aside_def same_stage)

lemma config_aside:
  "wp (set_asset_allowed env t b) (\<lambda>_. aside s) s"
  "wp (set_established_answer_count env n) (\<lambda>_. aside s) s"
  "wp (set_admin env a) (\<lambda>_. aside s) s"
  "wp (propose_admin_rotation env a) (\<lambda>_. aside s) s"
  "wp (cancel_admin_rotation env) (\<lambda>_. aside s) s"
  "wp (execute_admin_rotation env) (\<lambda>_. aside s) s"
  "wp (set_resolver env r) (\<lambda>_. aside s) s"
  "wp (set_timeout_ledgers env n) (\<lambda>_. aside s) s"
  "wp (propose_upgrade env h) (\<lambda>_. aside s) s"
  "wp (cancel_upgrade env) (\<lambda>_. aside s) s"
  "wp (execute_upgrade env) (\<lambda>_. aside s) s"
  "wp (set_paused env b) (\<lambda>_. aside s) s"
  "wp (set_migration_source env a) (\<lambda>_. aside s) s"
  "wp (clear_migration_source env) (\<lambda>_. aside s) s"
  "wp (set_quorum_bounds env m n) (\<lambda>_. aside s) s"
  by (auto simp: set_asset_allowed_def allow_asset_def disallow_asset_def Let_def
      set_established_answer_count_def set_admin_def propose_admin_rotation_def
      schedule_admin_rotation_def cancel_admin_rotation_def execute_admin_rotation_def load_rotation_def
      set_resolver_def set_timeout_ledgers_def propose_upgrade_def cancel_upgrade_def
      execute_upgrade_def load_upgrade_def update_current_contract_wasm_def set_paused_def
      set_migration_source_def clear_migration_source_def set_quorum_bounds_def
      wp_simps aside_defs split: option.split)

lemma record_aside:
  "wp (register_passkey env w k) (\<lambda>_. aside s) s"
  "wp (set_kyc_attestor env k) (\<lambda>_. aside s) s"
  "wp (attest_kyc env w n sg) (\<lambda>_. aside s) s"
  "wp (snapshot_stake env w) (\<lambda>_. aside s) s"
  "wp (touch_question env q) (\<lambda>_. aside s) s"
  by (auto simp: register_passkey_def set_kyc_attestor_def attest_kyc_def snapshot_stake_def
      touch_question_def touch_key_def wp_simps aside_defs split: option.split)

lemma aside_trans: "aside s t \<Longrightarrow> aside t u \<Longrightarrow> aside s u"
  by (simp add: aside_def)

lemma wp_for_each_aside:
  assumes "aside s t" and "\<And>x u. wp (f x) (\<lambda>_. aside u) u"
  shows "wp (for_each xs f) (\<lambda>_. aside s) t"
proof (rule wp_for_each [where I = "aside s", OF assms(1)])
  show "wp (f x) (\<lambda>_. aside s) u" if "aside s u" for x u
    by (rule wp_conseq [OF assms(2)]) (rule aside_trans [OF that])
qed

lemma touch_asset_aside: "wp (touch_asset env a t) (\<lambda>_. aside s) s"
  by (cases "i_token s")
    (auto simp: touch_asset_def touch_key_def owed_key_def balance_key_def stake_key_def get_token_cfg_def
      and_then_def gets_def ok_or_def ret_def fail_def wp_simps aside_defs)

lemma reputation_aside:
  "wp (record_match env w) (\<lambda>_. aside s) s" "wp (record_loss env w) (\<lambda>_. aside s) s"
  by (simp_all add: record_match_def record_loss_def put_reputation_def wp_simps aside_defs)

lemma record_reputation_aside: "wp (record_reputation env q ws ls) (\<lambda>_. aside s) s"
proof -
  have loops: "wp (for_each ws (record_match env)) (\<lambda>_. wp (block [for_each ls (record_loss env), bump_instance env])
      (\<lambda>_. aside s)) t" if "aside s t" for t
  proof (rule wp_conseq [OF wp_for_each_aside [OF that reputation_aside(1)]])
    fix u :: "'a world" assume u: "aside s u"
    have "wp (for_each ls (record_loss env)) (\<lambda>_. aside s) u"
      by (rule wp_for_each_aside [OF u reputation_aside(2)])
    then show "wp (block [for_each ls (record_loss env), bump_instance env]) (\<lambda>_. aside s) u"
      unfolding wp_block_Cons by (rule wp_conseq) (simp add: wp_simps aside_defs)
  qed
  have start: "aside s (s\<lparr>p_reputation_recorded := f, ttl_log := g\<rparr>)" for f g by (simp add: aside_defs)
  show ?thesis
    unfolding record_reputation_def wp_block_Cons [of "for_each ws _"]
    by (auto simp: wp_simps intro!: loops [unfolded bump_instance_def] start simp del: block.simps)
qed

section \<open>Every entry point keeps the books and follows the edges\<close>

lemma public_goods_keeps:
  assumes "books_wf d s" and "ex \<longrightarrow> a \<noteq> self E"
  shows "wp (set_public_goods_config env a n) (\<lambda>_. keeps ex E d s) s"
  using assms
  by (simp_all add: set_public_goods_config_def wp_simps keeps_def outside_def books_defs BPS_DENOM_def counter_def)

lemma public_goods_stage: "wp (set_public_goods_config env a n) (\<lambda>_ u. stage u = stage s) s"
  by (simp add: set_public_goods_config_def wp_simps stage_def)

text \<open>
  A challenge bond is taken in the default token whatever the question's token is; the accounting
  of \<open>finalize_resolve\<close> is right when the two are the same.
\<close>

definition bond_fits :: "address \<Rightarrow> 'w world \<Rightarrow> entry \<Rightarrow> bool" where
  "bond_fits d s e \<longleftrightarrow> (\<forall>c q a x. e = PostChallengeBond c q a \<longrightarrow> p_question s q = Some x \<longrightarrow> q_token x = d)"

text \<open>
  The calls that do nothing but move what the contract owes: all but the migrations out, whose target
  may take less than it is told to import, and those that name the contract itself as one to be paid.
\<close>

definition only_owed :: "address \<Rightarrow> entry \<Rightarrow> bool" where
  "only_owed me e = (case e of
      MigratePending _ _ \<Rightarrow> False
    | MigrateBalances _ _ _ \<Rightarrow> False
    | WithdrawTo _ r _ \<Rightarrow> r \<noteq> me
    | WithdrawToAsset _ r _ _ \<Rightarrow> r \<noteq> me
    | Charge p _ _ \<Rightarrow> p \<noteq> me
    | ChargeAsset p _ _ _ \<Rightarrow> p \<noteq> me
    | ImportQuestion _ _ _ p _ _ _ \<Rightarrow> p \<noteq> me
    | SetPublicGoodsConfig a _ \<Rightarrow> a \<noteq> me
    | _ \<Rightarrow> True)"

lemmas keeps_rules =
  deposit_keeps deposit_asset_keeps withdraw_balance_keeps withdraw_balance_asset_keeps withdraw_keeps withdraw_to_keeps
  lock_keeps stake_keeps stake_asset_keeps begin_unstake_keeps begin_unstake_asset_keeps
  complete_unstake_keeps complete_unstake_asset_keeps submit_keeps charge_keeps refund_keeps sweep_keeps
  reopen_keeps escalate_keeps resolve_challengeable_keeps resolve_keeps resolve_by_consensus_keeps
  escalate_resolve_keeps migrate_pending_keeps migrate_balances_keeps import_question_keeps
  import_balances_keeps public_goods_keeps

lemmas aside_rules = config_aside record_aside touch_asset_aside record_reputation_aside

lemma books_keeps: "wp m (\<lambda>_ u. books u = books s) s \<Longrightarrow> books_wf d s \<Longrightarrow> wp m (\<lambda>_. keeps ex E d s) s"
  by (erule wp_conseq) (simp add: same_books)

lemma stage_lives: "wp m (\<lambda>_ u. stage u = stage s) s \<Longrightarrow> stage_ok s \<Longrightarrow> wp m (\<lambda>_. lives env s) s"
  by (erule wp_conseq) (simp add: same_stage)

lemma wp_aside_keeps: "wp m (\<lambda>_. aside s) s \<Longrightarrow> books_wf d s \<Longrightarrow> wp m (\<lambda>_. keeps ex E d s) s"
  by (erule wp_conseq) (simp add: aside_keeps)

lemma wp_aside_lives: "wp m (\<lambda>_. aside s) s \<Longrightarrow> stage_ok s \<Longrightarrow> wp m (\<lambda>_. lives env s) s"
  by (erule wp_conseq) (simp add: aside_lives)

lemma exec_keeps:
  assumes "books_wf d s" and "stage_ok s" and "honest env" and "\<And>a. peer_bounded env (peers a)"
    and "bond_fits d s e" and "ex \<longrightarrow> only_owed (self env) e"
  shows "wp (exec env peers e) (\<lambda>_. keeps ex env d s) s"
  using assms
  by (cases e) (simp_all add: wp_void keeps_rules aside_rules wp_aside_keeps account_books books_keeps
      claim_unstake_def post_challenge_bond_keeps finalize_resolve_keeps stage_ok_def bond_fits_def only_owed_def
      dispute_resolve_books)

lemmas lives_rules =
  submit_lives reopen_lives resolve_lives resolve_by_consensus_lives refund_lives refund_timeout_lives
  sweep_lives import_question_lives escalate_lives resolve_challengeable_lives dispute_resolve_lives
  escalate_resolve_lives finalize_resolve_lives migrate_pending_lives

lemmas stage_rules = account_stage stake_stage migrate_balances_stage import_balances_stage
  public_goods_stage

lemma post_bond_stage: "wp (post_challenge_bond env c q a) (\<lambda>_ u. stage u = stage s) s"
  by (simp add: post_challenge_bond_def put_bond_def wp_simps stage_def)

lemma exec_lives:
  assumes "stage_ok s" and "books_wf d s"
  shows "wp (exec env peers e) (\<lambda>_. lives env s) s"
  using assms
  by (cases e) (simp_all add: wp_void lives_rules stage_rules stage_lives aside_rules wp_aside_lives
      claim_unstake_def post_bond_stage)

section \<open>Reachable worlds\<close>

definition on_host :: "'w host \<Rightarrow> 'w env \<Rightarrow> bool" where
  "on_host E env \<longleftrightarrow> host.truncate env = E"

text \<open>
  A world is reached by the constructor, by a committed call of anyone at any ledger, and by
  whatever others do with the tokens, short of taking the contract's.
\<close>

inductive reachable :: "'w host \<Rightarrow> (address \<Rightarrow> 'w peer) \<Rightarrow> address \<Rightarrow> 'w world \<Rightarrow> bool"
  for E peers d where
  created: "on_host E env \<Longrightarrow> (\<And>t. 0 \<le> tok_balance E t (self E) l) \<Longrightarrow>
    constructor env admin d platform timeout (blank_world l) = Ok () s \<Longrightarrow> reachable E peers d s"
| called: "reachable E peers d s \<Longrightarrow> on_host E env \<Longrightarrow> \<not> authorized env (self E) \<Longrightarrow> bond_fits d s e \<Longrightarrow>
    invoke (exec env peers e) s = (r, u) \<Longrightarrow> reachable E peers d u"
| tokens_moved: "reachable E peers d s \<Longrightarrow>
    (\<And>t. tok_balance E t (self E) (ledger s) \<le> tok_balance E t (self E) l) \<Longrightarrow>
    reachable E peers d (s\<lparr>ledger := l\<rparr>)"

lemma on_host_simps:
  assumes "on_host E env"
  shows "self env = self E" "tok_balance env = tok_balance E" "tok_transfer env = tok_transfer E"
    "sep41 env = sep41 E" "slack env = slack E" "keeps ex env = keeps ex E" "peer_bounded env = peer_bounded E"
proof -
  show host: "self env = self E" "tok_balance env = tok_balance E" "tok_transfer env = tok_transfer E"
    using assms by (auto simp: on_host_def host.truncate_def)
  then show "sep41 env = sep41 E" "peer_bounded env = peer_bounded E" by (simp_all add: sep41_def peer_bounded_def fun_eq_iff)
  show "slack env = slack E" using host by (simp add: slack_def fun_eq_iff)
  then show "keeps ex env = keeps ex E" using host by (simp add: keeps_def outside_def fun_eq_iff)
qed

lemma created_ok:
  assumes "constructor env admin d platform n (blank_world l) = Ok () s"
  shows "books_wf d s" and "stage_ok s" and "slack E d t s = tok_balance E t (self E) l"
proof -
  have "wp (constructor env admin d platform n) (\<lambda>_ s. books_wf d s \<and> stage_ok s
      \<and> slack E d t s = tok_balance E t (self E) l) (blank_world l)"
    by (simp add: constructor_def wp_simps blank_world_def books_defs questions_ok_def amounts_ok_def locks_ok_def
        stakes_ok_def bonds_ok_def stage_ok_def index_views array_wf_def open_ids_def qstatus_def counter_def)
  from wp_OkD [OF this assms] show "books_wf d s" "stage_ok s" "slack E d t s = tok_balance E t (self E) l"
    by simp_all
qed

definition sound :: "('w, 'x) host_scheme \<Rightarrow> address \<Rightarrow> 'w world \<Rightarrow> bool" where
  "sound E d s \<longleftrightarrow> books_wf d s \<and> stage_ok s \<and> (\<forall>t. 0 \<le> slack E d t s)"

lemma sound_step:
  assumes "sound E d s" and "sep41 E" and "\<And>a. peer_bounded E (peers a)" and "on_host E env"
    and "\<not> authorized env (self E)" and "bond_fits d s e" and "exec env peers e s = Ok x u"
  shows "sound E d u" and "keeps (only_owed (self E) e) E d s u" and "lives env s u"
proof -
  have "honest env" using assms(2,4,5) by (simp add: honest_def on_host_simps)
  then have keeps: "wp (exec env peers e) (\<lambda>_. keeps (only_owed (self E) e) env d s) s"
    using assms(1,3,4,6) on_host_simps(1,7) [OF assms(4)] by (intro exec_keeps) (simp_all add: sound_def)
  have lives: "wp (exec env peers e) (\<lambda>_. lives env s) s"
    using assms(1) by (simp add: exec_lives [where d = d] sound_def)
  show k: "keeps (only_owed (self E) e) E d s u" using wp_OkD [OF keeps assms(7)] assms(4) by (simp add: on_host_simps)
  show l: "lives env s u" using wp_OkD [OF lives assms(7)] .
  show "sound E d u" using assms(1) k l unfolding sound_def keeps_def lives_def by (meson order_trans)
qed

lemma reachable_sound:
  assumes "reachable E peers d s" and "sep41 E" and "\<And>a. peer_bounded E (peers a)"
  shows "sound E d s"
  using assms(1)
proof induction
  case (created env l admin platform timeout s)
  show ?case
    using created_ok(1,2) [OF created(3)] created_ok(3) [OF created(3), where E = E] created(2)
    by (simp add: sound_def)
next
  case (called s env e r u)
  then show ?case
    using sound_step [OF called.IH assms(2,3) called(2,3,4)]
    by (auto simp: invoke_def split: outcome.splits)
next
  case (tokens_moved s l)
  have "books_wf d (s\<lparr>ledger := l\<rparr>)" "stage_ok (s\<lparr>ledger := l\<rparr>)" "slack E d t s \<le> slack E d t (s\<lparr>ledger := l\<rparr>)" for t
    using tokens_moved.IH tokens_moved(2) [of t]
    by (simp_all add: sound_def books_defs stage_ok_cong [of "s\<lparr>ledger := l\<rparr>" s] stage_def)
  then show ?case using tokens_moved.IH unfolding sound_def by (meson order_trans)
qed

end
