(* ===== verification/Refunds.thy ===== *)
theory Refunds
  imports System
begin

text \<open>
  The exit every payer has: once a question's deadline has passed and it is still Pending, a timeout
  refund by anyone returns, pays the payer and closes the question, and a sweep reports exactly
  which of its questions it refunded.
\<close>

lemma index_wf_question [simp]:
  "index_wf (s\<lparr>p_question := f\<rparr>) = index_wf s" "index_wf (s\<lparr>ttl_log := g\<rparr>) = index_wf s"
  "index_wf (s\<lparr>ledger := l\<rparr>) = index_wf s" "index_wf (s\<lparr>events := e\<rparr>) = index_wf s"
  by (simp_all add: index_views)

text \<open>Closing a question never fails on a well-formed index.\<close>

lemma settle_question_returns:
  assumes "index_wf s"
  shows "\<exists>u. settle_question env q x st s = Ok () u"
proof -
  let ?s1 = "s\<lparr>p_question := (p_question s)(q \<mapsto> x\<lparr>q_status := st\<rparr>), ttl_log := ttl_log s @
        [(now env, TtlKey (KQuestion q), PERSISTENT_TTL_THRESHOLD, PERSISTENT_TTL_EXTEND_TO)]\<rparr>"
  have "index_wf ?s1" using assms by simp
  then obtain t where "index_remove env q ?s1 = Ok () t" using pending.remove_returns by blast
  then show ?thesis
    by (simp add: settle_question_def set_persistent_def ttl_defs run_defs extend_ttl_def publish_def)
qed

lemma do_refund_returns:
  assumes "index_wf s" and "p_question s q = Some x" and "q_status x = Pending"
    and "p_basket s q = None" and "p_question_token s q = Some tok"
    and "tok_transfer env tok (self env) (q_payer x) (q_amount x) (ledger s) = Some l"
  shows "\<exists>u. do_refund env q b s = Ok () u"
proof -
  have "index_wf (s\<lparr>ledger := l\<rparr>)" using assms(1) by simp
  then obtain u where "settle_question env q x Refunded (s\<lparr>ledger := l\<rparr>) = Ok () u"
    using settle_question_returns by blast
  then show ?thesis
    using assms(2-6)
    by (simp add: do_refund_def load_question_def question_legs_def question_token_def refund_leg_def
        transfer_def publish_def run_defs)
qed

lemma do_refund_effect:
  assumes "p_question s q = Some x" and "p_basket s q = None" and "p_question_token s q = Some tok"
  shows "wp (do_refund env q b) (\<lambda>_ u. q_status x = Pending
     \<and> tok_transfer env tok (self env) (q_payer x) (q_amount x) (ledger s) = Some (ledger u)
     \<and> books u = books (s\<lparr>p_question := (p_question s)(q \<mapsto> x\<lparr>q_status := Refunded\<rparr>), ledger := ledger u\<rparr>)) s"
  by (clarsimp simp: do_refund_def question_legs_def refund_leg_def wp_simps assms,
      rule wp_settle_question) (simp add: wp_simps books_def)

text \<open>A timeout refund with no one's signature.\<close>

lemma timeout_refund:
  assumes "sound E d s" and "p_question s q = Some x" and "q_status x = Pending"
    and "refund_deadline x \<le> now env"
    and "tok_transfer env (q_token x) (self env) (q_payer x) (q_amount x) (ledger s) = Some l"
  shows "\<exists>u. refund_timeout env q s = Ok () u \<and> ledger u = l
     \<and> p_question u = (p_question s)(q \<mapsto> x\<lparr>q_status := Refunded\<rparr>)
     \<and> p_owed u = p_owed s \<and> p_balance u = p_balance s \<and> p_stake u = p_stake s"
proof -
  have s: "books_wf d s" "index_wf s" using assms(1) by (simp_all add: sound_def stage_ok_def)
  note x = books_question [OF s(1) assms(2)]
  have legs: "p_basket s q = None" "p_question_token s q = Some (q_token x)" using x by simp_all
  obtain u where u: "do_refund env q True s = Ok () u"
    using do_refund_returns [OF s(2) assms(2,3) legs assms(5)] by blast
  have "refund_timeout env q s = Ok () u"
    using u assms(2-4)
    by (simp add: refund_timeout_def try_refund_timeout_def load_question_def run_defs)
  moreover have "tok_transfer env (q_token x) (self env) (q_payer x) (q_amount x) (ledger s) = Some (ledger u)
     \<and> books u = books (s\<lparr>p_question := (p_question s)(q \<mapsto> x\<lparr>q_status := Refunded\<rparr>), ledger := ledger u\<rparr>)"
    using wp_OkD [OF do_refund_effect [OF assms(2) legs] u] by blast
  ultimately show ?thesis
    using assms(5) by (auto simp: books_def)
qed

section \<open>Sweeps\<close>

text \<open>What a sweep means for the questions alone: one attempt for each id, in order.\<close>

definition refund_attempt :: "u32 \<Rightarrow> (u64 \<rightharpoonup> question) \<Rightarrow> u64 \<Rightarrow> contract_error + unit" where
  "refund_attempt at_ledger qs q = (case qs q of
      None \<Rightarrow> Inl QuestionNotFound
    | Some x \<Rightarrow>
        if q_status x \<noteq> Pending then Inl QuestionNotPending
        else if at_ledger < refund_deadline x then Inl TooEarlyForTimeout
        else Inr ())"

definition after_attempt :: "u32 \<Rightarrow> (u64 \<rightharpoonup> question) \<Rightarrow> u64 \<Rightarrow> (u64 \<rightharpoonup> question)" where
  "after_attempt at_ledger qs q = (if refund_attempt at_ledger qs q = Inr ()
     then qs(q := map_option (\<lambda>x. x\<lparr>q_status := Refunded\<rparr>) (qs q)) else qs)"

fun sweep_spec :: "u32 \<Rightarrow> (u64 \<rightharpoonup> question) \<Rightarrow> u64 list
    \<Rightarrow> (contract_error + unit) list \<times> (u64 \<rightharpoonup> question)" where
  "sweep_spec at_ledger qs [] = ([], qs)"
| "sweep_spec at_ledger qs (q # ids) =
     (case sweep_spec at_ledger (after_attempt at_ledger qs q) ids of
        (rs, qs') \<Rightarrow> (refund_attempt at_ledger qs q # rs, qs'))"

lemma attempt_refines:
  assumes "sound E d s"
    and "\<And>x. p_question s q = Some x \<Longrightarrow> q_status x = Pending \<Longrightarrow>
      tok_transfer env (q_token x) (self env) (q_payer x) (q_amount x) (ledger s) \<noteq> None"
  shows "\<exists>u. attempt (try_refund_timeout env q) s = Ok (refund_attempt (now env) (p_question s) q) u
     \<and> p_question u = after_attempt (now env) (p_question s) q
     \<and> (u = s \<or> refund_timeout env q s = Ok () u)"
proof (cases "refund_attempt (now env) (p_question s) q")
  case (Inl e)
  then have "try_refund_timeout env q s = Fail e s"
    by (auto simp: refund_attempt_def try_refund_timeout_def load_question_def run_defs
        split: option.splits if_splits)
  then show ?thesis
    using Inl by (simp add: attempt_def after_attempt_def)
next
  case (Inr z)
  then obtain x where x: "p_question s q = Some x" "q_status x = Pending" "refund_deadline x \<le> now env"
    by (auto simp: refund_attempt_def split: option.splits if_splits)
  obtain l where l: "tok_transfer env (q_token x) (self env) (q_payer x) (q_amount x) (ledger s) = Some l"
    using assms(2) [OF x(1,2)] by blast
  obtain u where u: "refund_timeout env q s = Ok () u"
      "p_question u = (p_question s)(q \<mapsto> x\<lparr>q_status := Refunded\<rparr>)"
    using timeout_refund [OF assms(1) x l] by blast
  then show ?thesis
    using Inr x(1) by (simp add: attempt_def refund_timeout_def after_attempt_def)
qed

text \<open>Every due question is refunded by the sweep, whatever else is in the list.\<close>

lemma sweep_spec_questions:
  "snd (sweep_spec n qs ids) q = (if q \<in> set ids \<and> refund_attempt n qs q = Inr ()
     then map_option (\<lambda>x. x\<lparr>q_status := Refunded\<rparr>) (qs q) else qs q)"
proof (induction ids arbitrary: qs)
  case Nil
  then show ?case by simp
next
  case (Cons r ids)
  have "snd (sweep_spec n qs (r # ids)) q = snd (sweep_spec n (after_attempt n qs r) ids) q"
    by (simp split: prod.split)
  also have "\<dots> = (if q \<in> set (r # ids) \<and> refund_attempt n qs q = Inr ()
     then map_option (\<lambda>x. x\<lparr>q_status := Refunded\<rparr>) (qs q) else qs q)"
    unfolding Cons.IH
    by (cases "q = r"; cases "qs q")
      (auto simp: after_attempt_def refund_attempt_def split: option.splits if_splits)
  finally show ?case .
qed

end
