(* ===== verification/Verdicts.thy ===== *)
theory Verdicts
  imports Settlement "HOL-Library.Multiset"
begin

text \<open>
  What the pure parts of settlement compute: the worker-list check, the search for one dissenter,
  the leaderboard's insertion and the median of the submitted values.
\<close>

section \<open>Worker lists\<close>

lemma first_list_valid_iff: "first_list_valid ws others \<longleftrightarrow> distinct ws \<and> set ws \<inter> set others = {}"
  by (induction ws) auto

lemma worker_lists_iff: "first_list_valid ws ls \<and> first_list_valid ls [] \<longleftrightarrow> distinct (ws @ ls)"
  by (auto simp: first_list_valid_iff)

lemma validate_worker_lists_run:
  "validate_worker_lists ws ls s = (if distinct (ws @ ls) then Ok () s else Fail InvalidWorkerLists s)"
  unfolding validate_worker_lists_def worker_lists_iff by (simp add: ensure_def ret_def fail_def)

section \<open>One dissenter\<close>

text \<open>\<open>i\<close> alone disagrees: all the others agree, and \<open>i\<close> says something else.\<close>

definition sole_dissenter :: "bytes list \<Rightarrow> nat \<Rightarrow> bool" where
  "sole_dissenter answers i \<longleftrightarrow> i < length answers \<and>
     (\<exists>h. answers ! i \<noteq> h \<and> (\<forall>j<length answers. j \<noteq> i \<longrightarrow> answers ! j = h))"

lemma mismatch_set: "set (mismatch_indices answers) = {i. i < length answers \<and> answers ! i \<noteq> answers ! 0}"
  unfolding mismatch_indices_def by (auto simp: Suc_le_eq intro!: gr0I)

lemma distinct_mismatch: "distinct (mismatch_indices answers)"
  by (simp add: mismatch_indices_def)

lemma length_mismatch: "length (mismatch_indices answers) = card {i. i < length answers \<and> answers ! i \<noteq> answers ! 0}"
  using distinct_card [OF distinct_mismatch, of answers] by (simp add: mismatch_set)

lemma no_mismatch: "mismatch_indices answers = [] \<longleftrightarrow> (\<forall>i<length answers. answers ! i = answers ! 0)"
  unfolding set_empty [symmetric] mismatch_set by auto

lemma one_mismatch:
  "mismatch_indices answers = [i] \<Longrightarrow> i < length answers \<and> answers ! i \<noteq> answers ! 0
     \<and> (\<forall>j<length answers. j \<noteq> i \<longrightarrow> answers ! j = answers ! 0)"
  using mismatch_set [of answers] by auto

lemma all_mismatch:
  assumes "length (mismatch_indices answers) = length answers - 1" and "answers \<noteq> []"
    and "j < length answers" and "j \<noteq> 0"
  shows "answers ! j \<noteq> answers ! 0"
proof -
  let ?N = "{0..<length answers} - {0}"
  have "set (mismatch_indices answers) \<subseteq> ?N" by (auto simp: mismatch_set intro!: gr0I)
  moreover have "card (set (mismatch_indices answers)) = card ?N"
    using assms(1,2) by (simp add: distinct_card [OF distinct_mismatch])
  ultimately have "set (mismatch_indices answers) = ?N"
    by (intro card_subset_eq) simp_all
  then have "j \<in> set (mismatch_indices answers)" using assms(3,4) by simp
  then show ?thesis by (simp add: mismatch_set)
qed

text \<open>With three answers or more, the search finds \<open>i\<close> exactly when \<open>i\<close> is the sole dissenter.\<close>

lemma dissenter_at:
  assumes "unanimous_dissenter answers = Inr (Some i)"
  shows "3 \<le> length answers" and "sole_dissenter answers i"
proof -
  let ?ms = "mismatch_indices answers"
  have ne: "?ms \<noteq> []" and n: "3 \<le> length answers"
    and c: "length ?ms = 1 \<and> i = last ?ms
      \<or> length ?ms \<noteq> 1 \<and> length ?ms = length answers - 1 \<and> i = 0
        \<and> (\<forall>i\<in>set [2..<length answers]. answers ! i = answers ! 1)"
    using assms by (auto simp: unanimous_dissenter_def Let_def split: if_splits)
  show "3 \<le> length answers" by (rule n)
  from c show "sole_dissenter answers i"
  proof
    assume "length ?ms = 1 \<and> i = last ?ms"
    then have "?ms = [i]" by (cases ?ms) auto
    then show ?thesis using one_mismatch by (auto simp: sole_dissenter_def)
  next
    assume b: "length ?ms \<noteq> 1 \<and> length ?ms = length answers - 1 \<and> i = 0
        \<and> (\<forall>i\<in>set [2..<length answers]. answers ! i = answers ! 1)"
    have "answers ! 1 \<noteq> answers ! 0"
    proof (rule all_mismatch)
      show "answers \<noteq> []" using n by auto
      show "1 < length answers" using n by simp
    qed (use b in simp_all)
    moreover have "\<forall>j<length answers. j \<noteq> 0 \<longrightarrow> answers ! j = answers ! 1"
    proof (intro allI impI)
      fix j assume "j < length answers" "j \<noteq> 0"
      then show "answers ! j = answers ! 1" using b by (cases "j = 1") auto
    qed
    moreover have "0 < length answers" using n by linarith
    ultimately have "0 < length answers \<and> answers ! 0 \<noteq> answers ! 1
        \<and> (\<forall>j<length answers. j \<noteq> 0 \<longrightarrow> answers ! j = answers ! 1)"
      by (metis (no_types))
    then show ?thesis unfolding sole_dissenter_def using b by blast
  qed
qed

lemma sole_dissenter_unique:
  assumes "sole_dissenter answers i" and "sole_dissenter answers k" and "3 \<le> length answers"
  shows "i = k"
proof (rule ccontr)
  assume ik: "i \<noteq> k"
  obtain h where h: "answers ! i \<noteq> h" "\<forall>j<length answers. j \<noteq> i \<longrightarrow> answers ! j = h" "i < length answers"
    using assms(1) by (auto simp: sole_dissenter_def)
  obtain g where g: "answers ! k \<noteq> g" "\<forall>j<length answers. j \<noteq> k \<longrightarrow> answers ! j = g" "k < length answers"
    using assms(2) by (auto simp: sole_dissenter_def)
  obtain j where "j < length answers" "j \<noteq> i" "j \<noteq> k"
  proof -
    have "card {i, k} < card {0..<length answers}" using assms(3) by (simp add: card_insert_if)
    then have "\<not> {0..<length answers} \<subseteq> {i, k}" by (meson card_mono finite.intros leD)
    then obtain j where "j \<in> {0..<length answers}" "j \<notin> {i, k}" by blast
    then show ?thesis using that by simp
  qed
  then have "h = g" using h g by metis
  then show False using h g ik by metis
qed

lemma dissenter_found:
  assumes sole: "sole_dissenter answers i" and n: "3 \<le> length answers"
  shows "unanimous_dissenter answers = Inr (Some i)"
proof -
  let ?ms = "mismatch_indices answers"
  obtain h where h: "answers ! i \<noteq> h" "\<forall>j<length answers. j \<noteq> i \<longrightarrow> answers ! j = h" and i: "i < length answers"
    using sole by (auto simp: sole_dissenter_def)
  show ?thesis
  proof (cases "i = 0")
    case True
    have "set ?ms = {0..<length answers} - {0}" using h True by (auto simp: mismatch_set simp del: neq0_conv)
    then have len: "length ?ms = length answers - 1"
      using distinct_card [OF distinct_mismatch, of answers] n
      by (cases answers) (simp_all add: card_Diff_singleton_if)
    have "answers ! j = answers ! 1" if "j < length answers" "2 \<le> j" for j
      using that h(2) True n by simp
    then have others: "\<forall>j\<in>set [2..<length answers]. answers ! j = answers ! 1" by simp
    have "length ?ms \<noteq> 0" "length ?ms \<noteq> 1" "\<not> length answers < 3" using len n by simp_all
    then show ?thesis unfolding unanimous_dissenter_def Let_def using len others True by simp
  next
    case False
    have "answers ! 0 = h" using h(2) False n by force
    then have "set ?ms = {i}" using h i by (auto simp: mismatch_set)
    then have "length ?ms = 1" "i \<in> set ?ms"
      using distinct_card [OF distinct_mismatch, of answers] by simp_all
    then have "?ms = [i]" by (cases ?ms) auto
    then show ?thesis using n by (simp add: unanimous_dissenter_def Let_def)
  qed
qed

lemma dissenter_none: "unanimous_dissenter answers = Inr None \<longleftrightarrow> (\<forall>a\<in>set answers. a = answers ! 0)"
proof -
  have "unanimous_dissenter answers = Inr None \<longleftrightarrow> mismatch_indices answers = []"
    by (simp add: unanimous_dissenter_def Let_def)
  then show ?thesis by (simp add: no_mismatch all_set_conv_all_nth)
qed

lemma dissenter_error: "unanimous_dissenter answers = Inl e \<Longrightarrow> e = NoUnanimousConsensus"
  by (auto simp: unanimous_dissenter_def Let_def split: if_splits)

lemmas dissenter_cases = dissenter_at dissenter_found dissenter_none dissenter_error

section \<open>The leaderboard\<close>

text \<open>Best counts first, no worker twice, at most \<open>LEADERBOARD_CAP\<close> of them.\<close>

definition leaderboard_ok :: "(address \<times> u32) list \<Rightarrow> bool" where
  "leaderboard_ok es \<longleftrightarrow> sorted_wrt (\<lambda>x y. snd y \<le> snd x) es \<and> distinct (map fst es)
     \<and> length es \<le> LEADERBOARD_CAP"

lemma set_lb_insert [simp]: "set (lb_insert e es) = insert e (set es)"
  by (induction es) auto

lemma length_lb_insert [simp]: "length (lb_insert e es) = Suc (length es)"
  by (induction es) auto

lemma lb_insert_sorted:
  "sorted_wrt (\<lambda>x y. snd y \<le> snd x) es \<Longrightarrow> sorted_wrt (\<lambda>x y. snd y \<le> snd x) (lb_insert e es)"
  by (induction es) (auto simp: not_less)

lemma lb_insert_distinct:
  "distinct (map fst es) \<Longrightarrow> fst e \<notin> fst ` set es \<Longrightarrow> distinct (map fst (lb_insert e es))"
  by (induction es) (auto simp: image_iff)

lemma lb_remove_filter: "distinct (map fst es) \<Longrightarrow> lb_remove w es = filter (\<lambda>e. fst e \<noteq> w) es"
proof (induction es)
  case (Cons e es)
  then show ?case by (cases "fst e = w") (auto simp: image_iff intro!: sym [OF filter_True])
qed simp

lemma lb_board:
  fixes w :: address and n :: u32
  assumes "leaderboard_ok es"
  defines "b \<equiv> lb_insert (w, n) (lb_remove w es)"
  shows "sorted_wrt (\<lambda>x y. snd y \<le> snd x) b" and "distinct (map fst b)"
    and "set b = insert (w, n) {e \<in> set es. fst e \<noteq> w}" and "length b \<le> Suc LEADERBOARD_CAP"
proof -
  have d: "sorted_wrt (\<lambda>x y. snd y \<le> snd x) es" "distinct (map fst es)" "length es \<le> LEADERBOARD_CAP"
    using assms(1) by (simp_all add: leaderboard_ok_def)
  note r = lb_remove_filter [OF d(2), of w]
  show "sorted_wrt (\<lambda>x y. snd y \<le> snd x) b"
    unfolding b_def r by (intro lb_insert_sorted sorted_wrt_filter d(1))
  show "distinct (map fst b)"
    unfolding b_def r by (rule lb_insert_distinct) (auto simp: distinct_map_filter d(2))
  show "set b = insert (w, n) {e \<in> set es. fst e \<noteq> w}" by (auto simp: b_def r)
  show "length b \<le> Suc LEADERBOARD_CAP"
    using order_trans [OF length_filter_le d(3)] unfolding b_def r by simp
qed

lemma sorted_butlast:
  assumes "sorted_wrt R b" and "b \<noteq> []"
  shows "sorted_wrt R (butlast b)" and "\<forall>x\<in>set (butlast b). R x (last b)"
proof -
  have "sorted_wrt R (butlast b @ [last b])" using assms by simp
  then show "sorted_wrt R (butlast b)" "\<forall>x\<in>set (butlast b). R x (last b)"
    by (simp_all add: sorted_wrt_append)
qed

lemma leaderboard_step:
  assumes "leaderboard_ok es"
  shows "leaderboard_ok (lb_update w n es)"
    and "set (lb_update w n es) \<subseteq> insert (w, n) {e \<in> set es. fst e \<noteq> w}"
    and "\<forall>e\<in>insert (w, n) {e \<in> set es. fst e \<noteq> w} - set (lb_update w n es).
           \<forall>f\<in>set (lb_update w n es). snd e \<le> snd f"
    and "insert (w, n) {e \<in> set es. fst e \<noteq> w} \<noteq> set (lb_update w n es)
           \<longrightarrow> length (lb_update w n es) = LEADERBOARD_CAP"
proof -
  define b where "b = lb_insert (w, n) (lb_remove w es)"
  note b = lb_board [OF assms, of w n, folded b_def]
  have ne: "b \<noteq> []" using b(3) by auto
  have up: "lb_update w n es = (if LEADERBOARD_CAP < length b then butlast b else b)"
    by (simp add: lb_update_def b_def Let_def)
  have parts: "set b = insert (last b) (set (butlast b))"
    using ne by (metis append_butlast_last_id list.simps(15) rotate1.simps(2) set_rotate1)
  note s = sorted_butlast [OF b(1) ne]
  have "leaderboard_ok (butlast b)" if "LEADERBOARD_CAP < length b"
    using b(2,4) s(1) by (simp add: leaderboard_ok_def map_butlast distinct_butlast)
  moreover have "leaderboard_ok b" if "\<not> LEADERBOARD_CAP < length b"
    using b(1,2) that by (simp add: leaderboard_ok_def)
  ultimately show "leaderboard_ok (lb_update w n es)" unfolding up by simp
  show "set (lb_update w n es) \<subseteq> insert (w, n) {e \<in> set es. fst e \<noteq> w}"
    unfolding up b(3) [symmetric] by (auto dest: in_set_butlastD)
  show "\<forall>e\<in>insert (w, n) {e \<in> set es. fst e \<noteq> w} - set (lb_update w n es).
           \<forall>f\<in>set (lb_update w n es). snd e \<le> snd f"
    unfolding up b(3) [symmetric] using parts s(2) by auto
  show "insert (w, n) {e \<in> set es. fst e \<noteq> w} \<noteq> set (lb_update w n es)
           \<longrightarrow> length (lb_update w n es) = LEADERBOARD_CAP"
    unfolding up b(3) [symmetric] using b(4) by auto
qed

section \<open>The median\<close>

lemma mset_insert_value [simp]: "mset (insert_value v xs) = add_mset v (mset xs)"
  by (induction xs) auto

lemma set_insert_value [simp]: "set (insert_value v xs) = insert v (set xs)"
  by (induction xs) auto

lemma sorted_insert_value: "sorted xs \<Longrightarrow> sorted (insert_value v xs)"
  by (induction xs) (auto simp: not_less)

lemma fold_insert_value:
  "mset (fold (\<lambda>e. insert_value (answer_value e)) es acc) = mset (map answer_value es) + mset acc"
  "sorted acc \<Longrightarrow> sorted (fold (\<lambda>e. insert_value (answer_value e)) es acc)"
  by (induction es arbitrary: acc) (simp_all add: sorted_insert_value)

lemma sorted_values_sort: "sorted_values answers = sort (map answer_value answers)"
  unfolding sorted_values_def
  by (rule properties_for_sort [symmetric]) (simp_all add: fold_insert_value)

end
