(* ===== verification/Sample.thy ===== *)
theory Sample
  imports Refunds Verdicts "HOL-Library.Code_Target_Nat" "HOL-Library.Code_Target_Int"
begin

text \<open>
  A small concrete deployment, on which the properties are instantiated: a ledger of balances with a
  checked transfer, one token, an admin, a platform, a payer and three workers.
\<close>

type_synonym accounts = "address \<Rightarrow> address \<Rightarrow> i128"

definition move :: "address \<Rightarrow> address \<Rightarrow> address \<Rightarrow> i128 \<Rightarrow> accounts \<Rightarrow> accounts option" where
  "move t f r a l = (if 0 \<le> a \<and> a \<le> l t f
     then Some (\<lambda>t' x. l t' x + (if t' = t \<and> x = r then a else 0) - (if t' = t \<and> x = f then a else 0))
     else None)"

abbreviation "here \<equiv> Address 0"
abbreviation "usd \<equiv> Address 1"
abbreviation "owner \<equiv> Address 2"
abbreviation "treasury \<equiv> Address 3"
abbreviation "alice \<equiv> Address 4"
abbreviation "bob \<equiv> Address 5"
abbreviation "carol \<equiv> Address 6"
abbreviation "dave \<equiv> Address 7"

definition sample_host :: "accounts host" where
  "sample_host = \<lparr>self = here, max_ttl = 6312000, tok_transfer = move, tok_balance = \<lambda>t x l. l t x,
     tok_decimals = \<lambda>t l. 7, sha256 = \<lambda>b. b, secp256r1_ok = \<lambda>k m g. True, ed25519_ok = \<lambda>k m g. True,
     xdr_address = \<lambda>a. [], xdr_u32 = \<lambda>n. [], wasm_uploaded = \<lambda>h. True\<rparr>"

definition at :: "u32 \<Rightarrow> accounts env" where
  "at n = host.extend sample_host \<lparr>now = n, authorized = \<lambda>a. a \<noteq> here\<rparr>"

lemma at_simps [simp]:
  "self (at n) = here" "max_ttl (at n) = 6312000" "tok_transfer (at n) = move"
  "tok_balance (at n) = (\<lambda>t x l. l t x)" "tok_decimals (at n) = (\<lambda>t l. 7)" "now (at n) = n"
  "authorized (at n) = (\<lambda>a. a \<noteq> here)" "sha256 (at n) = (\<lambda>b. b)" "wasm_uploaded (at n) = (\<lambda>h. True)"
  "secp256r1_ok (at n) = (\<lambda>k m g. True)" "ed25519_ok (at n) = (\<lambda>k m g. True)"
  by (simp_all add: at_def sample_host_def host.extend_def)

definition funds :: accounts where
  "funds t x = (if x = here then 0 else 100000)"

text \<open>A deployment at the address \<open>there\<close> that pulls exactly what it is told to import.\<close>

abbreviation "there \<equiv> Address 9"

definition pulling :: "address \<Rightarrow> accounts peer" where
  "pulling a = \<lparr>
     peer_import_question = \<lambda>src t q p v c n l. move t src a v l,
     peer_import_balances = \<lambda>src t w v1 v2 v3 l. move t src a (v1 + v2 + v3) l\<rparr>"

lemma sample_sep41: "sep41 sample_host"
  by (auto simp: sep41_def sample_host_def move_def split: if_splits)

lemma sample_bounded: "peer_bounded sample_host (pulling a)"
  by (auto simp: peer_bounded_def sample_host_def pulling_def move_def split: if_splits)

lemma sample_on_host [simp]: "on_host sample_host (at n)"
  by (simp add: on_host_def at_def sample_host_def host.truncate_def host.extend_def)

lemma sample_unauthorized [simp]: "\<not> authorized (at n) (self sample_host)"
  by (simp add: sample_host_def)

lemma sample_fits [simp]: "(\<And>c q a. e \<noteq> PostChallengeBond c q a) \<Longrightarrow> bond_fits d s e"
  by (simp add: bond_fits_def)

text \<open>Updated maps are looked up, never unfolded, when a run is evaluated.\<close>

declare fun_upd_def [code del]
declare fun_upd_apply [code]

section \<open>Runs\<close>

definition after :: "u32 \<Rightarrow> entry \<Rightarrow> accounts world \<Rightarrow> accounts world" where
  "after n e s = snd (invoke (exec (at n) pulling e) s)"

definition deployed :: "accounts world" where
  "deployed = (case constructor (at 10) owner usd treasury 100 (blank_world funds) of Ok u s \<Rightarrow> s)"

definition opened :: "accounts world" where
  "opened = after 30 (Submit alice 7 1000) (after 20 (Stake dave 400) deployed)"

definition settled_world :: "accounts world" where
  "settled_world = after 40 (Resolve 7 [bob, carol] [dave] []) opened"

lemma deployed_run: "constructor (at 10) owner usd treasury 100 (blank_world funds) = Ok () deployed"
proof -
  have "\<exists>s. constructor (at 10) owner usd treasury 100 (blank_world funds) = Ok () s"
    by (simp add: constructor_def valid_timeout_def run_simps ledger_defs)
  then show ?thesis by (auto simp: deployed_def)
qed

lemma sample_deployed: "reachable sample_host pulling usd deployed"
  by (rule reachable.created [OF sample_on_host _ deployed_run]) (simp add: sample_host_def funds_def)

lemma after_runs:
  "fst (invoke (exec (at n) pulling e) s) = Inr () \<Longrightarrow> exec (at n) pulling e s = Ok () (after n e s)"
  by (cases "exec (at n) pulling e s") (simp_all add: after_def invoke_def)

lemma sample_after:
  "reachable sample_host pulling usd s \<Longrightarrow> bond_fits usd s e \<Longrightarrow>
    reachable sample_host pulling usd (after n e s)"
  unfolding after_def
  by (rule reachable.called [OF _ sample_on_host sample_unauthorized _ surjective_pairing]) assumption+

lemma sample_opened: "reachable sample_host pulling usd opened"
  unfolding opened_def by (intro sample_after sample_deployed sample_fits) simp_all

lemma sample_settled: "reachable sample_host pulling usd settled_world"
  unfolding settled_world_def by (intro sample_after sample_opened sample_fits) simp_all

text \<open>Nobody who is paid is the contract itself.\<close>

lemma outside_after:
  assumes "reachable sample_host pulling usd s" and "outside sample_host s" and "bond_fits usd s e" and "only_owed here e"
  shows "outside sample_host (after n e s)"
proof (cases "exec (at n) pulling e s")
  case (Ok x u)
  have "keeps (only_owed (self sample_host) e) sample_host usd s u"
    by (rule sound_step(2) [OF reachable_sound [OF assms(1) sample_sep41 sample_bounded] sample_sep41 sample_bounded
          sample_on_host sample_unauthorized assms(3) Ok])
  then show ?thesis using Ok assms(2,4) by (simp add: after_def invoke_def keeps_def sample_host_def)
qed (simp_all add: after_def invoke_def assms(2))

lemma sample_outside: "outside sample_host opened"
proof -
  have "wp (constructor (at 10) owner usd treasury 100) (\<lambda>_ s. outside sample_host s) (blank_world funds)"
    by (simp add: constructor_def wp_simps outside_def blank_world_def sample_host_def)
  from wp_OkD [OF this deployed_run] have "outside sample_host deployed" .
  then show ?thesis
    unfolding opened_def by (intro outside_after sample_after sample_deployed sample_fits) (simp_all add: only_owed_def)
qed

end
