(* ===== verification/Frames.thy ===== *)
theory Frames
  imports Migration Dispute Attest
begin

text \<open>
  Which operations leave which part of the storage alone. \<open>untouched v m\<close> says that no run of \<open>m\<close>
  changes what the view \<open>v\<close> shows; it is proved along the structure of \<open>m\<close>. The view \<open>settings\<close>
  shows everything the admin configures and the resolutions that wait for their window to close.
\<close>

section \<open>Views\<close>

definition untouched :: "('s \<Rightarrow> 'v) \<Rightarrow> ('e, 's, 'a) prog \<Rightarrow> bool" where
  "untouched v m \<longleftrightarrow> (\<forall>s a t. m s = Ok a t \<longrightarrow> v t = v s) \<and> (\<forall>s e t. m s = Fail e t \<longrightarrow> v t = v s)"

named_theorems frame_intros

lemma untouchedI:
  "(\<And>s a t. m s = Ok a t \<Longrightarrow> v t = v s) \<Longrightarrow> (\<And>s e t. m s = Fail e t \<Longrightarrow> v t = v s) \<Longrightarrow> untouched v m"
  by (simp add: untouched_def)

lemma untouchedD: "untouched v m \<Longrightarrow> m s = Ok a t \<Longrightarrow> v t = v s"
  unfolding untouched_def by blast

lemma untouchedD': "untouched v m \<Longrightarrow> m s = Fail e t \<Longrightarrow> v t = v s"
  unfolding untouched_def by blast

lemma reads_untouched: "reads m \<Longrightarrow> untouched v m"
  by (rule untouchedI) (auto dest: readsD)

lemma untouched_basic [frame_intros]:
  "untouched v (ret a)" "untouched v (fail e)" "untouched v trap" "untouched v (gets f)"
  "untouched v (ensure b e)" "untouched v (ok_or x e)" "untouched v (unwrap x)"
  "untouched v (trap_unless b)" "untouched v (chk i)" "untouched v (chk_u32 n)"
  by (rule reads_untouched, rule clean_intros)+

lemma untouched_modify [frame_intros]: "(\<And>s. v (f s) = v s) \<Longrightarrow> untouched v (modify f)"
  by (simp add: untouched_def modify_def)

lemma untouched_and_then [frame_intros]:
  assumes "untouched v m" and "\<And>a. untouched v (k a)"
  shows "untouched v (and_then m k)"
proof (rule untouchedI)
  fix s u
  have first: "v t = v s" if "m s = Ok a t" for a t using untouchedD [OF assms(1) that] .
  show "v u = v s" if "and_then m k s = Ok b u" for b
    using that first untouchedD [OF assms(2)] by (cases "m s") (auto simp: and_then_def)
  show "v u = v s" if "and_then m k s = Fail e u" for e
    using that first untouchedD' [OF assms(1)] untouchedD' [OF assms(2)]
    by (cases "m s") (auto simp: and_then_def)
qed

lemma untouched_seq [frame_intros]: "untouched v m \<Longrightarrow> untouched v k \<Longrightarrow> untouched v (seq_do m k)"
  unfolding seq_do_def by (rule untouched_and_then)

lemma untouched_block [frame_intros]:
  "untouched v (block [])" "untouched v m \<Longrightarrow> untouched v (block ms) \<Longrightarrow> untouched v (block (m # ms))"
  by (simp_all add: frame_intros)

lemma untouched_loops [frame_intros]:
  "(\<And>x. untouched v (f x)) \<Longrightarrow> untouched v (for_each xs f)"
  "(\<And>x a. untouched v (g x a)) \<Longrightarrow> untouched v (fold_prog g xs b)"
proof -
  show "(\<And>x. untouched v (f x)) \<Longrightarrow> untouched v (for_each xs f)"
    by (induction xs) (simp_all add: frame_intros)
  show "(\<And>x a. untouched v (g x a)) \<Longrightarrow> untouched v (fold_prog g xs b)"
    by (induction xs arbitrary: b) (simp_all add: frame_intros untouched_and_then)
qed

lemma untouched_attempt [frame_intros]:
  assumes "untouched v m"
  shows "untouched v (attempt m)"
proof (rule untouchedI)
  fix s u
  have ok: "v t = v s" if "m s = Ok a t" for a t using untouchedD [OF assms that] .
  have err: "v t = v s" if "m s = Fail e t" for e t using untouchedD' [OF assms that] .
  show "v u = v s" if run: "attempt m s = Ok b u" for b
  proof (cases "m s")
    case (Ok a t) with run ok [OF Ok] show ?thesis by (simp add: attempt_def)
  next
    case (Fail e t) with run err [OF Fail] show ?thesis by (simp add: attempt_def)
  next
    case Trap with run show ?thesis by (simp add: attempt_def)
  qed
  show "v u = v s" if "attempt m s = Fail e u" for e
    using that by (cases "m s") (simp_all add: attempt_def)
qed

lemma untouched_branch [frame_intros]:
  "untouched v m \<Longrightarrow> untouched v n \<Longrightarrow> untouched v (if b then m else n)"
  "untouched v m \<Longrightarrow> (\<And>a. untouched v (k a)) \<Longrightarrow> untouched v (case x of None \<Rightarrow> m | Some a \<Rightarrow> k a)"
  "(\<And>e. untouched v (f e)) \<Longrightarrow> (\<And>a. untouched v (h a)) \<Longrightarrow> untouched v (case r of Inl e \<Rightarrow> f e | Inr a \<Rightarrow> h a)"
  "(\<And>a b. untouched v (g a b)) \<Longrightarrow> untouched v (case p of (a, b) \<Rightarrow> g a b)"
  by (simp, cases x, simp, simp, cases r, simp, simp, cases p, simp)

lemma untouched_let [frame_intros]: "untouched v (k x) \<Longrightarrow> untouched v (let y = x in k y)"
  by (simp add: Let_def)

lemma wp_untouched: "untouched v m \<Longrightarrow> wp m (\<lambda>_ u. v u = v s) s"
  by (rule wpI) (erule (1) untouchedD)

section \<open>Settings\<close>

definition config :: "'w world \<Rightarrow> _" where
  "config s = (i_admin s, i_token s, i_platform s, i_timeout_ledgers s, i_migration_source s, i_min_quorum s,
     i_max_quorum s, i_lending_authority s, i_kyc_attestor s, i_resolver s, i_established s,
     i_pending_upgrade s, i_paused s, i_pg_address s, i_pg_bps s, i_allowed_token s, i_token_decimals s,
     i_allowed_count s, i_pending_rotation s, current_wasm s)"

definition settings :: "'w world \<Rightarrow> _" where
  "settings s = (config s, p_pending_resolution s)"

lemma untouched_part: "untouched settings m \<Longrightarrow> untouched config m"
  by (simp add: untouched_def settings_def)

lemmas settings_defs = settings_def config_def

text \<open>Checks that only read.\<close>

lemma access_untouched [frame_intros]:
  "untouched v get_token_cfg" "untouched v (require_admin env)" "untouched v require_not_paused"
  "untouched v (question_token q)" "untouched v (reject_basket q)" "untouched v (load_question q)"
  by (rule reads_untouched, rule access_clean)+

section \<open>Views the daily business leaves alone\<close>

text \<open>
  A quiet view does not see the token ledger, the log, the questions, the accounts, the two indexes or
  the health counters: what is left is the configuration, the pending resolutions, the leaderboard and
  the resolved counts.
\<close>

locale quiet_view =
  fixes view :: "'w world \<Rightarrow> 'v"
  assumes quiet:
    "view (s\<lparr>ledger := f0\<rparr>) = view s" "view (s\<lparr>events := f1\<rparr>) = view s"
    "view (s\<lparr>ttl_log := f2\<rparr>) = view s" "view (s\<lparr>i_open_count := f3\<rparr>) = view s"
    "view (s\<lparr>i_total_opened := f4\<rparr>) = view s" "view (s\<lparr>i_total_resolved := f5\<rparr>) = view s"
    "view (s\<lparr>i_total_refunded := f6\<rparr>) = view s" "view (s\<lparr>p_question := f7\<rparr>) = view s"
    "view (s\<lparr>p_question_token := f8\<rparr>) = view s" "view (s\<lparr>p_basket := f9\<rparr>) = view s"
    "view (s\<lparr>p_schema_hash := f10\<rparr>) = view s" "view (s\<lparr>p_category := f11\<rparr>) = view s"
    "view (s\<lparr>p_stake := f12\<rparr>) = view s" "view (s\<lparr>p_owed := f13\<rparr>) = view s"
    "view (s\<lparr>p_balance := f14\<rparr>) = view s" "view (s\<lparr>p_pending_count := f15\<rparr>) = view s"
    "view (s\<lparr>p_pending_at := f16\<rparr>) = view s" "view (s\<lparr>p_pending_pos := f17\<rparr>) = view s"
    "view (s\<lparr>p_top_up := f18\<rparr>) = view s" "view (s\<lparr>p_owed_lock := f19\<rparr>) = view s"
    "view (s\<lparr>p_claim := f20\<rparr>) = view s" "view (s\<lparr>p_reputation := f21\<rparr>) = view s"
    "view (s\<lparr>p_reputation_recorded := f22\<rparr>) = view s" "view (s\<lparr>p_escalated := f23\<rparr>) = view s"
    "view (s\<lparr>p_bond := f24\<rparr>) = view s" "view (s\<lparr>p_passkey := f25\<rparr>) = view s"
    "view (s\<lparr>p_kyc := f26\<rparr>) = view s" "view (s\<lparr>p_snapshot := f27\<rparr>) = view s"
    "view (s\<lparr>p_participant_count := f28\<rparr>) = view s" "view (s\<lparr>p_participant_at := f29\<rparr>) = view s"
    "view (s\<lparr>p_participant_pos := f30\<rparr>) = view s"
begin

lemma host_frame [frame_intros]:
  "untouched view (require_auth env a)" "untouched view (transfer env t f r n)"
  "untouched view (publish e)" "untouched view (extend_ttl env k lo hi)"
  by (simp_all add: untouched_def require_auth_def transfer_def publish_def extend_ttl_def run_defs
      quiet split: option.split)

lemma set_frame [frame_intros]:
  "(\<And>s. view (f s) = view s) \<Longrightarrow> untouched view (set_persistent env k f)"
  unfolding set_persistent_def extend_persistent_def by (intro frame_intros) simp

text \<open>Access checks, keys, stakes and the two indexes.\<close>

lemma guard_frame [frame_intros]:
  "untouched view (require_resolver_or_admin env)" "untouched view (require_allowed_token t)"
  "untouched view (require_lending_authority env a)" "untouched view (require_migration_source env a)"
  "untouched view (owed_key t w)" "untouched view (stake_key t w)" "untouched view (balance_key t w)"
  "untouched view (mul_bps x b)" "untouched view (load_resolution q)"
  unfolding require_resolver_or_admin_def require_allowed_token_def require_lending_authority_def
    require_migration_source_def owed_key_def stake_key_def balance_key_def mul_bps_def load_resolution_def
  by (intro frame_intros)+

lemma index_frame [frame_intros]:
  "untouched view (index_add env q)" "untouched view (index_remove env q)"
  "untouched view (track_participant env a)"
  unfolding index_add_def index_remove_def track_participant_def
  by (intro frame_intros; simp add: quiet)+

lemma stake_frame [frame_intros]:
  "untouched view (put_stake env k i)" "untouched view (mature_warming env i)"
  "untouched view (add_warming env i a)" "untouched view (stake_info_for_token env t w)"
  "untouched view (stake_info env w)" "untouched view (slash env t w c)"
  unfolding put_stake_def mature_warming_def mature_step_def add_warming_def stake_info_for_token_def
    stake_info_def or_default_def slash_def
  by (intro frame_intros; simp add: quiet split: option.split)+

lemma question_frame [frame_intros]:
  "untouched view (record_question env q t x)" "untouched view (settle_question env q x st)"
  "untouched view (store_question env q x)" "untouched view (put_question q x)"
  "untouched view bump_opened"
  unfolding record_question_def settle_question_def store_question_def put_question_def bump_opened_def
    extend_question_ttl_def ttl_defs count_settled_def
  by (intro frame_intros; simp add: quiet split: status.split)+

lemma open_frame [frame_intros]: "untouched view (open_question env p q a t h c)"
  unfolding open_question_def put_schema_hash_def count_category_def
  by (intro frame_intros; simp add: quiet)

lemma account_frame [frame_intros]:
  "untouched view (put_balance env k v)" "untouched view (put_owed env k v)"
  "untouched view (put_owed_lock env w v)" "untouched view (credit_owed env t w v)"
  "untouched view (do_withdraw_for_token env w r t a)" "untouched view (touch_key env k f)"
  "untouched view (bump_instance env)" "untouched view (extend_persistent env k)"
  unfolding put_balance_def put_owed_def put_owed_lock_def credit_owed_def do_withdraw_for_token_def touch_key_def
    ttl_defs
  by (intro frame_intros; simp add: quiet)+

lemma pay_frame [frame_intros]:
  "untouched view (payout env q t a n ls)" "untouched view (credit_worker env q t v w)"
  "untouched view (route_platform_take env t r a)" "untouched view (check_lists ws ls)" "untouched view (validate_worker_lists ws ls)"
  unfolding payout_def split_amount_def distribute_slashes_def slash_loser_def credit_worker_def
    route_platform_take_def transfer_if_positive_def
    check_lists_def check_quorum_bounds_def validate_worker_lists_def
  by (intro frame_intros; simp add: quiet)+

lemma resolution_frame [frame_intros]:
  "untouched view (settle_leg env q ws ls plat b leg acc)" "untouched view (notarize q h)"
  "untouched view (do_refund env q b)" "untouched view (try_refund_timeout env q)"
  unfolding settle_leg_def settle_asset_def notarize_def do_refund_def question_legs_def
    refund_leg_def try_refund_timeout_def
  by (intro frame_intros; simp add: quiet)+

lemma peer_frame [frame_intros]: "untouched view (call_peer f)"
  by (simp add: untouched_def call_peer_def quiet split: option.split)

lemma import_frame [frame_intros]:
  "untouched view (import_stake env t w a)" "untouched view (import_owed env t w a)"
  "untouched view (import_balance env t w a)" "untouched view (sum_balances a b c)"
  unfolding import_stake_def import_owed_def import_balance_def sum_balances_def
  by (intro frame_intros; simp add: quiet)+

section \<open>Entry points that leave the settings alone\<close>

lemma submit_frame [frame_intros]:
  "untouched view (submit env p q a)" "untouched view (submit_with_schema_hash env p q a h)"
  "untouched view (submit_with_category env p q a c)" "untouched view (submit_asset env p t q a)"
  "untouched view (charge env p q a)" "untouched view (charge_asset env p t q a)"
  "untouched view (reopen_question env p q a)"
  "untouched view (import_question env src t q p a m n)"
  unfolding submit_def submit_with_schema_hash_def submit_with_category_def submit_asset_def charge_def
    charge_asset_def charge_for_token_def reopen_question_def import_question_def
  by (intro frame_intros)+

lemma balance_frame [frame_intros]:
  "untouched view (deposit env p a)" "untouched view (deposit_asset env p t a)"
  "untouched view (withdraw_balance env p a)" "untouched view (withdraw_balance_asset env p t a)"
  "untouched view (withdraw env w a)" "untouched view (withdraw_asset env w t a)"
  "untouched view (withdraw_to env w r a)" "untouched view (withdraw_to_asset env w r t a)"
  "untouched view (lock_owed env x w a)" "untouched view (release_owed env x w a)"
  "untouched view (set_top_up_threshold env p n)" "untouched view (check_top_up_threshold p)"
  "untouched view (touch env p)" "untouched view (touch_asset env p t)" "untouched view (touch_question env q)"
  unfolding deposit_def deposit_asset_def withdraw_balance_def withdraw_balance_asset_def withdraw_def withdraw_asset_def
    withdraw_to_def withdraw_to_asset_def do_withdraw_def lock_owed_def release_owed_def set_top_up_threshold_def
    check_top_up_threshold_def touch_def touch_asset_def touch_question_def extend_question_ttl_def ttl_defs
  by (intro frame_intros; simp add: quiet)+

lemma staking_frame [frame_intros]:
  "untouched view (stake env w a)" "untouched view (stake_asset env w t a)"
  "untouched view (begin_unstake env w a)" "untouched view (begin_unstake_asset env w t a)"
  "untouched view (complete_unstake env w)" "untouched view (complete_unstake_asset env w t)"
  "untouched view (claim_unstake env w)" "untouched view (snapshot_stake env w)"
  unfolding stake_def stake_asset_def begin_unstake_def begin_unstake_asset_def complete_unstake_def
    complete_unstake_asset_def claim_unstake_def snapshot_stake_def
  by (intro frame_intros; simp add: quiet)+

lemma outcome_frame [frame_intros]:
  "untouched view (refund env q)" "untouched view (refund_timeout env q)"
  "untouched view (escalate env q ws ls)" "untouched view (sort_answer q ds e acc)"
  "untouched view (post_challenge_bond env c q a)" "untouched view (record_reputation env q ws ls)"
  "untouched view (drop_escalated q)"
  unfolding sort_answer_def refund_def refund_timeout_def escalate_def put_escalated_def drop_escalated_def
    post_challenge_bond_def put_bond_def record_reputation_def record_match_def record_loss_def put_reputation_def
  by (intro frame_intros; simp add: quiet)+

lemma sweep_frame [frame_intros]: "untouched view (sweep_timeouts env ids)"
  by (induction ids) (simp_all add: frame_intros)

lemma migrate_frame [frame_intros]:
  "untouched view (migrate_pending env peers ids tgt)" "untouched view (migrate_balances env peers ws ts tgt)"
  "untouched view (import_balances env src t w a b c)"
  unfolding migrate_pending_def migrate_one_def migrate_balances_def migrate_token_def migrate_account_def
    remove_stake_def remove_owed_def remove_balance_def import_balances_def
  by (intro frame_intros; simp add: quiet)+

lemma identity_frame [frame_intros]:
  "untouched view (register_passkey env w k)" "untouched view (attest_kyc env w n sg)"
  unfolding register_passkey_def attest_kyc_def by (intro frame_intros; simp add: quiet)+

section \<open>Resolutions that wait\<close>

lemma forfeit_frame [frame_intros]: "untouched view (forfeit_bond q v)"
  unfolding forfeit_bond_def drop_bond_def by (intro frame_intros; simp add: quiet)

end

text \<open>One that does not see the leaderboard either is left alone by every way of resolving at once.\<close>

locale settled_view = quiet_view +
  assumes unranked: "view (s\<lparr>i_leaderboard := b\<rparr>) = view s" "view (s\<lparr>p_resolved_count := c\<rparr>) = view s"
begin

lemma ranking_frame [frame_intros]:
  "untouched view (record_resolved_credit env w)" "untouched view (pay_worker env q t v w)"
  "untouched view (settle_resolution env q ws ls oh)" "untouched view (resolve env q ws ls h)"
  "untouched view (resolve_by_consensus env q as)" "untouched view (escalate_resolve env q ws ls)"
  unfolding record_resolved_credit_def update_leaderboard_def pay_worker_def settle_resolution_def resolve_def
    resolve_by_consensus_def escalate_resolve_def
  by (intro frame_intros; simp add: quiet unranked)+

end

interpretation settings: settled_view settings
  by unfold_locales (simp_all add: settings_defs)

section \<open>The participant index\<close>

lemma participants_frame_rest:
  assumes "participants_frame s u"
  shows "p_balance u = p_balance s \<and> i_token u = i_token s \<and> p_stake u = p_stake s \<and> p_owed u = p_owed s
     \<and> i_timeout_ledgers u = i_timeout_ledgers s \<and> ledger u = ledger s"
  using arg_cong [OF assms [unfolded participants_frame_def],
      where f = "\<lambda>x. (p_balance x, i_token x, p_stake x, p_owed x, i_timeout_ledgers x, ledger x)"]
  by (simp add: participants_erase_def)

end
