(* ===== verification/Worlds.thy ===== *)
theory Worlds
  imports Refunds Frames
begin

text \<open>
  What holds along a whole run: consequences of the edges for one call (terminal statuses, fixed
  terms of an escrow), and the fate of a disputed resolution, over any number of later calls.
\<close>

section \<open>One call in a reachable world\<close>

inductive_cases edge_from: "edge env s q (Some x) oy"
inductive_cases edge_new: "edge env s q None oy"
inductive_simps edge_gone: "edge env s q ox None"

lemma reachable_lives:
  assumes "reachable E peers d s" and "sep41 E" and "\<And>a. peer_bounded E (peers a)"
    and "exec env peers e s = Ok r u"
  shows "lives env s u"
  using wp_OkD [OF exec_lives [where d = d] assms(4)] reachable_sound [OF assms(1-3)]
  by (simp add: sound_def)

lemma reachable_edge:
  assumes "reachable E peers d s" and "sep41 E" and "\<And>a. peer_bounded E (peers a)"
    and "exec env peers e s = Ok r u"
  shows "p_question u q = p_question s q \<or> edge env s q (p_question s q) (p_question u q)"
  using reachable_lives [OF assms] by (simp add: lives_def moves_def)

lemma edge_terms:
  assumes "edge env s q (Some x) oy"
  shows "\<exists>y. oy = Some y \<and> q_payer y = q_payer x \<and> q_token y = q_token x
     \<and> q_timeout_ledgers y = q_timeout_ledgers x
     \<and> (open_status (q_status x) \<longrightarrow> q_amount y = q_amount x \<and> q_created_at y = q_created_at x)"
  using assms by (rule edge_from) simp_all

lemma edge_final: "edge env s q (Some x) oy \<Longrightarrow> q_status x \<noteq> Resolved \<and> q_status x \<noteq> Migrated"
  by (erule edge_from) simp_all

section \<open>Later worlds\<close>

inductive later :: "'w host \<Rightarrow> (address \<Rightarrow> 'w peer) \<Rightarrow> address \<Rightarrow> 'w world \<Rightarrow> 'w world \<Rightarrow> bool"
  for E peers d s where
  now_world: "later E peers d s s"
| call: "later E peers d s t \<Longrightarrow> on_host E env \<Longrightarrow> \<not> authorized env (self E) \<Longrightarrow> bond_fits d t e \<Longrightarrow>
    exec env peers e t = Ok r u \<Longrightarrow> later E peers d s u"
| moved: "later E peers d s t \<Longrightarrow>
    (\<And>x. tok_balance E x (self E) (ledger t) \<le> tok_balance E x (self E) l) \<Longrightarrow>
    later E peers d s (t\<lparr>ledger := l\<rparr>)"

lemma later_reachable: "later E peers d s u \<Longrightarrow> reachable E peers d s \<Longrightarrow> reachable E peers d u"
proof (induction rule: later.induct)
  case (call t env e r u)
  then have "invoke (exec env peers e) t = (Inr r, u)" by (simp add: invoke_def)
  then show ?case using reachable.called [OF _ call.hyps(2,3,4)] call by blast
qed (auto intro: reachable.tokens_moved)

section \<open>Which calls change the settings\<close>

fun configures :: "entry \<Rightarrow> bool" where
  "configures (SetAssetAllowed t b) = True"
| "configures (SetEstablishedAnswerCount n) = True"
| "configures (SetAdmin a) = True"
| "configures (ProposeAdminRotation a) = True"
| "configures CancelAdminRotation = True"
| "configures ExecuteAdminRotation = True"
| "configures (SetResolver r) = True"
| "configures (SetTimeoutLedgers n) = True"
| "configures (ProposeUpgrade h) = True"
| "configures CancelUpgrade = True"
| "configures ExecuteUpgrade = True"
| "configures (SetPaused b) = True"
| "configures (SetMigrationSource a) = True"
| "configures ClearMigrationSource = True"
| "configures (SetQuorumBounds m n) = True"
| "configures (SetLendingAuthority a) = True"
| "configures (SetPublicGoodsConfig a n) = True"
| "configures (SetKycAttestor k) = True"
| "configures e = False"

fun concludes :: "entry \<Rightarrow> bool" where
  "concludes (ResolveChallengeable q ws ls n) = True"
| "concludes (DisputeResolve q) = True"
| "concludes (FinalizeResolve q) = True"
| "concludes e = False"

lemma exec_settings: "\<not> configures e \<Longrightarrow> \<not> concludes e \<Longrightarrow> untouched settings (exec env peers e)"
  by (cases e) (simp_all add: void_def frame_intros)

lemma resolution_config:
  "wp (resolve_challengeable env q ws ls n) (\<lambda>_ u. config u = config s
     \<and> (\<exists>r x. p_pending_resolution u = (p_pending_resolution s)(q \<mapsto> r) \<and> p_question s q = Some x
        \<and> q_status x = Pending)) s"
  "wp (dispute_resolve env q) (\<lambda>_ u. config u = config s \<and> (\<exists>r. p_pending_resolution s q = Some r
     \<and> p_pending_resolution u = (p_pending_resolution s)(q \<mapsto> r\<lparr>res_disputed := True\<rparr>))) s"
  by (auto simp: resolve_challengeable_def dispute_resolve_def load_resolution_def check_lists_def
      check_quorum_bounds_def validate_worker_lists_def put_resolution_def store_question_def put_question_def Let_def
      wp_simps config_def)

lemma wp_settings:
  assumes "untouched settings m" and "\<And>a u. settings u = settings s \<Longrightarrow> Q a u"
  shows "wp m Q s"
  by (rule wp_conseq [OF wp_untouched [OF assms(1)]]) (rule assms(2))

lemma pay_worker_settings: "untouched settings (pay_worker env q t v w)"
  unfolding pay_worker_def by (intro frame_intros)

lemma close_config:
  assumes "settings t = settings s"
  shows "wp (block [route_platform_take env tok plat v, drop_resolution q, settle_question env q x st, publish e])
     (\<lambda>_ u. settings u = (config s, (p_pending_resolution s)(q := None))) t"
  unfolding wp_block_Cons drop_resolution_def
proof (rule wp_settings [OF settings.pay_frame(3)], unfold wp_modify, rule wp_settings [OF settings.question_frame(2)])
  fix u w :: "'a world"
  assume "settings u = settings t"
    and "settings w = settings (u\<lparr>p_pending_resolution := (p_pending_resolution u)(q := None)\<rparr>)"
  then show "wp (publish e) (\<lambda>_. wp (block []) (\<lambda>_ u. settings u = (config s, (p_pending_resolution s)(q := None)))) w"
    using assms by (simp add: wp_simps settings_defs)
qed

lemma finalize_config:
  "wp (finalize_resolve env q) (\<lambda>_ u. settings u = (config s, (p_pending_resolution s)(q := None))
     \<and> (\<exists>r. p_pending_resolution s q = Some r \<and> \<not> res_disputed r)) s"
proof -
  have rest: "wp (for_each ws (pay_worker env q tok c)) (\<lambda>_. wp
      (and_then (forfeit_bond q v) (\<lambda>(w, b). block [route_platform_take env tok plat w, drop_resolution q,
         settle_question env q x Resolved, publish (e w b)]))
      (\<lambda>_ u. settings u = (config s, (p_pending_resolution s)(q := None)))) t"
    if "settings t = settings s" for ws tok c v plat x e t
    unfolding wp_seq_do wp_and_then case_prod_beta
    by (rule wp_settings [OF untouched_loops(1) [OF pay_worker_settings]],
        rule wp_settings [OF settings.forfeit_frame], rule close_config) (simp add: that)
  show ?thesis
    unfolding finalize_resolve_def load_resolution_def Let_def
    by (auto simp: wp_simps wp_conj intro!: wp_settings [OF settings.pay_frame(1)] rest
        simp del: block.simps for_each.simps split: option.split prod.split)
qed

lemma configure_stage: "configures e \<Longrightarrow> wp (exec env peers e) (\<lambda>_ u. stage u = stage s) s"
proof -
  have "wp m (\<lambda>_ u. stage u = stage s) s" if "wp m (\<lambda>_. aside s) s" for m :: "('a, unit) call"
    using that by (rule wp_conseq) (simp add: aside_def)
  then show "configures e \<Longrightarrow> wp (exec env peers e) (\<lambda>_ u. stage u = stage s) s"
    by (cases e) (simp_all add: config_aside record_aside account_stage,
        simp add: set_public_goods_config_def wp_simps stage_def)
qed

text \<open>A resolution once disputed stays as it is.\<close>

lemma disputed_kept:
  assumes "stage_ok s" and "exec env peers e s = Ok z u"
    and "p_pending_resolution s q = Some r" and "res_disputed r"
  shows "p_pending_resolution u q = Some r"
proof (cases "concludes e")
  case True
  have open_q: "qstatus s q = Some ResolvedPending"
    using assms(1,3) unfolding stage_ok_def by (metis option.distinct(1))
  from True show ?thesis
  proof (cases e rule: concludes.cases)
    case (1 p ws ls n)
    with assms(2) wp_OkD [OF resolution_config(1), of env p ws ls n s z u] open_q assms(3)
    show ?thesis by (auto simp: qstatus_def)
  next
    case (2 p)
    with assms(2) wp_OkD [OF resolution_config(2), of env p s z u] assms(3,4)
    show ?thesis by auto
  next
    case (3 p)
    with assms(2) wp_OkD [OF finalize_config, of env p s z u] assms(3,4)
    show ?thesis by (auto simp: settings_def)
  qed simp_all
next
  case False
  show ?thesis
  proof (cases "configures e")
    case True
    have "stage u = stage s" using wp_OkD [OF configure_stage [OF True] assms(2)] .
    then show ?thesis using assms(3) by (simp add: stage_def)
  next
    case False
    with \<open>\<not> concludes e\<close> assms(2) have "settings u = settings s" using untouchedD [OF exec_settings] by blast
    then show ?thesis using assms(3) by (simp add: settings_def)
  qed
qed

text \<open>No edge leads away from it either, so its escrow never moves again.\<close>

lemma disputed_stuck:
  assumes "later E peers d s u" and "reachable E peers d s" and "sep41 E" and "\<And>a. peer_bounded E (peers a)"
    and "p_pending_resolution s q = Some r" and "res_disputed r"
  shows "p_pending_resolution u q = Some r \<and> p_question u q = p_question s q"
  using assms(1)
proof induction
  case (call t env e z u)
  have reach: "reachable E peers d t" using later_reachable [OF call.hyps(1) assms(2)] .
  have ok: "stage_ok t" using reachable_sound [OF reach assms(3,4)] by (simp add: sound_def)
  have r: "p_pending_resolution t q = Some r" using call.IH by simp
  then have "qstatus t q = Some ResolvedPending"
    using ok unfolding stage_ok_def by (metis option.distinct(1))
  then obtain x where x: "p_question t q = Some x" "q_status x = ResolvedPending" by (auto simp: qstatus_def)
  have "\<not> edge env t q (Some x) oy" for oy
    by (rule notI, erule edge_from) (use x r assms(6) in \<open>auto simp: final_unchallenged_def\<close>)
  then have "p_question u q = p_question t q"
    using reachable_edge [OF reach assms(3,4) call.hyps(5), of q] x(1) by auto
  then show ?case using disputed_kept [OF ok call.hyps(5) r assms(6)] call.IH by simp
qed (simp_all add: assms(5))

end
