(* ===== verification/Governance_Rules.thy ===== *)
theory Governance_Rules
  imports Worlds
begin

text \<open>
  Who may change the contract's configuration, and when: the admin and the code change only
  through a proposal that has waited out its delay, the default token and the platform never.
\<close>

lemma conclude_config: "concludes e \<Longrightarrow> wp (exec env peers e) (\<lambda>_ u. config u = config s) s"
  by (cases e rule: concludes.cases)
    (auto simp: settings_def intro: wp_conseq [OF resolution_config(1)] wp_conseq [OF resolution_config(2)]
      wp_conseq [OF finalize_config])

lemma config_step:
  assumes "\<not> configures e" and "exec env peers e s = Ok r u"
  shows "config u = config s"
proof (cases "concludes e")
  case True
  show ?thesis using wp_OkD [OF conclude_config [OF True] assms(2)] .
next
  case False
  show ?thesis
    using untouchedD [OF exec_settings [OF assms(1) False] assms(2)] by (simp add: settings_def)
qed

lemmas governance_defs = set_asset_allowed_def allow_asset_def disallow_asset_def
  set_established_answer_count_def set_admin_def propose_admin_rotation_def schedule_admin_rotation_def
  cancel_admin_rotation_def execute_admin_rotation_def load_rotation_def set_resolver_def set_timeout_ledgers_def
  propose_upgrade_def cancel_upgrade_def execute_upgrade_def load_upgrade_def update_current_contract_wasm_def
  set_paused_def set_migration_source_def clear_migration_source_def set_quorum_bounds_def
  set_lending_authority_def set_public_goods_config_def set_kyc_attestor_def Let_def

lemma admin_fixed: "e \<noteq> ExecuteAdminRotation \<Longrightarrow> configures e \<Longrightarrow> wp (exec env peers e) (\<lambda>_ u. i_admin u = i_admin s) s"
  by (cases e) (simp_all add: governance_defs wp_simps split: option.split)

lemma rotation_fixed:
  "e \<notin> {SetAdmin a | a. True} \<union> {ProposeAdminRotation a | a. True} \<union> {CancelAdminRotation, ExecuteAdminRotation} \<Longrightarrow>
    configures e \<Longrightarrow> wp (exec env peers e) (\<lambda>_ u. i_pending_rotation u = i_pending_rotation s) s"
  by (cases e) (simp_all add: governance_defs wp_simps split: option.split)

lemma code_fixed: "e \<noteq> ExecuteUpgrade \<Longrightarrow> configures e \<Longrightarrow> wp (exec env peers e) (\<lambda>_ u. current_wasm u = current_wasm s) s"
  by (cases e) (simp_all add: governance_defs wp_simps split: option.split)

lemma upgrade_fixed:
  "e \<notin> {ProposeUpgrade h | h. True} \<union> {CancelUpgrade, ExecuteUpgrade} \<Longrightarrow>
    configures e \<Longrightarrow> wp (exec env peers e) (\<lambda>_ u. i_pending_upgrade u = i_pending_upgrade s) s"
  by (cases e) (simp_all add: governance_defs wp_simps split: option.split)

lemma roots_fixed: "configures e \<Longrightarrow> wp (exec env peers e) (\<lambda>_ u. i_token u = i_token s \<and> i_platform u = i_platform s) s"
  by (cases e) (simp_all add: governance_defs wp_simps split: option.split)

lemma timeout_valid:
  "configures e \<Longrightarrow> wp (exec env peers e) (\<lambda>_ u. i_timeout_ledgers u = i_timeout_ledgers s
     \<or> (\<exists>n. i_timeout_ledgers u = Some n \<and> valid_timeout n)) s"
  by (cases e) (simp_all add: governance_defs wp_simps split: option.split)

section \<open>One change\<close>

lemma admin_change:
  assumes "exec env peers e s = Ok r u" and "i_admin u \<noteq> i_admin s"
  shows "\<exists>old rot. e = ExecuteAdminRotation \<and> i_admin s = Some old \<and> authorized env old
     \<and> i_pending_rotation s = Some rot \<and> rot_executable_at rot \<le> now env
     \<and> authorized env (rot_new_admin rot) \<and> i_admin u = Some (rot_new_admin rot)"
proof -
  have "configures e" using config_step [OF _ assms(1)] assms(2) by (auto simp: config_def)
  then have "e = ExecuteAdminRotation" using wp_OkD [OF admin_fixed assms(1)] assms(2) by blast
  moreover have "wp (execute_admin_rotation env) (\<lambda>_ u. \<exists>old rot. i_admin s = Some old \<and> authorized env old
     \<and> i_pending_rotation s = Some rot \<and> rot_executable_at rot \<le> now env
     \<and> authorized env (rot_new_admin rot) \<and> i_admin u = Some (rot_new_admin rot)) s"
    by (auto simp: execute_admin_rotation_def load_rotation_def wp_simps)
  ultimately show ?thesis using wp_OkD assms(1) by fastforce
qed

lemma rotation_change:
  assumes "exec env peers e s = Ok r u" and "i_pending_rotation u = Some rot"
    and "i_pending_rotation u \<noteq> i_pending_rotation s"
  shows "admin_signed env s \<and> rot_executable_at rot = saturating_add (now env) ADMIN_ROTATION_DELAY_LEDGERS"
proof -
  have "configures e" using config_step [OF _ assms(1)] assms(3) by (auto simp: config_def)
  then consider a where "e = SetAdmin a" | a where "e = ProposeAdminRotation a"
    | "e = CancelAdminRotation" | "e = ExecuteAdminRotation"
    using wp_OkD [OF rotation_fixed assms(1)] assms(3) by blast
  moreover have "wp (set_admin env a) (\<lambda>_ u. admin_signed env s \<and> (\<exists>rot. i_pending_rotation u = Some rot
      \<and> rot_executable_at rot = saturating_add (now env) ADMIN_ROTATION_DELAY_LEDGERS)) s" for a
    by (auto simp: governance_defs admin_signed_def wp_simps)
  moreover have "propose_admin_rotation env a = set_admin env a" for a
    by (simp add: governance_defs)
  moreover have "wp (cancel_admin_rotation env) (\<lambda>_ u. i_pending_rotation u = None) s"
      "wp (execute_admin_rotation env) (\<lambda>_ u. i_pending_rotation u = None) s"
    by (auto simp: governance_defs wp_simps)
  ultimately show ?thesis
    using assms(1,2) by cases (fastforce dest: wp_OkD)+
qed

lemma code_change:
  assumes "exec env peers e s = Ok r u" and "current_wasm u \<noteq> current_wasm s"
  shows "\<exists>upg. e = ExecuteUpgrade \<and> admin_signed env s \<and> i_pending_upgrade s = Some upg
     \<and> upg_executable_at upg \<le> now env \<and> current_wasm u = upg_wasm_hash upg"
proof -
  have "configures e" using config_step [OF _ assms(1)] assms(2) by (auto simp: config_def)
  then have "e = ExecuteUpgrade" using wp_OkD [OF code_fixed assms(1)] assms(2) by blast
  moreover have "wp (execute_upgrade env) (\<lambda>_ u. \<exists>upg. admin_signed env s \<and> i_pending_upgrade s = Some upg
     \<and> upg_executable_at upg \<le> now env \<and> current_wasm u = upg_wasm_hash upg) s"
    by (auto simp: governance_defs admin_signed_def wp_simps)
  ultimately show ?thesis using wp_OkD assms(1) by fastforce
qed

lemma upgrade_change:
  assumes "exec env peers e s = Ok r u" and "i_pending_upgrade u = Some upg"
    and "i_pending_upgrade u \<noteq> i_pending_upgrade s"
  shows "admin_signed env s \<and> upg_executable_at upg = saturating_add (now env) UPGRADE_DELAY_LEDGERS"
proof -
  have "configures e" using config_step [OF _ assms(1)] assms(3) by (auto simp: config_def)
  then consider h where "e = ProposeUpgrade h" | "e = CancelUpgrade" | "e = ExecuteUpgrade"
    using wp_OkD [OF upgrade_fixed assms(1)] assms(3) by blast
  moreover have "wp (propose_upgrade env h) (\<lambda>_ u. admin_signed env s \<and> (\<exists>upg. i_pending_upgrade u = Some upg
      \<and> upg_executable_at upg = saturating_add (now env) UPGRADE_DELAY_LEDGERS)) s" for h
    by (auto simp: governance_defs admin_signed_def wp_simps)
  moreover have "wp (cancel_upgrade env) (\<lambda>_ u. i_pending_upgrade u = None) s"
      "wp (execute_upgrade env) (\<lambda>_ u. i_pending_upgrade u = None) s"
    by (auto simp: governance_defs wp_simps)
  ultimately show ?thesis
    using assms(1,2) by cases (fastforce dest: wp_OkD)+
qed

section \<open>Delays over a run\<close>

text \<open>A run of committed calls between two ledgers; time does not go back.\<close>

inductive within :: "(address \<Rightarrow> 'w peer) \<Rightarrow> u32 \<Rightarrow> 'w world \<Rightarrow> u32 \<Rightarrow> 'w world \<Rightarrow> bool" for peers n s where
  begins: "within peers n s n s"
| calls: "within peers n s m t \<Longrightarrow> m \<le> now env \<Longrightarrow> exec env peers e t = Ok r u \<Longrightarrow> within peers n s (now env) u"
| tokens: "within peers n s m t \<Longrightarrow> within peers n s m (t\<lparr>ledger := l\<rparr>)"

lemma admin_delay:
  assumes "within peers n s m u" and "i_pending_rotation s = None"
  shows "saturating_add n ADMIN_ROTATION_DELAY_LEDGERS \<le> m \<or> i_admin u = i_admin s
     \<and> (\<forall>rot. i_pending_rotation u = Some rot \<longrightarrow> saturating_add n ADMIN_ROTATION_DELAY_LEDGERS \<le> rot_executable_at rot)"
  using assms(1)
proof induction
  case (calls m t env e r u)
  have start: "n \<le> m" using calls.hyps(1) by induction simp_all
  show ?case
  proof (cases "saturating_add n ADMIN_ROTATION_DELAY_LEDGERS \<le> now env")
    case False
    with calls.IH calls.hyps(2) have ih: "i_admin t = i_admin s" "\<And>rot. i_pending_rotation t = Some rot \<Longrightarrow>
        saturating_add n ADMIN_ROTATION_DELAY_LEDGERS \<le> rot_executable_at rot" by auto
    have "i_admin u = i_admin t"
      using admin_change [OF calls.hyps(3)] ih(2) False by (meson order_trans)
    moreover have "saturating_add n ADMIN_ROTATION_DELAY_LEDGERS \<le> rot_executable_at rot"
      if "i_pending_rotation u = Some rot" for rot
      using rotation_change [OF calls.hyps(3) that] ih(2) that start calls.hyps(2)
      by (cases "i_pending_rotation u = i_pending_rotation t") (auto simp: saturating_add_def)
    ultimately show ?thesis using ih(1) by simp
  qed simp
qed (simp_all add: assms(2))

lemma code_delay:
  assumes "within peers n s m u" and "i_pending_upgrade s = None"
  shows "saturating_add n UPGRADE_DELAY_LEDGERS \<le> m \<or> current_wasm u = current_wasm s
     \<and> (\<forall>upg. i_pending_upgrade u = Some upg \<longrightarrow> saturating_add n UPGRADE_DELAY_LEDGERS \<le> upg_executable_at upg)"
  using assms(1)
proof induction
  case (calls m t env e r u)
  have start: "n \<le> m" using calls.hyps(1) by induction simp_all
  show ?case
  proof (cases "saturating_add n UPGRADE_DELAY_LEDGERS \<le> now env")
    case False
    with calls.IH calls.hyps(2) have ih: "current_wasm t = current_wasm s" "\<And>upg. i_pending_upgrade t = Some upg \<Longrightarrow>
        saturating_add n UPGRADE_DELAY_LEDGERS \<le> upg_executable_at upg" by auto
    have "current_wasm u = current_wasm t"
      using code_change [OF calls.hyps(3)] ih(2) False by (meson order_trans)
    moreover have "saturating_add n UPGRADE_DELAY_LEDGERS \<le> upg_executable_at upg"
      if "i_pending_upgrade u = Some upg" for upg
      using upgrade_change [OF calls.hyps(3) that] ih(2) that start calls.hyps(2)
      by (cases "i_pending_upgrade u = i_pending_upgrade t") (auto simp: saturating_add_def)
    ultimately show ?thesis using ih(1) by simp
  qed simp
qed (simp_all add: assms(2))

section \<open>Deadlines\<close>

text \<open>Every question's timeout, and the one new questions get, is a valid one.\<close>

definition terms_ok :: "'w world \<Rightarrow> bool" where
  "terms_ok s \<longleftrightarrow> (\<forall>n. i_timeout_ledgers s = Some n \<longrightarrow> valid_timeout n)
     \<and> (\<forall>q x. p_question s q = Some x \<longrightarrow> valid_timeout (q_timeout_ledgers x))"

lemma edge_valid:
  assumes "edge env s q ox (Some y)" and "terms_ok s" and "\<And>x. ox = Some x \<Longrightarrow> valid_timeout (q_timeout_ledgers x)"
  shows "valid_timeout (q_timeout_ledgers y)"
  using assms by (cases rule: edge.cases) (auto simp: terms_ok_def)

lemma reachable_terms:
  assumes "reachable E peers d s" and "sep41 E" and "\<And>a. peer_bounded E (peers a)"
  shows "terms_ok s"
  using assms(1)
proof induction
  case (created env l admin platform timeout s)
  have "wp (constructor env admin d platform timeout) (\<lambda>_. terms_ok) (blank_world l)"
    by (simp add: constructor_def terms_ok_def blank_world_def wp_simps)
  then show ?case using created(3) by (rule wp_OkD)
next
  case (called s env e r u)
  show ?case
  proof (cases "exec env peers e s")
    case (Ok z v)
    then have u: "u = v" using called(5) by (simp add: invoke_def)
    have "i_timeout_ledgers v = i_timeout_ledgers s \<or> (\<exists>n. i_timeout_ledgers v = Some n \<and> valid_timeout n)"
      using config_step [OF _ Ok] wp_OkD [OF timeout_valid Ok] by (cases "configures e") (auto simp: config_def)
    moreover have "valid_timeout (q_timeout_ledgers y)" if "p_question v q = Some y" for q y
      using reachable_edge [OF called(1) assms(2,3) Ok, of q] that called.IH
      by (auto intro: edge_valid simp: terms_ok_def)
    ultimately show ?thesis using called.IH u by (auto simp: terms_ok_def)
  qed (use called in \<open>auto simp: invoke_def\<close>)
qed (simp add: terms_ok_def)

end
