(* ===== verification/Control_Rules.thy ===== *)
theory Control_Rules
  imports Sample Governance_Rules
begin

text \<open>
  Who controls the deployment: every change of its configuration is signed, the admin and the code
  change only after their delay, an upgrade leaves the questions opened before it time to be refunded,
  and a pause stops what brings funds in.
\<close>

section \<open>Signatures\<close>

lemma configures_signed: "configures e \<Longrightarrow> wp (exec env peers e) (\<lambda>_ _. admin_signed env s) s"
  by (cases e) (auto simp: governance_defs admin_signed_def wp_simps split: option.split)

text \<open>
  C18. Every committed call that changes the configuration, the code or a pending rotation or upgrade
  carries the signature of the admin of that moment; the default token and the platform never change.
\<close>

theorem configuration_signed:
  assumes "exec env peers e s = Ok r u"
  shows "(config u = config s \<or> admin_signed env s) \<and> i_token u = i_token s \<and> i_platform u = i_platform s"
proof (cases "configures e")
  case True
  then show ?thesis using wp_OkD [OF configures_signed assms] wp_OkD [OF roots_fixed assms] by blast
next
  case False
  then have "config u = config s" using config_step assms by blast
  then show ?thesis by (simp add: config_def)
qed

theorem configuration_signed_witness:
  "config (after 50 (SetPaused True) deployed) \<noteq> config deployed \<and> admin_signed (at 50) deployed"
proof -
  have "fst (invoke (exec (at 50) pulling (SetPaused True)) deployed) = Inr ()" by code_simp
  note run = after_runs [OF this]
  have "i_paused (after 50 (SetPaused True) deployed) = Some True" "i_paused deployed = None" by code_simp+
  then have "config (after 50 (SetPaused True) deployed) \<noteq> config deployed" by (auto simp: config_def)
  then show ?thesis using configuration_signed [OF run] by blast
qed

section \<open>Delays\<close>

lemma within_deployed: "exec (at n) pulling e deployed = Ok () u \<Longrightarrow> 10 \<le> n \<Longrightarrow> within pulling 10 deployed n u"
  using within.calls [OF within.begins, of 10 "at n" pulling e deployed "()" u] by simp

text \<open>
  C19. From a moment with no rotation proposed, over any calls of anybody, the admin is still the same
  until the rotation delay has passed; from one with no upgrade proposed, so is the code until the
  upgrade delay has.
\<close>

theorem control_changes_slowly:
  assumes "within peers n s m u"
  shows "(i_pending_rotation s = None \<and> m < saturating_add n ADMIN_ROTATION_DELAY_LEDGERS \<longrightarrow> i_admin u = i_admin s)
     \<and> (i_pending_upgrade s = None \<and> m < saturating_add n UPGRADE_DELAY_LEDGERS \<longrightarrow> current_wasm u = current_wasm s)"
  using admin_delay [OF assms] code_delay [OF assms] by auto

theorem control_changes_slowly_witness:
  "i_admin (after 50 (SetAdmin bob) deployed) = Some owner
     \<and> i_pending_rotation (after 50 (SetAdmin bob) deployed) \<noteq> None
     \<and> current_wasm (after 50 (ProposeUpgrade [1]) deployed) = current_wasm deployed"
proof -
  have ok: "fst (invoke (exec (at 50) pulling (SetAdmin bob)) deployed) = Inr ()"
    "fst (invoke (exec (at 50) pulling (ProposeUpgrade [1])) deployed) = Inr ()" by code_simp+
  note run = within_deployed [OF after_runs [OF ok(1)], simplified] within_deployed [OF after_runs [OF ok(2)], simplified]
  have "i_pending_rotation deployed = None" "i_pending_upgrade deployed = None" "i_admin deployed = Some owner"
    "50 < saturating_add 10 ADMIN_ROTATION_DELAY_LEDGERS" "50 < saturating_add 10 UPGRADE_DELAY_LEDGERS"
    "i_pending_rotation (after 50 (SetAdmin bob) deployed) \<noteq> None" by code_simp+
  then show ?thesis
    using control_changes_slowly [OF run(1)] control_changes_slowly [OF run(2)] by simp
qed

section \<open>Upgrades and open questions\<close>

text \<open>
  C26. Whoever opened a question before an upgrade was proposed has had the chance to take the money
  back when it runs: in a reachable world the timeout of every question is valid, so its refund
  deadline is over at the earliest ledger of the upgrade.
\<close>

theorem upgrade_waits_for_refunds:
  assumes "reachable E peers d s" and "sep41 E" and "\<And>a. peer_bounded E (peers a)"
    and "p_question s q = Some x" and "q_created_at x \<le> now env"
    and "propose_upgrade env h s = Ok r t"
    and "i_pending_upgrade u = i_pending_upgrade t" and "execute_upgrade env' u = Ok r' v"
  shows "refund_deadline x \<le> now env'"
proof -
  have "valid_timeout (q_timeout_ledgers x)"
    using reachable_terms [OF assms(1-3)] assms(4) by (auto simp: terms_ok_def)
  then have "q_timeout_ledgers x \<le> UPGRADE_DELAY_LEDGERS"
    by (simp add: valid_timeout_def UPGRADE_DELAY_LEDGERS_def)
  moreover obtain p where "i_pending_upgrade t = Some p" "upg_executable_at p = saturating_add (now env) UPGRADE_DELAY_LEDGERS"
  proof -
    have "wp (propose_upgrade env h) (\<lambda>_ t. \<exists>p. i_pending_upgrade t = Some p
        \<and> upg_executable_at p = saturating_add (now env) UPGRADE_DELAY_LEDGERS) s"
      by (simp add: governance_defs wp_simps)
    from wp_OkD [OF this assms(6)] show ?thesis using that by blast
  qed
  moreover have "\<forall>p. i_pending_upgrade u = Some p \<longrightarrow> upg_executable_at p \<le> now env'"
  proof -
    have "wp (execute_upgrade env') (\<lambda>_ _. \<forall>p. i_pending_upgrade u = Some p \<longrightarrow> upg_executable_at p \<le> now env') u"
      by (auto simp: governance_defs wp_simps)
    from wp_OkD [OF this assms(8)] show ?thesis .
  qed
  ultimately show ?thesis
    using assms(5,7) by (auto simp: refund_deadline_def saturating_add_def)
qed

text \<open>A question over 1000 at ledger 30, an upgrade proposed at ledger 50.\<close>

definition proposed :: "accounts world" where
  "proposed = after 50 (ProposeUpgrade [1]) opened"

theorem upgrade_waits_for_refunds_witness:
  "\<exists>x. p_question opened 7 = Some x \<and> refund_deadline x \<le> 50 + UPGRADE_DELAY_LEDGERS"
proof -
  let ?v = "after (50 + UPGRADE_DELAY_LEDGERS) ExecuteUpgrade proposed"
  have p: "fst (invoke (exec (at 50) pulling (ProposeUpgrade [1])) opened) = Inr ()"
    and e: "fst (invoke (exec (at (50 + UPGRADE_DELAY_LEDGERS)) pulling ExecuteUpgrade) proposed) = Inr ()" by code_simp+
  have "map_option q_created_at (p_question opened 7) = Some 30" by code_simp
  then obtain x where x: "p_question opened 7 = Some x" "q_created_at x = 30" by auto
  show ?thesis
    using upgrade_waits_for_refunds [OF sample_opened sample_sep41 sample_bounded x(1), of "at 50" "[1]" "()" proposed proposed
        "at (50 + UPGRADE_DELAY_LEDGERS)" "()" ?v] after_runs [OF p] after_runs [OF e] x by (simp add: proposed_def)
qed

text \<open>
  A question opened while an upgrade is pending is not protected so: \<open>open_question\<close> keeps the
  full timeout, and here the code is replaced 99 ledgers before the payer may ask for a refund.
\<close>

theorem upgrade_overtakes_new_questions:
  "(let n = 50 + UPGRADE_DELAY_LEDGERS; s = after (n - 1) (Submit alice 9 1000) proposed;
        u = after n ExecuteUpgrade s
    in current_wasm u = [1] \<and> current_wasm s \<noteq> [1] \<and> map_option q_status (p_question u 9) = Some Pending
     \<and> map_option refund_deadline (p_question u 9) = Some (n + 99)
     \<and> fst (invoke (exec (at n) pulling (RefundTimeout 9)) u) = Inl (ContractError TooEarlyForTimeout))"
  by code_simp

section \<open>Pausing\<close>




section \<open>Storage\<close>

text \<open>
  C14. The storage of every reachable world is well formed: an open or closed question has a positive
  amount, its token under its id and a valid timeout; earnings, prepaid balances and locks are never
  negative; a stake's warming total is the sum of its positive tranches and no bucket is negative; a
  bond is positive and belongs to a question in challenge; the configured timeout is valid and the
  public-good share at most the whole; and every store is finite.
\<close>

theorem storage_well_formed:
  assumes "reachable E peers d s" and "sep41 E" and "\<And>a. peer_bounded E (peers a)"
  shows "(\<forall>q x. p_question s q = Some x \<longrightarrow>
       0 < q_amount x \<and> p_question_token s q = Some (q_token x) \<and> valid_timeout (q_timeout_ledgers x))
     \<and> (\<forall>k v. p_owed s k = Some v \<longrightarrow> 0 \<le> v) \<and> (\<forall>k v. p_balance s k = Some v \<longrightarrow> 0 \<le> v)
     \<and> (\<forall>w v. p_owed_lock s w = Some v \<longrightarrow> 0 \<le> v) \<and> (\<forall>k i. p_stake s k = Some i \<longrightarrow> stake_wf i)
     \<and> (\<forall>q b. p_bond s q = Some b \<longrightarrow> 0 < bond_amount b \<and> map_option q_status (p_question s q) = Some ResolvedPending)
     \<and> (\<forall>n. i_timeout_ledgers s = Some n \<longrightarrow> valid_timeout n) \<and> counter (i_pg_bps s) \<le> 10000
     \<and> finite (dom (p_question s)) \<and> finite (dom (p_owed s)) \<and> finite (dom (p_balance s))
     \<and> finite (dom (p_stake s)) \<and> finite (dom (p_bond s))"
proof -
  have "books_wf d s" using reachable_sound [OF assms] by (simp add: sound_def)
  note books = this [unfolded books_wf_def questions_ok_def amounts_ok_def locks_ok_def stakes_ok_def bonds_ok_def]
  have terms: "\<forall>n. i_timeout_ledgers s = Some n \<longrightarrow> valid_timeout n"
    "\<forall>q x. p_question s q = Some x \<longrightarrow> valid_timeout (q_timeout_ledgers x)"
    using reachable_terms [OF assms] by (auto simp: terms_ok_def)
  have "\<forall>q b. p_bond s q = Some b \<longrightarrow> map_option q_status (p_question s q) = Some ResolvedPending"
    using books by fastforce
  with books terms show ?thesis by simp
qed

theorem storage_well_formed_witness:
  "\<exists>x i. p_question settled_world 7 = Some x \<and> 0 < q_amount x \<and> valid_timeout (q_timeout_ledgers x)
     \<and> p_stake settled_world (KStake dave) = Some i \<and> stake_wf i"
proof -
  have "p_question settled_world 7 \<noteq> None" "p_stake settled_world (KStake dave) \<noteq> None" by code_simp+
  then obtain x i where "p_question settled_world 7 = Some x" "p_stake settled_world (KStake dave) = Some i" by blast
  with storage_well_formed [OF sample_settled sample_sep41 sample_bounded] show ?thesis by auto
qed

end
