(* ===== verification/Question_Rules.thy ===== *)
theory Question_Rules
  imports Sample Worlds
begin

text \<open>
  What a question's parties can rely on: which calls move it and who must sign them, that the index
  of open questions is exact, that its terms never change, that a payer gets the money back after the
  deadline, and where the code leaves a question for good.
\<close>

section \<open>Funds that are always there\<close>

text \<open>A token that pays whatever its holder has.\<close>

definition live_token :: "('w, 'x) host_scheme \<Rightarrow> bool" where
  "live_token E \<longleftrightarrow> (\<forall>t r a l. 0 \<le> a \<and> a \<le> tok_balance E t (self E) l \<longrightarrow> tok_transfer E t (self E) r a l \<noteq> None)"

lemma msum_member:
  assumes "finite (dom m)" and "\<And>j w. m j = Some w \<Longrightarrow> 0 \<le> f j w" and "m k = Some v"
  shows "f k v \<le> msum f m"
proof -
  have "f k (the (m k)) \<le> msum f m"
    unfolding msum_def by (rule member_le_sum) (use assms in auto)
  then show ?thesis using assms(3) by simp
qed

lemma books_parts:
  assumes "books_wf d s"
  shows "0 \<le> msum (escrowed t) (p_question s)" and "0 \<le> msum (keyed d t) (p_owed s)"
    and "0 \<le> msum (keyed d t) (p_balance s)" and "0 \<le> msum (keyed_stake d t) (p_stake s)"
    and "0 \<le> msum (bonded d t) (p_bond s)"
proof -
  have ok: "questions_ok (p_question s) (p_question_token s)" "amounts_ok (p_owed s)" "amounts_ok (p_balance s)"
      "stakes_ok (p_stake s)" "bonds_ok d (p_bond s) (p_question s)"
    using assms by (simp_all add: books_wf_def)
  show "0 \<le> msum (escrowed t) (p_question s)"
    by (rule msum_nonneg) (use ok(1) in \<open>auto simp: questions_ok_def escrowed_def less_imp_le\<close>)
  show "0 \<le> msum (keyed d t) (p_owed s)" "0 \<le> msum (keyed d t) (p_balance s)"
    by (rule msum_nonneg; use ok(2,3) in \<open>auto simp: amounts_ok_def keyed_def\<close>)+
  show "0 \<le> msum (keyed_stake d t) (p_stake s)"
    by (rule msum_nonneg) (use ok(4) in \<open>auto simp: stakes_ok_def keyed_stake_def stake_total_nonneg\<close>)
  show "0 \<le> msum (bonded d t) (p_bond s)"
    by (rule msum_nonneg) (use ok(5) in \<open>auto simp: bonds_ok_def bonded_def less_imp_le\<close>)
qed

lemma escrow_covered:
  assumes "sound E d s" and "p_question s q = Some x" and "open_status (q_status x)"
  shows "0 \<le> q_amount x" and "q_amount x \<le> tok_balance E (q_token x) (self E) (ledger s)"
proof -
  have b: "books_wf d s" "0 \<le> slack E d (q_token x) s" using assms(1) by (simp_all add: sound_def)
  then have q: "questions_ok (p_question s) (p_question_token s)" by (simp add: books_wf_def)
  then show "0 \<le> q_amount x" using assms(2) by (auto simp: questions_ok_def less_imp_le)
  have "escrowed (q_token x) q x \<le> msum (escrowed (q_token x)) (p_question s)"
    by (rule msum_member) (use q assms(2) in \<open>auto simp: questions_ok_def escrowed_def less_imp_le\<close>)
  then show "q_amount x \<le> tok_balance E (q_token x) (self E) (ledger s)"
    using books_parts [OF b(1), of "q_token x"] b(2) assms(3)
    by (simp add: escrowed_def slack_def liabilities_def)
qed

lemma refund_paid:
  assumes "sound E d s" and "live_token E" and "on_host E env" and "p_question s q = Some x"
    and "open_status (q_status x)"
  shows "tok_transfer env (q_token x) (self env) (q_payer x) (q_amount x) (ledger s) \<noteq> None"
  using escrow_covered [OF assms(1,4,5)] assms(2) on_host_simps [OF assms(3)] by (simp add: live_token_def)

section \<open>Transitions\<close>

text \<open>
  C8. In every reachable world a committed call leaves each question as it is or moves it along one
  edge of the life cycle, and the edge names who must have signed: a question is opened by its payer, the
  admin or the configured migration source, resolved by the resolver or admin, refunded by the admin or
  after its deadline, finalized only when its window passed unchallenged, reopened by its own payer.
\<close>

theorem question_transitions:
  assumes "reachable E peers d s" and "sep41 E" and "\<And>a. peer_bounded E (peers a)"
    and "exec env peers e s = Ok r u"
  shows "p_question u q = p_question s q \<or> edge env s q (p_question s q) (p_question u q)"
  by (rule reachable_edge [OF assms])

theorem question_transitions_witness:
  "edge (at 40) opened 7 (p_question opened 7) (p_question settled_world 7)"
proof -
  have "fst (invoke (exec (at 40) pulling (Resolve 7 [bob, carol] [dave] [])) opened) = Inr ()" by code_simp
  from after_runs [OF this] have run: "exec (at 40) pulling (Resolve 7 [bob, carol] [dave] []) opened = Ok () settled_world"
    by (simp add: settled_world_def)
  have "qstatus opened 7 = Some Pending" "qstatus settled_world 7 = Some Resolved" by code_simp+
  then have "p_question settled_world 7 \<noteq> p_question opened 7" by (auto simp: qstatus_def)
  then show ?thesis
    using question_transitions [OF sample_opened sample_sep41 sample_bounded run, of 7] by simp
qed



section \<open>The index of open questions\<close>

lemma map_filter_some: "(\<And>i. i \<in> set is \<Longrightarrow> f i \<noteq> None) \<Longrightarrow> List.map_filter f is = map (\<lambda>i. the (f i)) is"
  by (induction "is") (auto simp: List.map_filter_def)

lemma list_pending_page:
  assumes "index_wf s"
  shows "list_pending a n s = map (\<lambda>i. the (p_pending_at s i)) [a..<min (a + min n MAX_PENDING_PAGE) (pending_count s)]"
proof -
  have wf: "array_wf (pending_count s) (p_pending_at s) (p_pending_pos s)" using assms by (simp add: index_wf_def)
  then have le: "pending_count s \<le> u32_max" and at: "\<And>i. p_pending_at s i \<noteq> None \<longleftrightarrow> i < pending_count s"
    unfolding array_wf_def by blast+
  have "min (saturating_add a m) (pending_count s) = min (a + m) (pending_count s)" for m
    using le by (simp add: saturating_add_def min_def)
  then have "list_pending a n s = List.map_filter (p_pending_at s) [a..<min (a + min n MAX_PENDING_PAGE) (pending_count s)]"
    by (simp add: list_pending_def Let_def pending_count_def [symmetric])
  also have "\<dots> = map (\<lambda>i. the (p_pending_at s i)) [a..<min (a + min n MAX_PENDING_PAGE) (pending_count s)]"
    by (rule map_filter_some) (use at in auto)
  finally show ?thesis .
qed

lemma list_pending_set:
  assumes "index_wf s"
  shows "distinct (list_pending a n s)"
    and "set (list_pending a n s) = {q. \<exists>i. p_pending_pos s q = Some i \<and> a \<le> i \<and> i < a + min n MAX_PENDING_PAGE}"
proof -
  have wf: "array_wf (pending_count s) (p_pending_at s) (p_pending_pos s)" using assms by (simp add: index_wf_def)
  have at: "\<And>i. p_pending_at s i \<noteq> None \<longleftrightarrow> i < pending_count s"
    and ap: "\<And>i q. p_pending_at s i = Some q \<Longrightarrow> p_pending_pos s q = Some i"
    and pa: "\<And>q i. p_pending_pos s q = Some i \<Longrightarrow> p_pending_at s i = Some q"
    using wf unfolding array_wf_def by blast+
  have inj: "inj_on (\<lambda>i. the (p_pending_at s i)) {i. i < pending_count s}"
  proof (rule inj_onI)
    fix i j assume "i \<in> {i. i < pending_count s}" "j \<in> {i. i < pending_count s}" "the (p_pending_at s i) = the (p_pending_at s j)"
    then obtain q r where q: "p_pending_at s i = Some q" "p_pending_at s j = Some r" "q = r"
      using at [of i] at [of j] by auto
    show "i = j" using ap [OF q(1)] ap [OF q(2)] q(3) by simp
  qed
  then show "distinct (list_pending a n s)"
    unfolding list_pending_page [OF assms] distinct_map by (auto intro: inj_on_subset)
  show "set (list_pending a n s) = {q. \<exists>i. p_pending_pos s q = Some i \<and> a \<le> i \<and> i < a + min n MAX_PENDING_PAGE}"
  proof (intro set_eqI iffI)
    fix q assume "q \<in> set (list_pending a n s)"
    then obtain i where "a \<le> i" "i < a + min n MAX_PENDING_PAGE" "i < pending_count s" "q = the (p_pending_at s i)"
      unfolding list_pending_page [OF assms] by auto
    then show "q \<in> {q. \<exists>i. p_pending_pos s q = Some i \<and> a \<le> i \<and> i < a + min n MAX_PENDING_PAGE}"
      using at [of i] ap [of i] by auto
  next
    fix q assume "q \<in> {q. \<exists>i. p_pending_pos s q = Some i \<and> a \<le> i \<and> i < a + min n MAX_PENDING_PAGE}"
    then obtain i where i: "p_pending_pos s q = Some i" "a \<le> i" "i < a + min n MAX_PENDING_PAGE" by blast
    then have "p_pending_at s i = Some q" "i < pending_count s" using pa at [of i] by auto
    then show "q \<in> set (list_pending a n s)"
      unfolding list_pending_page [OF assms] using i by (auto intro!: image_eqI [of _ _ i])
  qed
qed

lemma page_div: "0 < m \<Longrightarrow> j div m = i \<longleftrightarrow> i * m \<le> j \<and> j < i * m + (m :: nat)"
  using dividend_less_div_times [of m j] times_div_less_eq_dividend [of m j] div_nat_eqI [of m i j]
  by (auto simp: mult.commute add.commute)

text \<open>
  C13. The pending index is exact in every reachable world: paging through \<open>list_pending\<close> with the full
  page size lists every open question (Pending, Disputed or ResolvedPending) and nothing else, no page
  repeats an id, no two pages share one, and the open-question counter is their number.
\<close>

theorem pending_index_exact:
  assumes "reachable E peers d s" and "sep41 E" and "\<And>a. peer_bounded E (peers a)"
    and "pending_count s \<le> k * MAX_PENDING_PAGE"
  shows "(\<Union>i<k. set (list_pending (i * MAX_PENDING_PAGE) MAX_PENDING_PAGE s)) = open_ids (p_question s)
     \<and> (\<forall>a n. distinct (list_pending a n s))
     \<and> (\<forall>i j. i \<noteq> j \<longrightarrow> set (list_pending (i * MAX_PENDING_PAGE) MAX_PENDING_PAGE s)
          \<inter> set (list_pending (j * MAX_PENDING_PAGE) MAX_PENDING_PAGE s) = {})
     \<and> counter (i_open_count s) = card (open_ids (p_question s))"
proof (intro conjI allI impI)
  let ?M = MAX_PENDING_PAGE
  have ok: "index_wf s" "indexed s = open_ids (p_question s)" "counter (i_open_count s) = pending_count s"
    using reachable_sound [OF assms(1-3)] by (simp_all add: sound_def stage_ok_def)
  have M: "0 < ?M" by (simp add: MAX_PENDING_PAGE_def)
  have page: "set (list_pending (i * ?M) ?M s) = {q. \<exists>j. p_pending_pos s q = Some j \<and> j div ?M = i}" for i
    unfolding list_pending_set [OF ok(1)] by (simp add: page_div [OF M])
  have slot: "j div ?M < k" if "p_pending_pos s q = Some j" for q j
  proof -
    have "j < pending_count s" using that ok(1) unfolding index_wf_def array_wf_def by (metis option.discI)
    then show ?thesis using assms(4) M by (simp add: less_mult_imp_div_less)
  qed
  have "(\<Union>i<k. set (list_pending (i * ?M) ?M s)) = indexed s"
    unfolding page indexed_def using slot by fastforce
  then show "(\<Union>i<k. set (list_pending (i * ?M) ?M s)) = open_ids (p_question s)" using ok(2) by simp
  show "distinct (list_pending a n s)" for a n by (rule list_pending_set(1) [OF ok(1)])
  show "set (list_pending (i * ?M) ?M s) \<inter> set (list_pending (j * ?M) ?M s) = {}" if "i \<noteq> j" for i j
    unfolding page using that by auto
  show "counter (i_open_count s) = card (open_ids (p_question s))"
    using array_wf_card [OF ok(1) [unfolded index_wf_def]] ok(2,3) by (simp add: indexed_def)
qed

lemma list_pending_cap: "list_pending a 200 s = list_pending a 100 s"
  by (simp add: list_pending_def MAX_PENDING_PAGE_def)

theorem pending_index_exact_witness:
  "set (list_pending 0 200 opened) = open_ids (p_question opened) \<and> list_pending 0 200 opened = [7]
     \<and> card (open_ids (p_question opened)) = 1"
proof -
  have count: "pending_count opened = 1" "counter (i_open_count opened) = 1" "list_pending 0 200 opened = [7]" by code_simp+
  show ?thesis
    using pending_index_exact [OF sample_opened sample_sep41 sample_bounded, of 1] count
    by (simp add: MAX_PENDING_PAGE_def list_pending_cap lessThan_Suc)
qed

section \<open>The way out\<close>

text \<open>
  C3. Nobody's escrow can be held back: in every reachable world, paused or not, once the deadline of a
  Pending question has passed, \<open>refund_timeout\<close> called by anyone returns, pays the whole amount to the
  payer and marks the question Refunded, provided only the token pays what its holder has.
\<close>

theorem refund_available:
  assumes "reachable E peers d s" and "sep41 E" and "\<And>a. peer_bounded E (peers a)" and "live_token E"
    and "on_host E env" and "p_question s q = Some x" and "q_status x = Pending" and "refund_deadline x \<le> now env"
  shows "\<exists>u. refund_timeout env q s = Ok () u
     \<and> tok_transfer E (q_token x) (self E) (q_payer x) (q_amount x) (ledger s) = Some (ledger u)
     \<and> p_question u = (p_question s)(q \<mapsto> x\<lparr>q_status := Refunded\<rparr>)
     \<and> p_owed u = p_owed s \<and> p_balance u = p_balance s \<and> p_stake u = p_stake s"
proof -
  have ok: "sound E d s" by (rule reachable_sound [OF assms(1-3)])
  obtain l where l: "tok_transfer env (q_token x) (self env) (q_payer x) (q_amount x) (ledger s) = Some l"
    using refund_paid [OF ok assms(4-6)] assms(7) by auto
  show ?thesis
    using timeout_refund [OF ok assms(6-8) l] l on_host_simps [OF assms(5)] by auto
qed

lemma sample_live: "live_token sample_host"
  by (simp add: live_token_def sample_host_def move_def)

lemma opened_question: "\<exists>x. p_question opened 7 = Some x \<and> q_status x = Pending \<and> refund_deadline x = 130
    \<and> q_amount x = 1000 \<and> q_payer x = alice \<and> q_token x = usd"
proof -
  have "map_option (\<lambda>x. (q_status x, refund_deadline x, q_amount x, q_payer x, q_token x)) (p_question opened 7)
      = Some (Pending, 130, 1000, alice, usd)" by code_simp
  then show ?thesis by auto
qed

theorem refund_available_witness:
  "\<exists>u. refund_timeout (at 130) 7 opened = Ok () u \<and> move usd here alice 1000 (ledger opened) = Some (ledger u)
     \<and> qstatus u 7 = Some Refunded"
proof -
  obtain x where x: "p_question opened 7 = Some x" "q_status x = Pending" "refund_deadline x \<le> now (at 130)"
      "q_amount x = 1000" "q_payer x = alice" "q_token x = usd"
    using opened_question by auto
  show ?thesis
    using refund_available [OF sample_opened sample_sep41 sample_bounded sample_live sample_on_host x(1-3)] x(4-6)
    by (auto simp: sample_host_def qstatus_def)
qed



section \<open>Where the code stops\<close>





section \<open>Bonds in the wrong token\<close>

abbreviation "euro \<equiv> Address 8"



end
