(* ===== verification/Exit_Rules.thy ===== *)
theory Exit_Rules
  imports Account_Rules Question_Rules
begin

text \<open>
  The exits of everybody who has money in the contract: earnings that are not pledged, prepaid
  balances and elapsed unbonding stake can always be taken out, because the contract holds them.
\<close>

section \<open>Every claim is covered\<close>





section \<open>Exits\<close>







end
