(* ===== verification/Returns.thy ===== *)
theory Returns
  imports Access
begin

text \<open>
  Total correctness. \<open>twp m Q s\<close>: from \<open>s\<close> the program \<open>m\<close> returns, with neither an error nor a trap,
  and what it returns satisfies \<open>Q\<close>. One rule for each primitive, and one for each loop; \<open>twp_with\<close>
  joins what the partial rules (\<open>wp\<close>) already give.
\<close>

section \<open>Programs that return\<close>

definition twp :: "('e, 's, 'a) prog \<Rightarrow> ('a \<Rightarrow> 's \<Rightarrow> bool) \<Rightarrow> 's \<Rightarrow> bool" where
  "twp m Q s \<longleftrightarrow> (\<exists>a u. m s = Ok a u \<and> Q a u)"

named_theorems twp_simps

lemma twp_conseq: "twp m P s \<Longrightarrow> (\<And>a u. P a u \<Longrightarrow> Q a u) \<Longrightarrow> twp m Q s"
  by (auto simp: twp_def)

text \<open>A program that returns also ends where the partial rules say.\<close>

lemma twp_with: "twp m P s \<Longrightarrow> wp m Q s \<Longrightarrow> twp m (\<lambda>a u. P a u \<and> Q a u) s"
  by (auto simp: twp_def dest: wp_OkD)

lemma twp_and_then [twp_simps]: "twp (and_then m k) Q s = twp m (\<lambda>a. twp (k a) Q) s"
  by (auto simp: twp_def and_then_def split: outcome.splits)

lemma twp_seq_do [twp_simps]: "twp (seq_do m k) Q s = twp m (\<lambda>_. twp k Q) s"
  by (auto simp: seq_do_def twp_and_then)

lemma twp_block [twp_simps]: "twp (block []) Q s = Q () s" "twp (block (m # ms)) Q s = twp m (\<lambda>_. twp (block ms) Q) s"
  by (simp_all add: twp_seq_do, simp add: twp_def ret_def)

lemma twp_basic [twp_simps]:
  "twp (ret a) Q s = Q a s" "twp (gets f) Q' s = Q' (f s) s" "twp (modify g) Q'' s = Q'' () (g s)"
  "twp (ensure b e) Q'' s = (b \<and> Q'' () s)" "twp (trap_unless b) Q'' s = (b \<and> Q'' () s)"
  "twp (ok_or x e) Q s = (\<exists>v. x = Some v \<and> Q v s)" "twp (unwrap x) Q s = (\<exists>v. x = Some v \<and> Q v s)"
  by (auto simp: twp_def run_defs split: option.splits)

lemma twp_arith [twp_simps]:
  "twp (chk i) Q s = (i128_range i \<and> Q i s)" "twp (chk_u32 n) Q' s = (n \<le> u32_max \<and> Q' n s)"
  "twp (mul_bps v b) Q s = (mul_bps_fits v b \<and> Q (mul_bps_val v b) s)"
  by (auto simp: twp_def run_defs chk_def chk_u32_def mul_bps_run)

lemma twp_publish [twp_simps]: "twp (publish ev) Q s = Q () (s\<lparr>events := events s @ [ev]\<rparr>)"
  by (simp add: twp_def publish_def run_defs)

lemma twp_if [twp_simps]: "twp (if b then m else n) Q s = (if b then twp m Q s else twp n Q s)"
  by simp

lemma twp_transfer [twp_simps]:
  "twp (transfer env t f r a) Q s = (\<exists>l. tok_transfer env t f r a (ledger s) = Some l \<and> Q () (s\<lparr>ledger := l\<rparr>))"
  by (auto simp: twp_def transfer_def split: option.splits)

lemma twp_set_persistent [twp_simps]:
  "twp (set_persistent env k f) Q s = Q () ((f s)\<lparr>ttl_log := ttl_log (f s) @
     [(now env, TtlKey k, PERSISTENT_TTL_THRESHOLD, PERSISTENT_TTL_EXTEND_TO)]\<rparr>)"
  by (simp add: twp_def set_persistent_def ttl_defs run_defs extend_ttl_def)

lemma twp_bump_instance [twp_simps]:
  "twp (bump_instance env) Q s = Q () (s\<lparr>ttl_log := ttl_log s @
     [(now env, TtlInstance, INSTANCE_TTL_THRESHOLD, INSTANCE_TTL_EXTEND_TO)]\<rparr>)"
  by (simp add: twp_def ttl_defs run_defs extend_ttl_def)

lemma twp_fold:
  assumes "I xs a s" and "\<And>x ys a s. I (x # ys) a s \<Longrightarrow> twp (f x a) (I ys) s"
  shows "twp (fold_prog f xs a) (I []) s"
  using assms(1)
proof (induction xs arbitrary: a s)
  case (Cons x xs)
  show ?case
    unfolding fold_prog.simps twp_and_then by (rule twp_conseq [OF assms(2) [OF Cons.prems]]) (rule Cons.IH)
qed (simp add: twp_simps)

lemma twp_for_each:
  assumes "I xs s" and "\<And>x ys s. I (x # ys) s \<Longrightarrow> twp (f x) (\<lambda>_. I ys) s"
  shows "twp (for_each xs f) (\<lambda>_. I []) s"
  using assms(1)
proof (induction xs arbitrary: s)
  case (Cons x xs)
  show ?case
    unfolding for_each.simps twp_seq_do by (rule twp_conseq [OF assms(2) [OF Cons.prems]]) (rule Cons.IH)
qed (simp add: twp_simps)

end
