(* ===== verification/Fuzz_Harness.thy ===== *)
theory Fuzz_Harness
  imports Frames Sample Returns
begin

text \<open>
  The fuzz target, \<open>fuzz/fuzz_targets/oracle_escrow_fuzz.rs\<close>: a deployment with three payers and four
  workers, arbitrary sequences of calls on it, and the reconciliation of the contract's token balance
  that it asserts at the end. The generator of the sequences (\<open>arbitrary\<close>), the token and the addresses
  the test host makes are parameters. The target calls \<open>initialize\<close>, which the contract no longer has, and
  \<open>resolve\<close> without its answer hash; the model deploys with the constructor and passes the hash of zeros.
\<close>

section \<open>Calls\<close>

type_synonym u8 = nat
type_synonym u16 = nat

definition N_PAYERS :: nat where "N_PAYERS = 3"
definition N_WORKERS :: nat where "N_WORKERS = 4"
definition N_QIDS :: u64 where "N_QIDS = 5"
definition INITIAL_FUNDS :: i128 where "INITIAL_FUNDS = 10000000"
definition TIMEOUT :: u32 where "TIMEOUT = 20"

text \<open>The answer hash the target leaves out.\<close>

definition NO_HASH :: bytes where "NO_HASH = replicate 32 0"

datatype op =
    Op_Submit u8 u8 i128
  | Op_Deposit u8 i128
  | Op_Resolve u8 "u8 list" "u8 list"
  | Op_Refund u8
  | Op_RefundTimeout u8
  | Op_Stake u8 i128
  | Op_Withdraw u8 i128
  | Op_Advance u16
  | Op_Escalate u8 "u8 list" "u8 list"
  | Op_EscalateResolve u8 "u8 list" "u8 list"
  | Op_ResolveChallengeable u8 "u8 list" "u8 list" u16
  | Op_FinalizeResolve u8
  | Op_DisputeResolve u8
  | Op_PostChallengeBond u8 u8 i128

section \<open>The harness\<close>

text \<open>
  \<open>H\<close>: the test host, whose \<open>self\<close> is the contract, and the addresses it generated. The state is
  the ledger's sequence number and the world. \<open>mock_all_auths\<close>: everybody signs every call; the contract
  itself is not one of the signers, and none of the calls asks for its signature.
\<close>

record 'w harness =
  h_host :: "'w host"
  h_token :: address
  h_payers :: "address list"
  h_workers :: "address list"
  h_admin :: address
  h_platform :: address

record 'w fuzz_state =
  f_sequence :: u32
  f_world :: "'w world"

definition harness_env :: "'w harness \<Rightarrow> u32 \<Rightarrow> 'w env" where
  "harness_env h n = host.extend (h_host h) \<lparr>now = n, authorized = \<lambda>a. a \<noteq> self (h_host h)\<rparr>"

text \<open>The deployment; \<open>l\<close> is the token ledger after every payer and worker was minted their funds.\<close>

definition harness_new :: "'w harness \<Rightarrow> 'w \<Rightarrow> 'w fuzz_state option" where
  "harness_new h l =
     (case constructor (harness_env h 0) (h_admin h) (h_token h) (h_platform h) TIMEOUT (blank_world l) of
        Ok u s \<Rightarrow> Some \<lparr>f_sequence = 0, f_world = s\<rparr> | _ \<Rightarrow> None)"

definition payer_of :: "'w harness \<Rightarrow> u8 \<Rightarrow> address" where
  "payer_of h idx = h_payers h ! (idx mod N_PAYERS)"

definition worker_of :: "'w harness \<Rightarrow> u8 \<Rightarrow> address" where
  "worker_of h idx = h_workers h ! (idx mod N_WORKERS)"

definition qid_of :: "u8 \<Rightarrow> u64" where
  "qid_of idx = idx mod N_QIDS"

text \<open>Duplicates are skipped.\<close>

definition worker_vec :: "'w harness \<Rightarrow> u8 list \<Rightarrow> address list" where
  "worker_vec h indices = fold (\<lambda>i v. if worker_of h i \<in> set v then v else v @ [worker_of h i]) indices []"

text \<open>No call of the harness reaches another deployment.\<close>

definition no_peers :: "address \<Rightarrow> 'w peer" where
  "no_peers a = \<lparr>peer_import_question = \<lambda>_ _ _ _ _ _ _ _. None, peer_import_balances = \<lambda>_ _ _ _ _ _ _. None\<rparr>"

text \<open>A \<open>try_\<close> call of the client: an error or a trap leaves the world as it was.\<close>

definition try_call :: "'w harness \<Rightarrow> entry \<Rightarrow> 'w fuzz_state \<Rightarrow> 'w fuzz_state" where
  "try_call h e st = st\<lparr>f_world := snd (invoke (exec (harness_env h (f_sequence st)) no_peers e) (f_world st))\<rparr>"

fun apply_op :: "'w harness \<Rightarrow> op \<Rightarrow> 'w fuzz_state \<Rightarrow> 'w fuzz_state" where
  "apply_op h (Op_Submit payer qid amount) st = try_call h (Submit (payer_of h payer) (qid_of qid) amount) st"
| "apply_op h (Op_Deposit payer amount) st = try_call h (Deposit (payer_of h payer) amount) st"
| "apply_op h (Op_Resolve qid workers losers) st =
     (let wv = worker_vec h workers; lv = worker_vec h losers
      in if wv = [] then st else try_call h (Resolve (qid_of qid) wv lv NO_HASH) st)"
| "apply_op h (Op_Refund qid) st = try_call h (Refund (qid_of qid)) st"
| "apply_op h (Op_RefundTimeout qid) st = try_call h (RefundTimeout (qid_of qid)) st"
| "apply_op h (Op_Stake worker amount) st = try_call h (Stake (worker_of h worker) amount) st"
| "apply_op h (Op_Withdraw worker amount) st = try_call h (Withdraw (worker_of h worker) amount) st"
| "apply_op h (Op_Advance ledgers) st = st\<lparr>f_sequence := saturating_add (f_sequence st) (max ledgers 1)\<rparr>"
| "apply_op h (Op_Escalate qid workers losers) st =
     (let wv = worker_vec h workers; lv = worker_vec h losers
      in if wv = [] then st else try_call h (Escalate (qid_of qid) wv lv) st)"
| "apply_op h (Op_EscalateResolve qid workers losers) st =
     (let wv = worker_vec h workers; lv = worker_vec h losers
      in if wv = [] then st else try_call h (EscalateResolve (qid_of qid) wv lv) st)"
| "apply_op h (Op_ResolveChallengeable qid workers losers window) st =
     (let wv = worker_vec h workers; lv = worker_vec h losers
      in if wv = [] then st else try_call h (ResolveChallengeable (qid_of qid) wv lv (max window 1)) st)"
| "apply_op h (Op_FinalizeResolve qid) st = try_call h (FinalizeResolve (qid_of qid)) st"
| "apply_op h (Op_DisputeResolve qid) st = try_call h (DisputeResolve (qid_of qid)) st"
| "apply_op h (Op_PostChallengeBond challenger qid amount) st =
     try_call h (PostChallengeBond (worker_of h challenger) (qid_of qid) amount) st"

section \<open>The reconciliation\<close>

text \<open>
  Each addition of the test is a checked \<open>i128\<close> addition; a panicking client call and the failing
  \<open>assert_eq\<close> are traps.
\<close>

definition add_question :: "u64 \<Rightarrow> i128 \<Rightarrow> ('w, i128) call" where
  "add_question qid expected = and_then (get_question qid) (\<lambda>q. chk (expected + q_amount q))"

definition add_worker :: "'w env \<Rightarrow> address \<Rightarrow> i128 \<Rightarrow> ('w, i128) call" where
  "add_worker env w expected =
     and_then (get_stake_info env w) (\<lambda>info.
     and_then (chk (settled info + warming info)) (\<lambda>active.
     and_then (chk (active + unbonding info)) (\<lambda>total.
     and_then (chk (expected + total)) (\<lambda>expected'.
     and_then (gets (get_owed w)) (\<lambda>earned. chk (expected' + earned))))))"

definition add_payer :: "address \<Rightarrow> i128 \<Rightarrow> ('w, i128) call" where
  "add_payer p expected = and_then (gets (get_balance p)) (\<lambda>b. chk (expected + b))"

definition add_bond :: "u64 \<Rightarrow> i128 \<Rightarrow> ('w, i128) call" where
  "add_bond qid expected =
     and_then (gets (get_challenger_bond qid)) (\<lambda>b.
       case b of None \<Rightarrow> ret expected | Some bond \<Rightarrow> chk (expected + bond_amount bond))"

definition check_reconciliation :: "'w harness \<Rightarrow> u32 \<Rightarrow> ('w, unit) call" where
  "check_reconciliation h n =
     and_then (gets (\<lambda>s. tok_balance (h_host h) (h_token h) (self (h_host h)) (ledger s))) (\<lambda>contract_balance.
     and_then (gets (list_pending 0 200)) (\<lambda>pending_ids.
     and_then (fold_prog add_question pending_ids 0) (\<lambda>e1.
     and_then (fold_prog (add_worker (harness_env h n)) (h_workers h) e1) (\<lambda>e2.
     and_then (fold_prog add_payer (h_payers h) e2) (\<lambda>e3.
     and_then (fold_prog add_bond [0..<N_QIDS] e3) (\<lambda>expected.
       trap_unless (contract_balance = expected)))))))"

text \<open>The target: deploy, apply, reconcile. \<open>False\<close> is a finding.\<close>

definition harness_run :: "'w harness \<Rightarrow> 'w \<Rightarrow> op list \<Rightarrow> 'w fuzz_state option" where
  "harness_run h l ops = map_option (fold (apply_op h) ops) (harness_new h l)"

definition fuzz_target :: "'w harness \<Rightarrow> 'w \<Rightarrow> op list \<Rightarrow> bool" where
  "fuzz_target h l ops =
     (case harness_run h l ops of
        None \<Rightarrow> False
      | Some st \<Rightarrow> (case check_reconciliation h (f_sequence st) (f_world st) of Ok u s \<Rightarrow> True | _ \<Rightarrow> False))"

end
