(* ===== verification/Fuzz_Rules.thy ===== *)
theory Fuzz_Rules
  imports Fuzz_Harness Question_Rules
begin

text \<open>
  The fuzz target never finds anything: whatever calls it makes, its reconciliation holds. The worlds it
  reaches are reachable worlds of the contract, so the contract's surplus stays what it was at
  deployment, nothing (\<open>keeps True\<close>); and all that is owed is owed to the harness's own payers and
  workers (\<open>confined\<close>), over whom the assertion sums.
\<close>

section \<open>Only the harness's parties are in the books\<close>

definition confined :: "'w harness \<Rightarrow> 'w world \<Rightarrow> bool" where
  "confined h s \<longleftrightarrow> i_token s = Some (h_token h) \<and> p_basket s = Map.empty
     \<and> dom (p_owed s) \<subseteq> KOwed ` set (h_workers h) \<and> dom (p_balance s) \<subseteq> KBalance ` set (h_payers h)
     \<and> dom (p_stake s) \<subseteq> KStake ` set (h_workers h)
     \<and> (\<forall>q x. p_question s q = Some x \<longrightarrow> q < N_QIDS \<and> q_token x = h_token h \<and> q_payer x \<in> set (h_payers h))
     \<and> (\<forall>q t. p_question_token s q = Some t \<longrightarrow> t = h_token h)"

definition waiting :: "'w harness \<Rightarrow> 'w world \<Rightarrow> bool" where
  "waiting h s \<longleftrightarrow> (\<forall>q r. p_pending_resolution s q = Some r \<longrightarrow>
     set (res_workers r) \<subseteq> set (h_workers h) \<and> set (res_losing_workers r) \<subseteq> set (h_workers h))"

lemma confined_cong: "books u = books s \<Longrightarrow> confined h s \<Longrightarrow> confined h u"
  by (simp add: confined_def books_def)

lemma confined_same [simp]:
  "confined h (s\<lparr>ledger := l\<rparr>) = confined h s" "confined h (s\<lparr>events := e\<rparr>) = confined h s"
  "confined h (s\<lparr>ttl_log := g\<rparr>) = confined h s" "confined h (s\<lparr>p_escalated := m\<rparr>) = confined h s"
  "confined h (s\<lparr>p_pending_resolution := r\<rparr>) = confined h s" "confined h (s\<lparr>p_bond := b\<rparr>) = confined h s"
  by (simp_all add: confined_def)

lemma confined_doms:
  assumes "confined h s"
  shows "i_token s = Some (h_token h)" "p_basket s = Map.empty"
    "dom (p_owed s) \<subseteq> KOwed ` set (h_workers h)" "dom (p_balance s) \<subseteq> KBalance ` set (h_payers h)"
    "dom (p_stake s) \<subseteq> KStake ` set (h_workers h)"
    "p_question s q = Some x \<Longrightarrow> q < N_QIDS \<and> q_token x = h_token h \<and> q_payer x \<in> set (h_payers h)"
    "p_question_token s q = Some t \<Longrightarrow> t = h_token h"
  using assms by (auto simp: confined_def)

lemma confined_put:
  "confined h s \<Longrightarrow> dom m \<subseteq> KOwed ` set (h_workers h) \<Longrightarrow> confined h (s\<lparr>p_owed := m\<rparr>)"
  "confined h s \<Longrightarrow> dom m \<subseteq> KBalance ` set (h_payers h) \<Longrightarrow> confined h (s\<lparr>p_balance := m\<rparr>)"
  "confined h s \<Longrightarrow> dom i \<subseteq> KStake ` set (h_workers h) \<Longrightarrow> confined h (s\<lparr>p_stake := i\<rparr>)"
  "confined h s \<Longrightarrow> q < N_QIDS \<Longrightarrow> q_token x = h_token h \<Longrightarrow> q_payer x \<in> set (h_payers h) \<Longrightarrow>
     confined h (s\<lparr>p_question := (p_question s)(q \<mapsto> x)\<rparr>)"
  "confined h s \<Longrightarrow> confined h (s\<lparr>p_question_token := (p_question_token s)(q \<mapsto> h_token h)\<rparr>)"
  by (simp_all add: confined_def)

lemma confined_restatus:
  assumes "confined h s" and "p_question s q = Some x"
    and "books u = books (s\<lparr>p_question := (p_question s)(q \<mapsto> x\<lparr>q_status := st\<rparr>), ledger := ledger u\<rparr>)"
  shows "confined h u"
proof -
  have "confined h (s\<lparr>p_question := (p_question s)(q \<mapsto> x\<lparr>q_status := st\<rparr>)\<rparr>)"
    using confined_doms(6) [OF assms(1,2)] by (intro confined_put(4) assms(1)) simp_all
  then have "confined h (s\<lparr>p_question := (p_question s)(q \<mapsto> x\<lparr>q_status := st\<rparr>), ledger := ledger u\<rparr>)" by simp
  then show ?thesis by (rule confined_cong [OF assms(3)])
qed

lemma confined_after: "wp m (\<lambda>_ u. books u = books s) s \<Longrightarrow> confined h s \<Longrightarrow> wp m (\<lambda>_. confined h) s"
  by (erule wp_conseq) (rule confined_cong)

lemma confined_track: "confined h s \<Longrightarrow> (\<And>u. confined h u \<Longrightarrow> Q () u) \<Longrightarrow> wp (track_participant env a) Q s"
  by (rule wp_track_books) (blast intro: confined_cong)

lemma key_images [simp]:
  "KOwed w \<in> KOwed ` A \<longleftrightarrow> w \<in> A" "KBalance w \<in> KBalance ` A \<longleftrightarrow> w \<in> A" "KStake w \<in> KStake ` A \<longleftrightarrow> w \<in> A"
  by auto

lemmas confined_rules = confined_put confined_doms(3-5)

lemma confined_deposit:
  assumes "confined h s" and "p \<in> set (h_payers h)"
  shows "wp (deposit env p a) (\<lambda>_. confined h) s"
  using assms(2)
  by (clarsimp simp: deposit_def wp_simps account_defs confined_doms(1) [OF assms(1)])
    (rule confined_track [where h = h], simp add: assms(1) confined_rules, simp add: wp_simps confined_rules)

lemma confined_withdraw:
  assumes "confined h s" and "w \<in> set (h_workers h)"
  shows "wp (withdraw env w a) (\<lambda>_. confined h) s"
  using assms
  by (simp add: withdraw_def do_withdraw_def do_withdraw_for_token_def wp_simps account_defs confined_doms(1) [OF assms(1)] confined_rules)

lemma confined_stake:
  assumes "confined h s" and "w \<in> set (h_workers h)"
  shows "wp (stake env w a) (\<lambda>_. confined h) s"
  using assms(2)
  by (clarsimp simp: stake_def wp_simps Let_def confined_doms(1) [OF assms(1)])
    (rule confined_track [where h = h], simp add: assms(1) confined_rules, simp add: wp_simps confined_rules)

lemma confined_submit:
  assumes "confined h s" and "p \<in> set (h_payers h)" and "q < N_QIDS"
  shows "wp (submit env p q a) (\<lambda>_. confined h) s"
  using assms(2,3)
  by (clarsimp simp: submit_def wp_simps confined_doms(1) [OF assms(1)])
    (rule wp_open_question, rule confined_cong, assumption, use assms(1) in \<open>simp add: confined_def\<close>)

lemma confined_settle:
  assumes "confined h s" and "q < N_QIDS \<and> q_token x = h_token h \<and> q_payer x \<in> set (h_payers h)"
  shows "wp (settle_question env q x st) (\<lambda>_. confined h) s"
  by (rule wp_settle_question, erule confined_cong) (rule confined_put(4), use assms in simp_all)

lemma confined_refund:
  assumes "confined h s"
  shows "wp (do_refund env q b) (\<lambda>_. confined h) s"
  by (clarsimp simp: do_refund_def question_legs_def refund_leg_def wp_simps confined_doms(2) [OF assms] split: option.split)
    (intro conjI allI impI; rule wp_settle_question, simp add: wp_simps, rule confined_restatus [OF assms, where st = Refunded], assumption, simp add: books_def)

lemma confined_shelved:
  assumes "confined h s"
  shows "wp (escalate env q ws ls) (\<lambda>_. confined h) s" and "wp (resolve_challengeable env q ws ls n) (\<lambda>_. confined h) s"
    and "wp (dispute_resolve env q) (\<lambda>_. confined h) s" and "wp (post_challenge_bond env c q a) (\<lambda>_. confined h) s"
proof -
  note defs = escalate_def validate_worker_lists_def put_escalated_def store_question_def put_question_def
      resolve_challengeable_def put_resolution_def Let_def wp_simps
  show "wp (escalate env q ws ls) (\<lambda>_. confined h) s"
    by (clarsimp simp: defs, rule confined_restatus [OF assms, where st = Disputed], assumption, simp add: books_def)
  show "wp (resolve_challengeable env q ws ls n) (\<lambda>_. confined h) s"
    by (clarsimp simp: defs, rule confined_restatus [OF assms, where st = ResolvedPending], assumption, simp add: books_def)
  show "wp (dispute_resolve env q) (\<lambda>_. confined h) s" and "wp (post_challenge_bond env c q a) (\<lambda>_. confined h) s"
    using assms by (simp_all add: dispute_resolve_def post_challenge_bond_def put_resolution_def put_bond_def wp_simps)
qed

section \<open>Settlements\<close>

lemma confined_slash:
  assumes "confined h s" and "w \<in> set (h_workers h)"
  shows "wp (slash env (h_token h) w cap) (\<lambda>_. confined h) s"
proof -
  have key: "stake_key (h_token h) w s = Ok (KStake w) s"
    using confined_doms(1) [OF assms(1)] by (simp add: stake_key_run)
  have read: "stake_info_for_token env (h_token h) w s = (if mature_fits (now env) (stored_stake (KStake w) s)
      then Ok (matured (now env) (stored_stake (KStake w) s)) s else Trap)"
    using confined_doms(1) [OF assms(1)] by (simp add: stake_info_for_token_run Let_def)
  show ?thesis
    using assms by (auto simp: slash_def wp_simps key read Let_def confined_rules)
qed

lemma confined_payout:
  assumes "confined h s" and "set ls \<subseteq> set (h_workers h)"
  shows "wp (payout env q (h_token h) a n ls) (\<lambda>_. confined h) s"
proof -
  have one: "wp (slash_loser env q (h_token h) cap n l acc) (\<lambda>_. confined h) t"
    if "confined h t" "l \<in> set (h_workers h)" for cap l acc t
    unfolding slash_loser_def
    by (cases acc, simp only: prod.case wp_and_then)
      (rule wp_conseq [OF confined_slash [OF that]], simp add: wp_simps Let_def)
  have all: "wp (distribute_slashes env q (h_token h) ls cap n) (\<lambda>_. confined h) s" for cap
  proof -
    have "wp (distribute_slashes env q (h_token h) ls cap n) (\<lambda>_ u. set [] \<subseteq> set (h_workers h) \<and> confined h u) s"
      unfolding distribute_slashes_def
      by (rule wp_fold_prog_list [where I = "\<lambda>ys _ u. set ys \<subseteq> set (h_workers h) \<and> confined h u"])
        (use assms in \<open>auto intro!: wp_conj [THEN iffD2] one wp_conseq [OF one]\<close>)
    then show ?thesis by simp
  qed
  show ?thesis
    unfolding payout_def split_amount_def
    by (auto simp: wp_simps Let_def intro!: wp_conseq [OF all])
qed

lemma confined_credit:
  assumes "confined h s" and "w \<in> set (h_workers h)"
  shows "wp (credit_worker env q (h_token h) v w) (\<lambda>_. confined h) s"
proof -
  have key: "owed_key (h_token h) w t = Ok (KOwed w) t" if "confined h t" for t
    using confined_doms(1) [OF that] by (simp add: owed_key_def and_then_def get_token_cfg_def gets_def ok_or_def ret_def)
  show ?thesis
    using assms(2)
    by (simp add: credit_worker_def credit_owed_def wp_and_then wp_seq_do wp_block_Cons)
      (auto simp: wp_def [of "owed_key _ _"] key [OF assms(1)] wp_simps account_defs assms(1) confined_rules
        intro!: confined_track [where h = h])
qed

lemma confined_record: "confined h s \<Longrightarrow> wp (record_resolved_credit env w) (\<lambda>_. confined h) s"
  by (rule confined_after [OF record_resolved_books])

lemma confined_pay_worker:
  assumes "confined h s" and "w \<in> set (h_workers h)"
  shows "wp (pay_worker env q (h_token h) v w) (\<lambda>_. confined h) s"
  unfolding pay_worker_def wp_block_Cons
  by (rule wp_conseq [OF confined_credit [OF assms]], rule wp_conseq [OF confined_record], assumption) (simp add: wp_simps)

lemma confined_route: "confined h s \<Longrightarrow> wp (route_platform_take env t r a) (\<lambda>_. confined h) s"
  by (auto simp: route_platform_take_def transfer_if_positive_def wp_simps split: option.split)

lemma confined_loop:
  assumes "confined h s" and "set ws \<subseteq> set (h_workers h)"
    and "\<And>w t. w \<in> set (h_workers h) \<Longrightarrow> confined h t \<Longrightarrow> wp (f w) (\<lambda>_. confined h) t"
  shows "wp (for_each ws f) (\<lambda>_. confined h) s"
  by (rule wp_for_each) (use assms in auto)

lemma confined_settle_asset:
  assumes "confined h s" and "set ws \<subseteq> set (h_workers h)" and "set ls \<subseteq> set (h_workers h)"
  shows "wp (settle_asset env q (h_token h) a ws ls plat) (\<lambda>_. confined h) s"
  unfolding settle_asset_def wp_and_then
proof (rule wp_conseq [OF confined_payout [OF assms(1,3)]],
    clarsimp simp: wp_seq_do wp_block_Cons wp_block_Nil wp_ret simp del: block.simps)
  fix credit ptake and t :: "'a world" assume t: "confined h t"
  have "wp (for_each ws (credit_worker env q (h_token h) credit)) (\<lambda>_. confined h) t"
    by (rule confined_loop [OF t assms(2)]) (rule confined_credit; assumption)
  then show "wp (for_each ws (credit_worker env q (h_token h) credit)) (\<lambda>_. wp (block [route_platform_take env (h_token h) plat ptake])
      (\<lambda>_. confined h)) t"
    by (rule wp_conseq) (simp add: wp_block_Cons wp_block_Nil confined_route del: block.simps)
qed

lemma confined_resolution:
  assumes "confined h s" and "set ws \<subseteq> set (h_workers h)" and "set ls \<subseteq> set (h_workers h)" and "books_wf d s"
  shows "wp (settle_resolution env q ws ls b) (\<lambda>_. confined h) s"
proof -
  have close: "wp (for_each ws (record_resolved_credit env)) (\<lambda>_. wp (block [settle_question env q x Resolved, notarize q b, publish e])
      (\<lambda>_. confined h)) t" if "confined h t" "p_question s q = Some x" for t x e
    unfolding wp_block_Cons
  proof (rule wp_conseq [OF confined_loop [OF that(1) assms(2) confined_record]], assumption)
    fix c u assume u: "confined h u"
    show "wp (settle_question env q x Resolved) (\<lambda>_. wp (notarize q b) (\<lambda>_. wp (publish e) (\<lambda>_. wp (block []) (\<lambda>_. confined h)))) u"
      by (rule wp_conseq [OF confined_settle [OF u confined_doms(6) [OF assms(1) that(2)]]])
        (cases b; simp add: notarize_def wp_simps)
  qed
  have pays: "wp (settle_asset env q (q_token x) a ws ls plat) (\<lambda>r u. confined h u) s" if "p_question s q = Some x" for x a plat
    using confined_settle_asset [OF assms(1-3)] confined_doms(6) [OF assms(1) that] by simp
  show ?thesis
    unfolding settle_resolution_def
    by (clarsimp simp: wp_simps books_question [OF assms(4)] Let_def settle_leg_def simp del: block.simps,
        rule wp_conseq [OF pays], assumption) (simp split: prod.split add: wp_simps close del: block.simps)
qed

lemma confined_closing:
  assumes "confined h t" and "q < N_QIDS \<and> q_token x = h_token h \<and> q_payer x \<in> set (h_payers h)"
    and "\<And>u. confined h u \<Longrightarrow> wp (block rest) (\<lambda>_. confined h) u"
  shows "wp (block (settle_question env q x st # rest)) (\<lambda>_. confined h) t"
  unfolding wp_block_Cons by (rule wp_conseq [OF confined_settle [OF assms(1,2)]]) (rule assms(3))

text \<open>Paying the winners and the platform, then whatever follows.\<close>

lemma confined_pays:
  assumes "confined h t" and "set ws \<subseteq> set (h_workers h)"
    and "\<And>u. confined h u \<Longrightarrow> wp (block rest) (\<lambda>_. confined h) u"
  shows "wp (block (for_each ws (pay_worker env q (h_token h) credit) # route_platform_take env tok plat ptake # rest))
    (\<lambda>_. confined h) t"
  unfolding wp_block_Cons
proof (rule wp_conseq [OF confined_loop [OF assms(1,2)]])
  show "wp (pay_worker env q (h_token h) credit w) (\<lambda>_. confined h) t" if "w \<in> set (h_workers h)" "confined h t" for w t
    using that by (intro confined_pay_worker)
  show "wp (route_platform_take env tok plat ptake) (\<lambda>_. wp (block rest) (\<lambda>_. confined h)) u" if "confined h u" for u
    by (rule wp_conseq [OF confined_route [OF that]]) (rule assms(3))
qed

lemma confined_escalate_resolve:
  assumes "confined h s" and "set ws \<subseteq> set (h_workers h)" and "set ls \<subseteq> set (h_workers h)" and "books_wf d s"
  shows "wp (escalate_resolve env q ws ls) (\<lambda>_. confined h) s"
proof -
  have body: "wp (case r of (fee, tot, ptake, credit) \<Rightarrow> block [
      for_each ws (pay_worker env q (q_token x) credit), route_platform_take env (q_token x) plat ptake,
      if b then drop_escalated q else ret (), settle_question env q x Resolved,
      publish (e fee tot), publish e']) (\<lambda>_. confined h) t"
    if "confined h t" "p_question s q = Some x" for r x plat b e e' and t :: "'a world"
  proof -
    obtain fee tot ptake credit where r: "r = (fee, tot, ptake, credit)" by (cases r)
    have x: "q < N_QIDS \<and> q_token x = h_token h \<and> q_payer x \<in> set (h_payers h)" by (rule confined_doms(6) [OF assms(1) that(2)])
    have rest: "wp (block [if b then drop_escalated q else ret (), settle_question env q x Resolved, publish (e fee tot), publish e'])
        (\<lambda>_. confined h) u" if "confined h u" for u
      unfolding wp_block_Cons [of "if _ then _ else _"]
      using confined_closing [OF _ x, of _ "[publish (e fee tot), publish e']" env Resolved] that
      by (cases b) (simp_all add: drop_escalated_def wp_modify wp_ret wp_block_Cons wp_block_Nil wp_publish del: block.simps)
    show ?thesis unfolding r prod.case using confined_pays [OF that(1) assms(2) rest] x by simp
  qed
  have pay: "wp (payout env q (q_token x) a n ls) (\<lambda>_. confined h) s" if "p_question s q = Some x" for x a n
    using confined_payout [OF assms(1,3)] confined_doms(6) [OF assms(1) that] by simp
  show ?thesis
    unfolding escalate_resolve_def
    by (clarsimp simp: wp_simps books_question [OF assms(4)] simp del: block.simps split del: if_split,
        rule wp_conseq [OF pay body])
qed

lemma confined_finalize:
  assumes "confined h s" and "waiting h s" and "books_wf d s"
  shows "wp (finalize_resolve env q) (\<lambda>_. confined h) s"
proof -
  have body: "wp (case r of (fee, tot, ptake, credit) \<Rightarrow>
      seq_do (for_each ws (pay_worker env q (q_token x) credit))
       (and_then (forfeit_bond q ptake) (\<lambda>(final_take, forfeited). block [
          route_platform_take env (q_token x) plat final_take, drop_resolution q,
          settle_question env q x Resolved, publish (e fee tot forfeited)]))) (\<lambda>_. confined h) t"
    if "confined h t" "p_question s q = Some x" "set ws \<subseteq> set (h_workers h)" for r x plat e ws and t :: "'a world"
  proof -
    obtain fee tot ptake credit where r: "r = (fee, tot, ptake, credit)" by (cases r)
    have x: "q < N_QIDS \<and> q_token x = h_token h \<and> q_payer x \<in> set (h_payers h)" by (rule confined_doms(6) [OF assms(1) that(2)])
    have tail: "wp (route_platform_take env (h_token h) plat k)
        (\<lambda>_. wp (block [drop_resolution q, settle_question env q x Resolved, publish ev]) (\<lambda>_. confined h)) u"
      if "confined h u" for u k ev
      unfolding wp_block_Cons [of "drop_resolution _"]
      by (rule wp_conseq [OF confined_route [OF that]])
        (auto simp: drop_resolution_def wp_modify wp_block_Cons wp_block_Nil wp_publish intro!: wp_conseq [OF confined_settle [OF _ x]]
          simp del: block.simps)
    have pays: "wp (for_each ws (pay_worker env q (h_token h) credit)) (\<lambda>_. confined h) t"
      by (rule confined_loop [OF that(1,3)]) (rule confined_pay_worker; assumption)
    show ?thesis
      unfolding r prod.case wp_seq_do wp_and_then using x
      by (clarsimp simp del: block.simps, intro wp_conseq [OF pays])
        (auto simp: forfeit_bond_def drop_bond_def wp_simps tail split: option.split simp del: block.simps)
  qed
  have pay: "wp (payout env q (q_token x) a n ls) (\<lambda>_. confined h) s"
    if "p_question s q = Some x" "set ls \<subseteq> set (h_workers h)" for x a n ls
    using confined_payout [OF assms(1) that(2)] confined_doms(6) [OF assms(1) that(1)] by simp
  show ?thesis
    unfolding finalize_resolve_def
    by (clarsimp simp: wp_simps books_question [OF assms(3)] Let_def simp del: block.simps split del: if_split,
        rule wp_conseq [OF pay body]) (use assms(2) in \<open>auto simp: waiting_def\<close>)
qed

section \<open>Every call of the harness\<close>

lemma waiting_quiet: "untouched settings m \<Longrightarrow> waiting h s \<Longrightarrow> wp m (\<lambda>_. waiting h) s"
  by (erule wp_conseq [OF wp_untouched]) (simp add: settings_def waiting_def)

lemma waiting_rules:
  assumes "waiting h s"
  shows "set ws \<subseteq> set (h_workers h) \<Longrightarrow> set ls \<subseteq> set (h_workers h) \<Longrightarrow>
      wp (resolve_challengeable env q ws ls n) (\<lambda>_. waiting h) s"
    and "wp (dispute_resolve env q) (\<lambda>_. waiting h) s"
    and "wp (finalize_resolve env q) (\<lambda>_. waiting h) s"
proof -
  show "wp (resolve_challengeable env q ws ls n) (\<lambda>_. waiting h) s" if "set ws \<subseteq> set (h_workers h)" "set ls \<subseteq> set (h_workers h)"
    using assms that by (clarsimp simp: resolve_challengeable_def put_resolution_def store_question_def put_question_def Let_def wp_simps waiting_def)
  show "wp (dispute_resolve env q) (\<lambda>_. waiting h) s"
    using assms by (clarsimp simp: dispute_resolve_def put_resolution_def wp_simps waiting_def)
  show "wp (finalize_resolve env q) (\<lambda>_. waiting h) s"
    by (rule wp_conseq [OF finalize_config]) (use assms in \<open>auto simp: settings_def waiting_def split: if_splits\<close>)
qed

text \<open>The entries the harness calls, with arguments of its own.\<close>

definition of_harness :: "'w harness \<Rightarrow> entry \<Rightarrow> bool" where
  "of_harness h e = (case e of
      Submit p q a \<Rightarrow> p \<in> set (h_payers h) \<and> q < N_QIDS
    | Deposit p a \<Rightarrow> p \<in> set (h_payers h)
    | Resolve q ws ls b \<Rightarrow> set ws \<subseteq> set (h_workers h) \<and> set ls \<subseteq> set (h_workers h)
    | Refund q \<Rightarrow> True
    | RefundTimeout q \<Rightarrow> True
    | Stake w a \<Rightarrow> w \<in> set (h_workers h)
    | Withdraw w a \<Rightarrow> w \<in> set (h_workers h)
    | Escalate q ws ls \<Rightarrow> True
    | EscalateResolve q ws ls \<Rightarrow> set ws \<subseteq> set (h_workers h) \<and> set ls \<subseteq> set (h_workers h)
    | ResolveChallengeable q ws ls n \<Rightarrow> set ws \<subseteq> set (h_workers h) \<and> set ls \<subseteq> set (h_workers h)
    | FinalizeResolve q \<Rightarrow> True
    | DisputeResolve q \<Rightarrow> True
    | PostChallengeBond c q a \<Rightarrow> True
    | _ \<Rightarrow> False)"

lemma harness_exec:
  assumes "of_harness h e" and "confined h s" and "waiting h s" and "books_wf d s"
  shows "wp (exec env peers e) (\<lambda>_ u. confined h u \<and> waiting h u) s"
proof -
  note rules = confined_deposit [OF assms(2)] confined_withdraw [OF assms(2)] confined_stake [OF assms(2)] confined_submit [OF assms(2)]
    confined_refund [OF assms(2)] confined_shelved [OF assms(2)] confined_resolution [OF assms(2) _ _ assms(4)]
    confined_escalate_resolve [OF assms(2) _ _ assms(4)] confined_finalize [OF assms(2-4)]
  note quiet = waiting_quiet [OF _ assms(3)] settings.submit_frame settings.balance_frame settings.ranking_frame
    settings.outcome_frame settings.staking_frame settings.resolution_frame waiting_rules [OF assms(3)]
  show ?thesis
    unfolding wp_conj
    using assms(1)
    by (cases e) (simp_all add: of_harness_def wp_void rules quiet resolve_def refund_def refund_timeout_def try_refund_timeout_def
        wp_block_Cons wp_block_Nil wp_simps)
qed

section \<open>Every state of the harness\<close>

text \<open>The parties the test host generates: distinct addresses, none of them the contract's.\<close>

definition proper :: "'w harness \<Rightarrow> bool" where
  "proper h \<longleftrightarrow> length (h_payers h) = N_PAYERS \<and> length (h_workers h) = N_WORKERS
     \<and> distinct (h_payers h) \<and> distinct (h_workers h)
     \<and> self (h_host h) \<notin> set (h_payers h) \<and> h_platform h \<noteq> self (h_host h)"

definition balanced :: "'w harness \<Rightarrow> 'w world \<Rightarrow> bool" where
  "balanced h s \<longleftrightarrow> reachable (h_host h) no_peers (h_token h) s \<and> outside (h_host h) s
     \<and> slack (h_host h) (h_token h) (h_token h) s = 0 \<and> confined h s \<and> waiting h s"

lemma harness_host [simp]: "on_host (h_host h) (harness_env h n)" "\<not> authorized (harness_env h n) (self (h_host h))"
  "now (harness_env h n) = n" "self (harness_env h n) = self (h_host h)"
  by (simp_all add: on_host_def harness_env_def host.truncate_def host.extend_def)

lemma no_peers_bounded [simp]: "peer_bounded E (no_peers a)"
  by (simp add: peer_bounded_def no_peers_def)

lemma payer_in: "proper h \<Longrightarrow> payer_of h i \<in> set (h_payers h)"
  by (simp add: payer_of_def proper_def N_PAYERS_def)

lemma worker_in: "proper h \<Longrightarrow> worker_of h i \<in> set (h_workers h)"
  by (simp add: worker_of_def proper_def N_WORKERS_def)

lemma qid_less: "qid_of i < N_QIDS"
  by (simp add: qid_of_def N_QIDS_def)

lemma worker_vec_in: "proper h \<Longrightarrow> set (worker_vec h is) \<subseteq> set (h_workers h)"
proof -
  assume h: "proper h"
  have "set (fold (\<lambda>i v. if worker_of h i \<in> set v then v else v @ [worker_of h i]) js v) \<subseteq> set (h_workers h)"
    if "set v \<subseteq> set (h_workers h)" for js v
    using that by (induction js arbitrary: v) (simp_all add: worker_in [OF h])
  then show ?thesis by (simp add: worker_vec_def)
qed

lemma balanced_call:
  assumes "sep41 (h_host h)" and "balanced h (f_world st)" and "of_harness h e"
  shows "balanced h (f_world (try_call h e st))"
proof (cases "exec (harness_env h (f_sequence st)) no_peers e (f_world st)")
  case (Ok x u)
  let ?s = "f_world st" and ?E = "h_host h" and ?d = "h_token h"
  have s: "reachable ?E no_peers ?d ?s" "outside ?E ?s" "slack ?E ?d ?d ?s = 0" "confined h ?s" "waiting h ?s"
    using assms(2) by (simp_all add: balanced_def)
  have sound: "sound ?E ?d ?s" by (rule reachable_sound [OF s(1) assms(1) no_peers_bounded])
  have fits: "bond_fits ?d ?s e" using confined_doms(6) [OF s(4)] by (auto simp: bond_fits_def)
  have owed: "only_owed (self ?E) e" using assms(3) by (simp add: of_harness_def only_owed_def split: entry.splits)
  have "keeps True ?E ?d ?s u"
    using sound_step(2) [OF sound assms(1) no_peers_bounded harness_host(1,2) fits Ok] owed by simp
  moreover have "confined h u \<and> waiting h u"
    by (rule wp_OkD [OF harness_exec [OF assms(3) s(4,5), where d = ?d] Ok]) (use sound in \<open>simp add: sound_def\<close>)
  moreover have "reachable ?E no_peers ?d u"
    by (rule reachable.called [OF s(1) harness_host(1) [of h "f_sequence st"] harness_host(2) fits, where r = "Inr x"])
      (simp add: invoke_def Ok)
  ultimately show ?thesis
    using s(2,3) by (simp add: balanced_def try_call_def invoke_def Ok keeps_def)
qed (use assms(2) in \<open>simp_all add: try_call_def invoke_def\<close>)

lemma balanced_op:
  assumes "sep41 (h_host h)" and "proper h" and "balanced h (f_world st)"
  shows "balanced h (f_world (apply_op h op st))"
  using assms payer_in [OF assms(2)] worker_in [OF assms(2)] worker_vec_in [OF assms(2)]
  by (cases op) (simp_all add: Let_def balanced_call of_harness_def qid_less)

lemma balanced_ops:
  assumes "sep41 (h_host h)" and "proper h" and "balanced h (f_world st)"
  shows "balanced h (f_world (fold (apply_op h) ops st))"
  using assms(3) by (induction ops arbitrary: st) (simp_all add: balanced_op [OF assms(1,2)])

lemma balanced_new:
  assumes "harness_new h l = Some st" and "proper h" and "\<And>t. 0 \<le> tok_balance (h_host h) t (self (h_host h)) l"
    and "tok_balance (h_host h) (h_token h) (self (h_host h)) l = 0"
  shows "balanced h (f_world st)"
proof -
  let ?new = "constructor (harness_env h 0) (h_admin h) (h_token h) (h_platform h) TIMEOUT"
  obtain u where run: "?new (blank_world l) = Ok u (f_world st)"
    using assms(1) by (auto simp: harness_new_def split: outcome.splits)
  have "wp ?new (\<lambda>_ s. outside (h_host h) s \<and> confined h s \<and> waiting h s) (blank_world l)"
    using assms(2) by (simp add: constructor_def wp_simps blank_world_def outside_def confined_def waiting_def proper_def)
  from wp_OkD [OF this run] created_ok(3) [of "harness_env h 0", where E = "h_host h" and t = "h_token h"] run assms(4)
    reachable.created [OF harness_host(1) assms(3)]
  show ?thesis by (cases u) (simp add: balanced_def)
qed

section \<open>The reconciliation holds\<close>

text \<open>A loop that adds up amounts which stay within \<open>B\<close>.\<close>

lemma sum_fold:
  fixes g :: "'x \<Rightarrow> i128"
  assumes "0 \<le> a" and "a + sum_list (map g xs) \<le> B" and "\<And>x. x \<in> set xs \<Longrightarrow> 0 \<le> g x"
    and "\<And>x a. x \<in> set xs \<Longrightarrow> 0 \<le> a \<Longrightarrow> a + g x \<le> B \<Longrightarrow> f x a s = Ok (a + g x) s"
  shows "fold_prog f xs a s = Ok (a + sum_list (map g xs)) s"
  using assms
proof (induction xs arbitrary: a)
  case (Cons x xs)
  have "0 \<le> sum_list (map g xs)" using Cons.prems(3) by (intro sum_list_nonneg) auto
  then have "f x a s = Ok (a + g x) s" using Cons.prems(1,2) by (intro Cons.prems(4)) simp_all
  moreover have "fold_prog f xs (a + g x) s = Ok (a + g x + sum_list (map g xs)) s"
    using Cons.prems by (intro Cons.IH) simp_all
  ultimately show ?case by (simp add: and_then_def add.assoc)
qed (simp add: ret_def)

text \<open>The books, summed over keys that cover them.\<close>

lemma msum_cover:
  assumes "finite A" and "inj_on k A" and "dom m \<subseteq> k ` A"
  shows "msum f m = (\<Sum>a\<in>A. mval f m (k a))"
proof -
  have "msum f m = (\<Sum>x\<in>dom m. mval f m x)" unfolding msum_def by (rule sum.cong) auto
  also have "\<dots> = (\<Sum>x\<in>k ` A. mval f m x)"
    by (rule sum.mono_neutral_left) (use assms in \<open>auto simp: mval_def split: option.split\<close>)
  also have "\<dots> = (\<Sum>a\<in>A. mval f m (k a))" by (simp add: sum.reindex [OF assms(2)])
  finally show ?thesis .
qed

lemma msum_list:
  assumes "distinct xs" and "inj_on k (set xs)" and "dom m \<subseteq> k ` set xs"
  shows "msum f m = sum_list (map (\<lambda>a. mval f m (k a)) xs)"
  unfolding msum_cover [OF finite_set assms(2,3)] by (simp add: sum_list_distinct_conv_sum_set [OF assms(1)])

text \<open>The summands of the test.\<close>

lemma add_worker_run:
  assumes "i_token s = Some d" and "stake_wf (stored_stake (KStake w) s)" and "0 \<le> get_owed w s" and "0 \<le> a"
    and "a + (stake_total (stored_stake (KStake w) s) + get_owed w s) \<le> B" and "i128_range B"
  shows "add_worker env w a s = Ok (a + (stake_total (stored_stake (KStake w) s) + get_owed w s)) s"
proof -
  define i where "i = stored_stake (KStake w) s"
  define j where "j = matured (now env) i"
  have tot: "settled j + warming j = settled i + warming i" "unbonding j = unbonding i" "stake_total i = settled i + warming i + unbonding i"
    by (simp_all add: j_def matured_active stake_total_def)
  have nn: "0 \<le> settled i" "0 \<le> warming i" "0 \<le> unbonding i"
    using assms(2) stake_wf_warming [OF assms(2)] by (auto simp: stake_wf_def i_def)
  have small: "i128_range v" if "0 \<le> v" "v \<le> a + (stake_total i + get_owed w s)" for v
    using that assms(5,6) by (intro i128_rangeI [of v B]) (simp_all add: i_def)
  have fits: "mature_fits (now env) i"
    using assms(2-4) nn tot(3) by (intro mature_fits_wf small) (simp_all add: i_def)
  have r: "i128_range (settled i + warming i)" "i128_range (settled i + warming i + unbonding i)"
      "i128_range (a + (settled i + warming i + unbonding i))"
      "i128_range (a + (settled i + warming i + unbonding i) + get_owed w s)"
    using assms(3,4) nn tot(3) by (auto intro!: small)
  have "stake_info env w s = Ok j s"
    using fits by (simp add: stake_info_run assms(1) Let_def i_def [symmetric] j_def)
  then show ?thesis
    using r by (simp add: add_worker_def get_stake_info_def and_then_def chk_def gets_def ret_def tot i_def [symmetric] add.assoc)
qed

lemma harness_page:
  assumes "stage_ok s" and "confined h s"
  shows "distinct (list_pending 0 200 s)" and "set (list_pending 0 200 s) = open_ids (p_question s)"
proof -
  have ok: "index_wf s" "dom (p_pending_pos s) = open_ids (p_question s)" using assms(1) by (simp_all add: stage_ok_def indexed_def)
  then have wf: "array_wf (pending_count s) (p_pending_at s) (p_pending_pos s)" by (simp add: index_wf_def)
  have "open_ids (p_question s) \<subseteq> {..<N_QIDS}" using confined_doms(6) [OF assms(2)] by (auto simp: open_ids_def)
  then have "card (open_ids (p_question s)) \<le> N_QIDS" using card_mono [of "{..<N_QIDS}"] by simp
  then have few: "pending_count s \<le> N_QIDS" using array_wf_card [OF wf] by (simp add: ok(2))
  have "i < pending_count s" if "p_pending_pos s q = Some i" for q i
    using wf that unfolding array_wf_def by (metis option.distinct(1))
  then have "i < MAX_PENDING_PAGE" if "p_pending_pos s q = Some i" for q i
    using that few by (fastforce simp: N_QIDS_def MAX_PENDING_PAGE_def)
  then have "set (list_pending 0 200 s) = dom (p_pending_pos s)"
    unfolding list_pending_set(2) [OF ok(1)] by (auto simp: MAX_PENDING_PAGE_def)
  then show "set (list_pending 0 200 s) = open_ids (p_question s)" by (simp add: ok(2))
  show "distinct (list_pending 0 200 s)" by (rule list_pending_set(1) [OF ok(1)])
qed

text \<open>What the test adds up, part by part, is what the contract owes.\<close>

lemma harness_sums:
  assumes "books_wf d s" and "stage_ok s" and "confined h s" and "proper h" and "d = h_token h"
  shows "msum (escrowed d) (p_question s) = sum_list (map (\<lambda>q. q_amount (the (p_question s q))) (list_pending 0 200 s))"
    and "msum (keyed_stake d d) (p_stake s) + msum (keyed d d) (p_owed s)
       = sum_list (map (\<lambda>w. stake_total (stored_stake (KStake w) s) + get_owed w s) (h_workers h))"
    and "msum (keyed d d) (p_balance s) = sum_list (map (\<lambda>p. get_balance p s) (h_payers h))"
    and "msum (bonded d d) (p_bond s) = sum_list (map (mval (bonded d d) (p_bond s)) [0..<N_QIDS])"
proof -
  note c = confined_doms [OF assms(3), folded assms(5)]
  have lists: "distinct (h_payers h)" "distinct (h_workers h)" using assms(4) by (simp_all add: proper_def)
  have "msum (escrowed d) (p_question s) = (\<Sum>q\<in>dom (p_question s). escrowed d q (the (p_question s q)))" by (rule msum_def)
  also have "\<dots> = (\<Sum>q\<in>open_ids (p_question s). escrowed d q (the (p_question s q)))"
    by (rule sum.mono_neutral_right) (use assms(1) in \<open>auto simp: books_finite open_ids_def escrowed_def\<close>)
  also have "\<dots> = (\<Sum>q\<in>open_ids (p_question s). q_amount (the (p_question s q)))"
    by (rule sum.cong) (use c(6) in \<open>auto simp: open_ids_def escrowed_def\<close>)
  also have "\<dots> = sum_list (map (\<lambda>q. q_amount (the (p_question s q))) (list_pending 0 200 s))"
    unfolding harness_page(2) [OF assms(2,3), symmetric] by (rule sum_list_distinct_conv_sum_set [symmetric]) (rule harness_page(1) [OF assms(2,3)])
  finally show "msum (escrowed d) (p_question s) = sum_list (map (\<lambda>q. q_amount (the (p_question s q))) (list_pending 0 200 s))" .
  have keys: "inj_on KStake A" "inj_on KOwed A" "inj_on KBalance A" for A by (simp_all add: inj_on_def)
  show "msum (keyed_stake d d) (p_stake s) + msum (keyed d d) (p_owed s)
      = sum_list (map (\<lambda>w. stake_total (stored_stake (KStake w) s) + get_owed w s) (h_workers h))"
    unfolding msum_list [OF lists(2) keys(1) c(5)] msum_list [OF lists(2) keys(2) c(3)]
    by (simp add: sum_list_addf get_owed_def)
  show "msum (keyed d d) (p_balance s) = sum_list (map (\<lambda>p. get_balance p s) (h_payers h))"
    unfolding msum_list [OF lists(1) keys(3) c(4)] by (simp add: get_balance_def)
  have "dom (p_bond s) \<subseteq> (\<lambda>q. q) ` set [0..<N_QIDS]"
    using assms(1) c(6) by (fastforce simp: books_wf_def bonds_ok_def)
  from msum_list [OF distinct_upt _ this, of "bonded d d"]
  show "msum (bonded d d) (p_bond s) = sum_list (map (mval (bonded d d) (p_bond s)) [0..<N_QIDS])" by simp
qed

lemma reconciliation_run:
  assumes "sound E d s" and "E = h_host h" and "d = h_token h" and "slack E d d s = 0" and "confined h s" and "proper h"
    and "i128_range (tok_balance E d (self E) (ledger s))"
  shows "check_reconciliation h n s = Ok () s"
proof -
  let ?B = "tok_balance E d (self E) (ledger s)"
  let ?q = "\<lambda>q. q_amount (the (p_question s q))"
  let ?w = "\<lambda>w. stake_total (stored_stake (KStake w) s) + get_owed w s"
  let ?p = "\<lambda>p. get_balance p s"
  let ?b = "\<lambda>q. mval (bonded d d) (p_bond s) q"
  have wf: "books_wf d s" and stage: "stage_ok s" using assms(1) by (simp_all add: sound_def)
  have tok: "i_token s = Some d" using wf by (simp add: books_wf_def)
  note c = confined_doms [OF assms(5), folded assms(3)]
  have h: "distinct (h_payers h)" "distinct (h_workers h)" using assms(6) by (simp_all add: proper_def)
  have nn: "\<And>q. q \<in> set (list_pending 0 200 s) \<Longrightarrow> 0 \<le> ?q q" "\<And>w. 0 \<le> ?w w" "\<And>p. 0 \<le> ?p p" "\<And>q. 0 \<le> ?b q"
  proof -
    show "0 \<le> ?q q" if "q \<in> set (list_pending 0 200 s)" for q
      using that books_question(1) [OF wf, of q] by (auto simp: harness_page(2) [OF stage assms(5)] open_ids_def)
    show "0 \<le> ?w w" for w using wf by (simp add: books_wf_def stake_total_nonneg get_owed_def)
    show "0 \<le> ?p p" for p using wf by (simp add: books_wf_def get_balance_def)
    show "0 \<le> ?b q" for q using wf by (auto simp: books_wf_def bonds_ok_def mval_def bonded_def less_imp_le split: option.split)
  qed
  note sums = harness_sums [OF wf stage assms(5,6,3)]
  have total: "sum_list (map ?q (list_pending 0 200 s)) + sum_list (map ?w (h_workers h)) + sum_list (map ?p (h_payers h))
      + sum_list (map ?b [0..<N_QIDS]) = ?B"
    using assms(4) sums by (simp add: slack_def liabilities_def)
  have pos: "0 \<le> sum_list (map ?q (list_pending 0 200 s))" "0 \<le> sum_list (map ?w (h_workers h))" "0 \<le> sum_list (map ?p (h_payers h))"
      "0 \<le> sum_list (map ?b [0..<N_QIDS])"
    by (rule sum_list_nonneg, use nn in auto)+
  have small: "i128_range v" if "0 \<le> v" "v \<le> ?B" for v using that by (rule i128_rangeI [OF _ _ assms(7)])
  have e1: "fold_prog add_question (list_pending 0 200 s) 0 s = Ok (0 + sum_list (map ?q (list_pending 0 200 s))) s"
  proof (rule sum_fold [where B = ?B])
    show "add_question q a s = Ok (a + ?q q) s" if "q \<in> set (list_pending 0 200 s)" "0 \<le> a" "a + ?q q \<le> ?B" for q a
      using that small [of "a + ?q q"] nn(1) [OF that(1)]
      by (auto simp: harness_page(2) [OF stage assms(5)] open_ids_def add_question_def get_question_def load_question_def
          and_then_def gets_def ok_or_def chk_def ret_def)
  qed (use nn(1) total pos in simp_all)
  have e2: "fold_prog (add_worker (harness_env h n)) (h_workers h) a s = Ok (a + sum_list (map ?w (h_workers h))) s"
    if "0 \<le> a" "a + sum_list (map ?w (h_workers h)) \<le> ?B" for a
    by (rule sum_fold [where B = ?B], use that nn(2) in simp_all, rule add_worker_run [OF tok _ _ _ _ assms(7)])
      (use wf in \<open>simp_all add: books_wf_def get_owed_def\<close>)
  have e3: "fold_prog add_payer (h_payers h) a s = Ok (a + sum_list (map ?p (h_payers h))) s"
    if "0 \<le> a" "a + sum_list (map ?p (h_payers h)) \<le> ?B" for a
    by (rule sum_fold [where B = ?B]) (use that nn(3) small in \<open>simp_all add: add_payer_def and_then_def gets_def chk_def ret_def\<close>)
  have e4: "fold_prog add_bond [0..<N_QIDS] a s = Ok (a + sum_list (map ?b [0..<N_QIDS])) s"
    if "0 \<le> a" "a + sum_list (map ?b [0..<N_QIDS]) \<le> ?B" for a
  proof (rule sum_fold [where B = ?B])
    show "add_bond q a s = Ok (a + ?b q) s" if "0 \<le> a" "a + ?b q \<le> ?B" for q a
      using that small [of "a + ?b q"] nn(4) [of q]
      by (cases "p_bond s q") (simp_all add: add_bond_def get_challenger_bond_def and_then_def gets_def chk_def ret_def bonded_def)
  qed (use that nn(4) in simp_all)
  show ?thesis
    using e1 e2 e3 e4 total pos
    by (simp add: check_reconciliation_def and_then_def gets_def trap_unless_def ret_def assms(2,3) [symmetric])
qed

section \<open>The target finds nothing\<close>

lemma harness_deploys: "\<exists>st. harness_new h l = Some st"
proof -
  have "twp (constructor (harness_env h 0) (h_admin h) (h_token h) (h_platform h) TIMEOUT) (\<lambda>_ _. True) (blank_world l)"
    by (simp add: constructor_def twp_simps valid_timeout_def TIMEOUT_def MAX_TIMEOUT_LEDGERS_def)
  then show ?thesis by (auto simp: harness_new_def twp_def)
qed

text \<open>
  C7. Whatever calls the fuzz target makes, in whatever order and at whatever ledgers, it finds nothing:
  the deployment and the reading of the books return, no sum overflows, and the contract's balance is
  exactly the sum of the open questions, the stakes and earnings of the workers, the prepaid balances
  and the bonds. The token is honest and its balances are \<open>i128\<close>, the contract starts with none of it.
\<close>

theorem fuzz_finds_nothing:
  assumes "sep41 (h_host h)" and "proper h" and "\<And>t. 0 \<le> tok_balance (h_host h) t (self (h_host h)) l"
    and "tok_balance (h_host h) (h_token h) (self (h_host h)) l = 0"
    and "\<And>st. harness_run h l ops = Some st \<Longrightarrow>
      i128_range (tok_balance (h_host h) (h_token h) (self (h_host h)) (ledger (f_world st)))"
  shows "fuzz_target h l ops"
proof -
  obtain st0 where new: "harness_new h l = Some st0" using harness_deploys [of h l] by auto
  define st where "st = fold (apply_op h) ops st0"
  have run: "harness_run h l ops = Some st" by (simp add: harness_run_def new st_def)
  have "balanced h (f_world st)"
    unfolding st_def by (rule balanced_ops [OF assms(1,2) balanced_new [OF new assms(2-4)]])
  then have s: "reachable (h_host h) no_peers (h_token h) (f_world st)" "slack (h_host h) (h_token h) (h_token h) (f_world st) = 0"
    "confined h (f_world st)" by (simp_all add: balanced_def)
  have "check_reconciliation h (f_sequence st) (f_world st) = Ok () (f_world st)"
    by (rule reconciliation_run [OF reachable_sound [OF s(1) assms(1) no_peers_bounded] refl refl s(2,3) assms(2) assms(5) [OF run]])
  then show ?thesis by (simp add: fuzz_target_def run)
qed

definition small_harness :: "accounts harness" where
  "small_harness = \<lparr>h_host = sample_host, h_token = usd, h_payers = [Address 11, Address 12, Address 13],
     h_workers = [Address 14, Address 15, Address 16, Address 17], h_admin = owner, h_platform = treasury\<rparr>"

definition minted :: accounts where
  "minted t x = (if x \<in> set (h_payers small_harness) \<union> set (h_workers small_harness) then INITIAL_FUNDS else 0)"

definition busy :: "op list" where
  "busy = [Op_Stake 4 1000, Op_Submit 0 6 500, Op_Deposit 1 70, Op_Advance 0, Op_Resolve 1 [1, 5, 2] [0], Op_Withdraw 1 10,
     Op_Submit 1 2 300, Op_ResolveChallengeable 2 [3] [0] 5, Op_PostChallengeBond 2 2 50, Op_Advance 30, Op_FinalizeResolve 2]"

theorem fuzz_finds_nothing_witness:
  "fuzz_target small_harness minted busy
     \<and> map_option (\<lambda>st. (ledger (f_world st) usd treasury, ledger (f_world st) usd here)) (harness_run small_harness minted busy)
       = Some (260, 1650)"
proof
  have run: "map_option (\<lambda>st. (ledger (f_world st) usd treasury, ledger (f_world st) usd here)) (harness_run small_harness minted busy)
      = Some (260, 1650)" by code_simp
  then show "map_option (\<lambda>st. (ledger (f_world st) usd treasury, ledger (f_world st) usd here)) (harness_run small_harness minted busy)
      = Some (260, 1650)" .
  have sep: "sep41 (h_host small_harness)" by (simp add: small_harness_def sample_sep41)
  have h: "proper small_harness"
    "tok_balance (h_host small_harness) (h_token small_harness) (self (h_host small_harness)) minted = 0"
    "0 \<le> tok_balance (h_host small_harness) t (self (h_host small_harness)) minted" for t
    by (simp_all add: small_harness_def proper_def N_PAYERS_def N_WORKERS_def sample_host_def minted_def)
  show "fuzz_target small_harness minted busy"
    by (rule fuzz_finds_nothing [OF sep h(1,3,2)])
      (use run in \<open>auto simp: small_harness_def sample_host_def i128_range_def i128_max_def\<close>)
qed

end
