(* ===== verification/Payment_Rules.thy ===== *)
theory Payment_Rules
  imports Sample Frames Verdicts
begin

text \<open>
  What a settlement pays: the split of a question's amount, the redistribution of slashed stake, the
  credit of every worker, and the pure decisions around it (worker lists, dissent, leaderboard,
  median).
\<close>

section \<open>The parts of a payout\<close>

lemma wp_split_exact:
  assumes "0 \<le> a" and "0 < n"
    and "Q (a * 2000 div 10000, (a - a * 2000 div 10000) div n, (a - a * 2000 div 10000) mod n) s"
  shows "wp (split_amount a n) Q s"
proof -
  have fee: "mul_bps_val a PLATFORM_FEE_BPS = a * 2000 div 10000" "a * 2000 div 10000 \<le> a"
    using assms(1) mul_bps_le [of a 2000] by (simp_all add: mul_bps_exact PLATFORM_FEE_BPS_def)
  then have "(a - a * 2000 div 10000) sdiv n = (a - a * 2000 div 10000) div n"
    using assms(2) by (simp add: sdiv_nonneg)
  then show ?thesis
    using assms(3) by (simp add: split_amount_def wp_simps Let_def fee minus_div_mult_eq_mod)
qed

definition payout_parts :: "i128 \<Rightarrow> i128 \<Rightarrow> i128 \<times> i128 \<times> i128 \<times> i128 \<Rightarrow> bool" where
  "payout_parts a n r = (case r of (fee, tot, take', credit) \<Rightarrow>
     let share = (a - fee) div n; dust = (a - fee) mod n in
     fee = a * 2000 div 10000 \<and> 0 \<le> tot \<and> share \<le> credit \<and> fee + dust \<le> take'
       \<and> a + tot = n * credit + take')"

lemma payout_parts_hold:
  assumes "books_wf d s" and "0 \<le> a" and "0 < n"
  shows "wp (payout env q tok a n ls) (\<lambda>r _. payout_parts a n r) s"
proof -
  let ?fee = "a * 2000 div 10000"
  have sum: "(a - ?fee) div n * n + (a - ?fee) mod n = a - ?fee" by simp
  show ?thesis
    unfolding payout_def wp_and_then [of "split_amount a n"]
  proof (rule wp_split_exact [OF assms(2,3)], unfold prod.case wp_and_then [of "mul_bps _ _"] wp_mul_bps, rule impI)
    fix cap
    show "wp (and_then (distribute_slashes env q tok ls cap n)
      (\<lambda>(x, y, tot). and_then (chk (?fee + (a - ?fee) mod n)) (\<lambda>fee_dust.
       and_then (ok_or (checked_add fee_dust x) ArithmeticOverflow) (\<lambda>ptake.
       and_then (ok_or (checked_add ((a - ?fee) div n) y) ArithmeticOverflow) (\<lambda>credit.
         ret (?fee, tot, ptake, credit)))))) (\<lambda>r _. payout_parts a n r) s" for cap
      unfolding wp_and_then
      by (rule wp_conseq [OF distribute_slashes_ok [OF assms(1,3)]])
        (use sum assms(3) in \<open>auto simp: slashes_ok_def payout_parts_def wp_simps Let_def algebra_simps\<close>)
  qed
qed

section \<open>Credits\<close>

definition earnings :: "'w world \<Rightarrow> (data_key \<rightharpoonup> i128) \<times> address option" where
  "earnings s = (p_owed s, i_token s)"

lemma earnings_host [frame_intros]:
  "untouched earnings (transfer env t f r n)" "untouched earnings (publish e)"
  "untouched earnings (extend_ttl env k lo hi)" "untouched earnings (require_auth env a)"
  by (simp_all add: untouched_def require_auth_def transfer_def publish_def extend_ttl_def run_defs
      earnings_def split: option.split)

lemma earnings_set [frame_intros]:
  "(\<And>s. earnings (f s) = earnings s) \<Longrightarrow> untouched earnings (set_persistent env k f)"
  unfolding set_persistent_def extend_persistent_def by (intro frame_intros) simp


text \<open>The key a worker's earnings in token \<open>t\<close> are kept under, \<open>d\<close> being the default token.\<close>

definition earned_at :: "address \<Rightarrow> address \<Rightarrow> address \<Rightarrow> data_key" where
  "earned_at d t w = (if t = d then KOwed w else KOwedAsset t w)"

lemma earned_at_inj [simp]: "earned_at d t w = earned_at d t v \<longleftrightarrow> w = v"
  by (simp add: earned_at_def)






section \<open>Properties of the split\<close>

text \<open>
  C20. Nothing is lost or made in a settlement: whenever the split returns, the fee is a fifth rounded
  down, and the amount together with everything slashed is exactly what the winners are credited, one
  credit each, plus the platform's take, in which the fee and the division's remainder are contained.
\<close>

theorem payout_conserves:
  assumes "books_wf d s" and "0 \<le> a" and "0 < n" and "payout env q tok a n ls s = Ok (fee, tot, ptake, credit) u"
  shows "fee = a * 2000 div 10000 \<and> 0 \<le> tot \<and> (a - fee) div n \<le> credit
     \<and> fee + (a - fee) mod n \<le> ptake \<and> a + tot = n * credit + ptake"
  using wp_OkD [OF payout_parts_hold [OF assms(1-3)] assms(4)] unfolding payout_parts_def Let_def prod.case .

lemma opened_books: "books_wf usd opened"
  using reachable_sound [OF sample_opened sample_sep41 sample_bounded] by (simp add: sound_def)

theorem payout_conserves_witness:
  "\<exists>u. payout (at 40) 7 usd 1003 3 [dave] opened = Ok (200, 20, 213, 270) u \<and> (1003 :: i128) + 20 = 3 * 270 + 213"
proof -
  have "case payout (at 40) 7 usd 1003 3 [dave] opened of Ok r u \<Rightarrow> r = (200, 20, 213, 270) | _ \<Rightarrow> False" by code_simp
  then obtain u where "payout (at 40) 7 usd 1003 3 [dave] opened = Ok (200, 20, 213, 270) u" by (auto split: outcome.splits)
  then show ?thesis using payout_conserves [OF opened_books, of 1003 3] by fastforce
qed

section \<open>What a resolution pays\<close>







section \<open>What a resolution refuses\<close>

text \<open>The first guard that fails, in the order of the source.\<close>

definition resolve_error :: "u64 \<Rightarrow> address list \<Rightarrow> address list \<Rightarrow> 'w world \<Rightarrow> contract_error option" where
  "resolve_error q ws ls s =
     (if ws = [] then Some NoWorkers
      else if MAX_QUORUM_SIZE < length ws + length ls then Some QuorumTooLarge
      else if length ws + length ls < fst (get_quorum_bounds s) \<or> snd (get_quorum_bounds s) < length ws + length ls
        then Some QuorumOutOfBounds
      else if \<not> distinct (ws @ ls) then Some InvalidWorkerLists
      else case p_question s q of
          None \<Rightarrow> Some QuestionNotFound
        | Some x \<Rightarrow> if q_status x \<noteq> Pending then Some QuestionNotPending else None)"

lemma quorum_size_exact: "length ws + length ls \<le> MAX_QUORUM_SIZE \<Longrightarrow> quorum_size ws ls = length ws + length ls"
  by (simp add: quorum_size_def saturating_add_exact MAX_QUORUM_SIZE_def u32_max_def)

lemma quorum_size_large: "MAX_QUORUM_SIZE < quorum_size ws ls \<longleftrightarrow> MAX_QUORUM_SIZE < length ws + length ls"
  by (simp add: quorum_size_def saturating_add_def MAX_QUORUM_SIZE_def u32_max_def)

lemma check_lists_run:
  "check_lists ws ls s = (if ws = [] then Fail NoWorkers s
     else if MAX_QUORUM_SIZE < length ws + length ls then Fail QuorumTooLarge s
     else if length ws + length ls < fst (get_quorum_bounds s) \<or> snd (get_quorum_bounds s) < length ws + length ls
       then Fail QuorumOutOfBounds s
     else if \<not> distinct (ws @ ls) then Fail InvalidWorkerLists s else Ok () s)"
proof (cases "MAX_QUORUM_SIZE < length ws + length ls")
  case True
  then have "\<not> quorum_size ws ls \<le> MAX_QUORUM_SIZE" using quorum_size_large [of ws ls] by simp
  then show ?thesis using True by (simp add: check_lists_def run_defs)
next
  case False
  then show ?thesis
    by (auto simp: check_lists_def check_quorum_bounds_def quorum_size_exact validate_worker_lists_run case_prod_beta
        run_defs not_le)
qed

text \<open>
  C25. \<open>resolve\<close> refuses in the order of its guards: without the signature of the resolver, or of the admin
  when none is set, it traps, and otherwise it returns the error of the first guard that fails and leaves
  the world as it was.
\<close>

theorem resolve_refuses:
  assumes "i_admin s = Some a"
  shows "(\<not> authorized env (case i_resolver s of Some r \<Rightarrow> r | None \<Rightarrow> a) \<longrightarrow> resolve env q ws ls h s = Trap)
     \<and> (authorized env (case i_resolver s of Some r \<Rightarrow> r | None \<Rightarrow> a) \<longrightarrow> resolve_error q ws ls s = Some e
          \<longrightarrow> resolve env q ws ls h s = Fail e s)"
proof -
  have "settle_resolution env q ws ls (Some h) s = Fail e s" if "resolve_error q ws ls s = Some e"
    using that unfolding settle_resolution_def block.simps seq_do_def and_then_def check_lists_run resolve_error_def
    by (auto simp: load_question_def run_defs split: if_splits option.splits)
  then show ?thesis
    using assms by (auto simp: resolve_def require_resolver_or_admin_def require_auth_def run_defs split: option.splits)
qed

theorem resolve_refuses_witness:
  "resolve (at 40) 7 [bob, carol] [bob] [] opened = Fail InvalidWorkerLists opened
     \<and> resolve (at 40) 8 [bob] [] [] opened = Fail QuestionNotFound opened
     \<and> resolve (at 50) 7 [bob] [] [] settled_world = Fail QuestionNotPending settled_world"
proof -
  have admin: "i_admin opened = Some owner" "i_admin settled_world = Some owner" "i_resolver opened = None"
      "i_resolver settled_world = None" by code_simp+
  have "resolve_error 7 [bob, carol] [bob] opened = Some InvalidWorkerLists"
      "resolve_error 8 [bob] [] opened = Some QuestionNotFound"
      "resolve_error 7 [bob] [] settled_world = Some QuestionNotPending" by code_simp+
  then show ?thesis
    using resolve_refuses [OF admin(1), of "at 40" 7 "[bob, carol]" "[bob]"]
      resolve_refuses [OF admin(1), of "at 40" 8 "[bob]" "[]"] resolve_refuses [OF admin(2), of "at 50" 7 "[bob]" "[]"]
      admin(3,4) by simp
qed

section \<open>Slashes\<close>



section \<open>Basis points\<close>

text \<open>
  C33. \<open>mul_bps\<close> on any non-negative \<open>i128\<close> and any rate up to 100 percent never overflows and is the exact
  rounded-down share, although the product itself may not fit.
\<close>

theorem mul_bps_exact_total:
  assumes "0 \<le> v" and "i128_range v" and "0 \<le> b" and "b \<le> 10000"
  shows "mul_bps v b s = Ok (v * b div 10000) s"
  using mul_bps_fits_dom [OF assms] mul_bps_exact [OF assms(1,3)] by (simp add: mul_bps_run)

theorem mul_bps_exact_total_witness:
  "mul_bps i128_max 9999 () = (Ok (i128_max * 9999 div 10000) () :: (unit, unit, i128) outcome)
     \<and> \<not> i128_range (i128_max * 9999)"
  using mul_bps_exact_total [of i128_max 9999 "()"] by (simp add: i128_range_def i128_max_def)

section \<open>Consensus\<close>



text \<open>
  \<open>compute_median\<close> returns the median: the middle of the values in ascending order when their number is
  odd, and the truncated mean of the two middle ones when it is even and their sum fits; on no values it
  traps.
\<close>

lemma median_exact:
  shows "compute_median answers s =
    (let vs = sort (map answer_value answers); n = length answers in
     if odd n then Ok (vs ! (n div 2)) s
     else if n = 0 then Trap
     else if i128_range (vs ! (n div 2 - 1) + vs ! (n div 2))
       then Ok ((vs ! (n div 2 - 1) + vs ! (n div 2)) sdiv 2) s
     else Trap)"
  by (auto simp: compute_median_def sorted_values_sort Let_def run_defs chk_def odd_iff_mod_2_eq_one even_iff_mod_2_eq_zero)

end
