(* ===== verification/Ranking.thy ===== *)
theory Ranking
  imports Worlds Sample
begin

text \<open>
  The leaderboard along every history: it is sorted, has no worker twice and at most its cap, shows
  each worker's true resolved count, and nobody left off it has resolved more than anyone on it.
\<close>

section \<open>Views that only see the leaderboard\<close>

locale ranked_view = quiet_view +
  assumes unset: "view (s\<lparr>i_admin := f1\<rparr>) = view s" "view (s\<lparr>i_token := f2\<rparr>) = view s"
    "view (s\<lparr>i_platform := f3\<rparr>) = view s" "view (s\<lparr>i_timeout_ledgers := f4\<rparr>) = view s"
    "view (s\<lparr>i_migration_source := f5\<rparr>) = view s" "view (s\<lparr>i_min_quorum := f6\<rparr>) = view s"
    "view (s\<lparr>i_max_quorum := f7\<rparr>) = view s" "view (s\<lparr>i_lending_authority := f8\<rparr>) = view s"
    "view (s\<lparr>i_kyc_attestor := f9\<rparr>) = view s" "view (s\<lparr>i_resolver := f10\<rparr>) = view s"
    "view (s\<lparr>i_established := f11\<rparr>) = view s" "view (s\<lparr>i_pending_upgrade := f12\<rparr>) = view s"
    "view (s\<lparr>i_paused := f13\<rparr>) = view s" "view (s\<lparr>i_pg_address := f14\<rparr>) = view s"
    "view (s\<lparr>i_pg_bps := f15\<rparr>) = view s" "view (s\<lparr>i_allowed_token := f16\<rparr>) = view s"
    "view (s\<lparr>i_token_decimals := f17\<rparr>) = view s" "view (s\<lparr>i_allowed_count := f18\<rparr>) = view s"
    "view (s\<lparr>i_pending_rotation := f19\<rparr>) = view s" "view (s\<lparr>current_wasm := f20\<rparr>) = view s"
    "view (s\<lparr>p_pending_resolution := f21\<rparr>) = view s"
begin

lemma governance_frame [frame_intros]:
  "untouched view (set_asset_allowed env t b)" "untouched view (set_established_answer_count env n)"
  "untouched view (set_admin env a)" "untouched view (propose_admin_rotation env a)"
  "untouched view (cancel_admin_rotation env)" "untouched view (execute_admin_rotation env)"
  "untouched view (set_resolver env r)" "untouched view (set_timeout_ledgers env n)"
  "untouched view (propose_upgrade env h)" "untouched view (cancel_upgrade env)" "untouched view (execute_upgrade env)"
  "untouched view (set_paused env b)" "untouched view (set_migration_source env a)"
  "untouched view (clear_migration_source env)" "untouched view (set_quorum_bounds env m n)"
  "untouched view (set_lending_authority env a)" "untouched view (set_public_goods_config env a n)"
  "untouched view (set_kyc_attestor env k)"
  unfolding set_asset_allowed_def allow_asset_def disallow_asset_def
    set_established_answer_count_def set_admin_def propose_admin_rotation_def schedule_admin_rotation_def
    cancel_admin_rotation_def execute_admin_rotation_def load_rotation_def set_resolver_def set_timeout_ledgers_def
    propose_upgrade_def cancel_upgrade_def execute_upgrade_def load_upgrade_def update_current_contract_wasm_def
    set_paused_def set_migration_source_def clear_migration_source_def set_quorum_bounds_def
    set_lending_authority_def set_public_goods_config_def set_kyc_attestor_def ttl_defs
  by (intro frame_intros; simp add: quiet unset)+

lemma window_frame [frame_intros]:
  "untouched view (resolve_challengeable env q ws ls n)" "untouched view (dispute_resolve env q)"
  "untouched view (drop_resolution q)"
  unfolding resolve_challengeable_def dispute_resolve_def put_resolution_def drop_resolution_def
  by (intro frame_intros; simp add: quiet unset)+

end

definition board :: "'w world \<Rightarrow> (address \<times> u32) list option \<times> (address \<rightharpoonup> u32)" where
  "board s = (i_leaderboard s, p_resolved_count s)"

interpretation board: ranked_view board
  by unfold_locales (simp_all add: board_def)

fun ranks :: "entry \<Rightarrow> bool" where
  "ranks (Resolve q ws ls h) = True"
| "ranks (ResolveByConsensus q as) = True"
| "ranks (EscalateResolve q ws ls) = True"
| "ranks (FinalizeResolve q) = True"
| "ranks e = False"

lemma exec_board: "\<not> ranks e \<Longrightarrow> untouched board (exec env peers e)"
  by (cases e) (simp_all add: void_def frame_intros)

section \<open>The invariant\<close>

definition board_ok :: "'w world \<Rightarrow> bool" where
  "board_ok s \<longleftrightarrow> leaderboard_ok (get_leaderboard s)
     \<and> (\<forall>(w, n)\<in>set (get_leaderboard s). get_resolved_count w s = n)
     \<and> (\<forall>w. w \<notin> fst ` set (get_leaderboard s) \<longrightarrow> 0 < get_resolved_count w s \<longrightarrow>
          length (get_leaderboard s) = LEADERBOARD_CAP
          \<and> (\<forall>(x, n)\<in>set (get_leaderboard s). get_resolved_count w s \<le> n))"

lemma board_ok_cong: "board u = board s \<Longrightarrow> board_ok u = board_ok s"
  by (simp add: board_ok_def board_def get_leaderboard_def get_resolved_count_def)

lemma board_okD:
  assumes "board_ok s"
  shows "leaderboard_ok (get_leaderboard s)"
    and "(x, n) \<in> set (get_leaderboard s) \<Longrightarrow> get_resolved_count x s = n"
    and "x \<notin> fst ` set (get_leaderboard s) \<Longrightarrow> 0 < get_resolved_count x s \<Longrightarrow>
      length (get_leaderboard s) = LEADERBOARD_CAP"
    and "x \<notin> fst ` set (get_leaderboard s) \<Longrightarrow> 0 < get_resolved_count x s \<Longrightarrow>
      (y, n) \<in> set (get_leaderboard s) \<Longrightarrow> get_resolved_count x s \<le> n"
  using assms unfolding board_ok_def by (auto dest: bspec)

text \<open>Replacing one worker's entry of a full board leaves at least as many candidates as the cap.\<close>

lemma candidates:
  assumes "distinct (map fst es)" and "length es = k"
  shows "k \<le> card (insert (w, n) {e \<in> set es. fst e \<noteq> w})"
    and "w \<notin> fst ` set es \<Longrightarrow> card (insert (w, n) {e \<in> set es. fst e \<noteq> w}) = Suc k"
proof -
  let ?R = "{e \<in> set es. fst e \<noteq> w}"
  have d: "distinct es" "inj_on fst (set es)" using assms(1) by (simp_all add: distinct_map)
  then have k: "card (set es) = k" using assms(2) by (simp add: distinct_card)
  have new: "card (insert (w, n) ?R) = Suc (card ?R)" by (subst card_insert_disjoint) auto
  have "\<exists>e. {e \<in> set es. fst e = w} \<subseteq> {e}"
    using d(2) by (cases "\<exists>e\<in>set es. fst e = w") (auto simp: inj_on_def)
  then obtain e where "{e \<in> set es. fst e = w} \<subseteq> {e}" by blast
  then have "card {e \<in> set es. fst e = w} \<le> 1" using card_mono [of "{e}"] by fastforce
  moreover have "card (set es) \<le> card ?R + card {e \<in> set es. fst e = w}"
  proof -
    have "set es = ?R \<union> {e \<in> set es. fst e = w}" by auto
    then show ?thesis by (metis (no_types, lifting) card_Un_le)
  qed
  ultimately show "k \<le> card (insert (w, n) ?R)" using k new by simp
  assume "w \<notin> fst ` set es"
  then have "?R = set es" by force
  then show "card (insert (w, n) ?R) = Suc k" using k new by simp
qed

lemma board_step:
  fixes s u :: "'w world"
  assumes "board_ok s" and "get_leaderboard u = lb_update w (get_resolved_count w s + 1) (get_leaderboard s)"
    and "\<And>x. get_resolved_count x u = (if x = w then get_resolved_count w s + 1 else get_resolved_count x s)"
  shows "board_ok u"
proof -
  let ?B = "get_leaderboard s" and ?n = "get_resolved_count w s + 1" and ?C = "get_leaderboard u"
  let ?all = "insert (w, ?n) {e \<in> set ?B. fst e \<noteq> w}"
  note B = board_okD [OF assms(1)]
  note step = leaderboard_step [OF B(1), of w ?n, folded assms(2)]
  have d: "distinct (map fst ?B)" and len: "length ?C \<le> LEADERBOARD_CAP" "card (set ?C) = length ?C"
    using B(1) step(1) distinct_card [of ?C] by (auto simp: leaderboard_ok_def distinct_map)
  have counts: "get_resolved_count x u = n" if "(x, n) \<in> ?all" for x n
    using that B(2) assms(3) by auto
  have off: "length ?C = LEADERBOARD_CAP \<and> (\<forall>e\<in>set ?C. get_resolved_count x u \<le> snd e)"
    if x: "x \<notin> fst ` set ?C" "0 < get_resolved_count x u" for x
  proof (cases "x \<in> fst ` ?all")
    case True
    then have "(x, get_resolved_count x u) \<in> ?all" using counts by force
    moreover from this have "(x, get_resolved_count x u) \<notin> set ?C" using x(1) by force
    ultimately have "(x, get_resolved_count x u) \<in> ?all - set ?C" by blast
    then show ?thesis using bspec [OF step(3)] step(4) by fastforce
  next
    case False
    then have x': "x \<noteq> w" "x \<notin> fst ` set ?B" "0 < get_resolved_count x s" using x(2) assms(3) by auto
    note all = candidates [OF d B(3) [OF x'(2,3)], where w = w and n = "?n"]
    have "LEADERBOARD_CAP \<le> length ?C" if "?all = set ?C" using all(1) [unfolded that len(2)] .
    then have "length ?C = LEADERBOARD_CAP" using step(4) len(1) by (meson le_antisym)
    moreover have "get_resolved_count x s \<le> m" if m: "(y, m) \<in> set ?C" for y m
    proof (cases "(y, m) \<in> set ?B")
      case False
      then have yw: "y = w" "m = ?n" using m step(2) by auto
      show ?thesis
      proof (cases "w \<in> fst ` set ?B")
        case True
        then obtain k where "(w, k) \<in> set ?B" by force
        then show ?thesis using B(2) B(4) [OF x'(2,3)] yw by fastforce
      next
        case new: False
        have "?all \<noteq> set ?C"
        proof
          assume "?all = set ?C"
          then show False using all(2) [OF new, unfolded \<open>?all = set ?C\<close> len(2)] len(1) by simp
        qed
        then obtain e where "e \<in> ?all - set ?C" using step(2) by blast
        then have "e \<in> set ?B" "snd e \<le> m" using bspec [OF bspec [OF step(3)] m] m yw by auto
        then show ?thesis using B(4) [OF x'(2,3), of "fst e" "snd e"] by simp
      qed
    qed (use B(4) [OF x'(2,3)] in blast)
    ultimately show ?thesis using x' assms(3) by auto
  qed
  have "get_resolved_count x u = n" if "(x, n) \<in> set ?C" for x n using counts step(2) that by blast
  then show ?thesis
    unfolding board_ok_def case_prod_beta using step(1) off by auto
qed

section \<open>Every operation keeps it\<close>

lemma board_quiet:
  fixes m :: "('e, 'w world, 'a) prog"
  assumes m: "untouched board m"
  shows "stays board_ok m"
  unfolding stays_def
proof (intro allI impI)
  fix s :: "'w world" assume "board_ok s"
  then have "board_ok u" if "board u = board s" for u using board_ok_cong [OF that] by simp
  then show "wp m (\<lambda>_. board_ok) s" by (rule wp_conseq [OF wp_untouched [OF m]])
qed

lemma credit_board [stays_intros]: "stays board_ok (record_resolved_credit env w)"
  unfolding stays_def
proof (intro allI impI)
  fix s :: "'a world" assume ok: "board_ok s"
  let ?n = "get_resolved_count w s + 1"
  have "wp (record_resolved_credit env w) (\<lambda>_ u. i_leaderboard u = Some (lb_update w ?n (get_leaderboard s))
      \<and> p_resolved_count u = (p_resolved_count s)(w \<mapsto> ?n)) s"
    by (simp add: record_resolved_credit_def update_leaderboard_def wp_simps get_leaderboard_def)
  then show "wp (record_resolved_credit env w) (\<lambda>_. board_ok) s"
    by (rule wp_conseq) (rule board_step [OF ok, of _ w];
      simp add: get_leaderboard_def get_resolved_count_def counter_def)
qed

lemma resolution_board [stays_intros]:
  "stays board_ok (settle_resolution env q ws ls h)" "stays board_ok (pay_worker env q t v w)"
  unfolding settle_resolution_def pay_worker_def
  by ((intro stays_intros | (rule board_quiet, (intro board.pay_frame board.question_frame board.resolution_frame
    board.host_frame frame_intros; simp add: board_def; fail)))+)

lemma rank_board: "ranks e \<Longrightarrow> stays board_ok (exec env peers e)"
proof (cases e)
  case (FinalizeResolve q)
  show ?thesis
    unfolding FinalizeResolve exec.simps finalize_resolve_def
    by ((intro stays_intros | (rule board_quiet, (intro frame_intros; simp add: board_def; fail)))+)
next
  case (Resolve q ws ls h)
  show ?thesis
    unfolding Resolve exec.simps resolve_def
    by ((intro stays_intros | (rule board_quiet, (intro frame_intros; simp add: board_def; fail)))+)
next
  case (ResolveByConsensus q as)
  show ?thesis
    unfolding ResolveByConsensus exec.simps resolve_by_consensus_def
    by ((intro stays_intros | (rule board_quiet, (intro frame_intros; simp add: board_def; fail)))+)
next
  case (EscalateResolve q ws ls)
  show ?thesis
    unfolding EscalateResolve exec.simps escalate_resolve_def
    by ((intro stays_intros | (rule board_quiet, (intro frame_intros; simp add: board_def; fail)))+)
qed simp_all

lemma board_start: "wp (constructor env admin d platform timeout) (\<lambda>_. board_ok) (blank_world l)"
  by (simp add: constructor_def blank_world_def wp_simps board_ok_def get_leaderboard_def
      get_resolved_count_def counter_def leaderboard_ok_def)

lemma reachable_board: "reachable E peers d s \<Longrightarrow> board_ok s"
proof (induction rule: reachable.induct)
  case (created env l admin platform timeout s)
  show ?case using wp_OkD [OF board_start created(3)] .
next
  case (called s env e r u)
  show ?case
  proof (cases "exec env peers e s")
    case (Ok z v)
    then have u: "u = v" using called.hyps by (simp add: invoke_def)
    have "stays board_ok (exec env peers e)"
      using rank_board board_quiet [OF exec_board] by blast
    then have "wp (exec env peers e) (\<lambda>_. board_ok) s" using called.IH by (simp add: stays_def)
    then show ?thesis using wp_OkD Ok u by fastforce
  qed (use called in \<open>auto simp: invoke_def\<close>)
next
  case (tokens_moved s l)
  then show ?case using board_ok_cong [of "s\<lparr>ledger := l\<rparr>" s] by (simp add: board_def)
qed

section \<open>What the board promises\<close>

text \<open>
  C11. In every reachable world the leaderboard is sorted by count, lists no worker twice and at most
  twenty, shows each worker's resolved count, and whoever is missing from it has resolved nothing, or
  it is full and nobody on it has resolved less.
\<close>

theorem leaderboard_exact:
  assumes "reachable E peers d s"
  shows "sorted_wrt (\<lambda>x y. snd y \<le> snd x) (get_leaderboard s) \<and> distinct (map fst (get_leaderboard s))
     \<and> length (get_leaderboard s) \<le> LEADERBOARD_CAP
     \<and> (\<forall>e\<in>set (get_leaderboard s). get_resolved_count (fst e) s = snd e)
     \<and> (\<forall>w. w \<in> fst ` set (get_leaderboard s) \<or> get_resolved_count w s = 0
          \<or> length (get_leaderboard s) = LEADERBOARD_CAP
            \<and> (\<forall>e\<in>set (get_leaderboard s). get_resolved_count w s \<le> snd e))"
proof -
  note b = reachable_board [OF assms]
  show ?thesis
    using board_okD(1) [OF b] board_okD(2-4) [OF b] unfolding leaderboard_ok_def
    by (intro conjI) (fastforce+)
qed

theorem leaderboard_exact_witness:
  "get_leaderboard settled_world = [(bob, 1), (carol, 1)]
     \<and> sorted_wrt (\<lambda>x y. snd y \<le> snd x) (get_leaderboard settled_world)
     \<and> get_resolved_count bob settled_world = 1"
proof -
  have b: "get_leaderboard settled_world = [(bob, 1), (carol, 1)]" by code_simp
  show ?thesis using leaderboard_exact [OF sample_settled] b by simp
qed

end
