(* ===== verification/Sim_Math.thy ===== *)
theory Sim_Math
  imports Prelude
begin

text \<open>
  The settlement arithmetic of the incentive simulation, \<open>sim/incentive/src/math.rs\<close>: the same
  formulas as the contract's \<open>resolve\<close> and \<open>slash\<close>, without storage and with the rates as
  parameters. The crate is built with overflow checks, so an operation on \<open>i128\<close> that does not fit
  traps. Functions that write through \<open>&mut\<close> return the new value.
\<close>

section \<open>Rates\<close>

definition sim_PLATFORM_FEE_BPS :: i128 where "sim_PLATFORM_FEE_BPS = 2000"
definition sim_SLASH_BPS :: i128 where "sim_SLASH_BPS = 500"
definition sim_SLASH_CAP_BPS_OF_AMOUNT :: i128 where "sim_SLASH_CAP_BPS_OF_AMOUNT = 10000"
definition sim_SLASH_REDISTRIBUTE_BPS :: i128 where "sim_SLASH_REDISTRIBUTE_BPS = 5000"
definition sim_BPS_DENOM :: i128 where "sim_BPS_DENOM = 10000"

record params =
  fee_bps :: i128
  slash_bps :: i128
  slash_cap_bps_of_amount :: i128

definition CONTRACT :: params where
  "CONTRACT = \<lparr>fee_bps = sim_PLATFORM_FEE_BPS, slash_bps = sim_SLASH_BPS,
     slash_cap_bps_of_amount = sim_SLASH_CAP_BPS_OF_AMOUNT\<rparr>"

definition sim_mul_bps :: "i128 \<Rightarrow> i128 \<Rightarrow> ('e, 's, i128) prog" where
  "sim_mul_bps value bps =
     and_then (chk ((value sdiv sim_BPS_DENOM) * bps)) (\<lambda>a.
     and_then (chk ((value smod sim_BPS_DENOM) * bps)) (\<lambda>b.
       chk (a + b sdiv sim_BPS_DENOM)))"

section \<open>Stakes\<close>

record sim_stake =
  sim_warming :: i128
  sim_settled :: i128
  sim_unbonding :: i128

definition settled_stake :: "i128 \<Rightarrow> sim_stake" where
  "settled_stake amount = \<lparr>sim_warming = 0, sim_settled = amount, sim_unbonding = 0\<rparr>"

definition slashable :: "sim_stake \<Rightarrow> ('e, 's, i128) prog" where
  "slashable info =
     and_then (chk (sim_settled info + sim_warming info)) (\<lambda>active. chk (active + sim_unbonding info))"

text \<open>One turn of the loop over the buckets, returning (\<open>*bucket\<close>, \<open>left\<close>).\<close>

definition take_bucket :: "i128 \<Rightarrow> i128 \<Rightarrow> ('e, 's, i128 \<times> i128) prog" where
  "take_bucket left bucket =
     (let taken = min left bucket in
      and_then (chk (bucket - taken)) (\<lambda>bucket'. and_then (chk (left - taken)) (\<lambda>left'. ret (bucket', left'))))"

definition sim_slash :: "sim_stake \<Rightarrow> i128 \<Rightarrow> i128 \<Rightarrow> ('e, 's, sim_stake \<times> i128) prog" where
  "sim_slash info bps cap =
     and_then (slashable info) (\<lambda>total_stake.
     if total_stake \<le> 0 then ret (info, 0)
     else and_then (sim_mul_bps total_stake bps) (\<lambda>rate.
       let amount = min (min rate cap) total_stake in
       if amount \<le> 0 then ret (info, 0)
       else and_then (take_bucket amount (sim_warming info)) (\<lambda>(w, left1).
            and_then (take_bucket left1 (sim_settled info)) (\<lambda>(st, left2).
            and_then (take_bucket left2 (sim_unbonding info)) (\<lambda>(ub, left3).
              ret (\<lparr>sim_warming = w, sim_settled = st, sim_unbonding = ub\<rparr>, amount))))))"

section \<open>Settlements\<close>

record settlement =
  fee :: i128
  share :: i128
  redistribution_share :: i128
  dust :: i128
  total_slashed :: i128
  slash_platform_take :: i128

definition settlement_platform_take :: "settlement \<Rightarrow> ('e, 's, i128) prog" where
  "settlement_platform_take st =
     and_then (chk (fee st + dust st)) (\<lambda>a. chk (a + slash_platform_take st))"

text \<open>One turn of the loop over the losers; \<open>acc\<close> is (stakes so far, redistribution, platform, total).\<close>

definition sim_slash_loser :: "i128 \<Rightarrow> i128 \<Rightarrow> i128 \<Rightarrow> sim_stake
    \<Rightarrow> sim_stake list \<times> i128 \<times> i128 \<times> i128 \<Rightarrow> ('e, 's, sim_stake list \<times> i128 \<times> i128 \<times> i128) prog" where
  "sim_slash_loser n bps cap loser acc =
     (case acc of (done, redist, platform, total_sl) \<Rightarrow>
        and_then (sim_slash loser bps cap) (\<lambda>(loser', slashed).
          if 0 < slashed then
            and_then (sim_mul_bps slashed sim_SLASH_REDISTRIBUTE_BPS) (\<lambda>worker_portion.
            and_then (chk (slashed - worker_portion)) (\<lambda>platform_portion.
            let redist_share = worker_portion sdiv n in
            and_then (chk (redist_share * n)) (\<lambda>shared.
            and_then (chk (worker_portion - shared)) (\<lambda>redist_dust.
            and_then (chk (redist + redist_share)) (\<lambda>redist'.
            and_then (chk (platform_portion + redist_dust)) (\<lambda>to_platform.
            and_then (chk (platform + to_platform)) (\<lambda>platform'.
            and_then (chk (total_sl + slashed)) (\<lambda>total'.
              ret (done @ [loser'], redist', platform', total')))))))))
          else ret (done @ [loser'], redist, platform, total_sl)))"

definition sim_resolve :: "i128 \<Rightarrow> u32 \<Rightarrow> sim_stake list \<Rightarrow> params
    \<Rightarrow> ('e, 's, settlement \<times> sim_stake list) prog" where
  "sim_resolve amount winners losers p =
     seq_do (trap_unless (0 < winners))
     (and_then (sim_mul_bps amount (fee_bps p)) (\<lambda>f.
      and_then (chk (amount - f)) (\<lambda>pool.
      let n = int winners; sh = pool sdiv n in
      and_then (chk (sh * n)) (\<lambda>shared.
      and_then (chk (pool - shared)) (\<lambda>du.
      and_then (sim_mul_bps amount (slash_cap_bps_of_amount p)) (\<lambda>cap.
      and_then (fold_prog (sim_slash_loser n (slash_bps p) cap) losers ([], 0, 0, 0))
        (\<lambda>(losers', redist, platform, total_sl).
          ret (\<lparr>fee = f, share = sh, redistribution_share = redist, dust = du, total_slashed = total_sl,
            slash_platform_take = platform\<rparr>, losers'))))))))"

end
