(* ===== verification/Sim_Rng.thy ===== *)
theory Sim_Rng
  imports Prelude "HOL-Library.Word"
begin

text \<open>
  The random numbers of the incentive simulation, \<open>sim/incentive/src/rng.rs\<close>: SplitMix64 on 64-bit
  words. A function that changes the generator returns its new state. The lemmas show that the output
  function is a bijection of the state, and from it how even the draws below a bound are.
\<close>

unbundle bit_operations_syntax

section \<open>The generator\<close>

datatype rng = Rng "64 word"

definition rng_new :: "64 word \<Rightarrow> rng" where
  "rng_new seed = Rng (seed XOR 0x9E3779B97F4A7C15)"

definition next_u64 :: "rng \<Rightarrow> 64 word \<times> rng" where
  "next_u64 r =
     (case r of Rng s \<Rightarrow>
      let s' = s + 0x9E3779B97F4A7C15;
          z = (s' XOR drop_bit 30 s') * 0xBF58476D1CE4E5B9;
          z' = (z XOR drop_bit 27 z) * 0x94D049BB133111EB
      in (z' XOR drop_bit 31 z', Rng s'))"

text \<open>The product of two \<open>u64\<close> fits a \<open>u128\<close>, so the checked multiplication never traps.\<close>

definition below :: "64 word \<Rightarrow> rng \<Rightarrow> 64 word \<times> rng" where
  "below n r =
     (case next_u64 r of (z, r') \<Rightarrow> (ucast (drop_bit 64 (ucast z * ucast n :: 128 word)), r'))"

definition chance_bps :: "32 word \<Rightarrow> rng \<Rightarrow> bool \<times> rng" where
  "chance_bps bps r = (case below 10000 r of (k, r') \<Rightarrow> (k < ucast bps, r'))"

section \<open>The output is a bijection of the state\<close>

lemma xorshift_inj:
  fixes z w :: "64 word"
  assumes "z XOR drop_bit k z = w XOR drop_bit k w" and "0 < k"
  shows "z = w"
proof -
  define d where "d = z XOR w"
  have "d = drop_bit k d"
  proof (rule bit_word_eqI)
    fix i
    have "bit (z XOR drop_bit k z) i = bit (w XOR drop_bit k w) i" using assms(1) by simp
    then show "bit d i = bit (drop_bit k d) i"
      by (auto simp: d_def bit_xor_iff bit_drop_bit_eq)
  qed
  then have "unat d = unat (drop_bit k d)" by (rule arg_cong)
  then have u: "unat d = unat d div 2 ^ k" by (simp only: unat_drop_bit_eq drop_bit_eq_div [of k "unat d"])
  have "(2::nat) \<le> 2 ^ k" using assms(2) by (cases k) simp_all
  then have "unat d div 2 ^ k < unat d" if "0 < unat d" using that by (intro div_less_dividend) simp_all
  then have "unat d = 0" using u by (cases "unat d = 0") simp_all
  then have "z XOR w = 0" by (simp only: d_def unat_eq_zero)
  then show ?thesis by (auto simp: bit_eq_iff bit_xor_iff)
qed

lemma mul_inj:
  fixes z w m m' :: "64 word"
  assumes "z * m = w * m" and "m * m' = 1"
  shows "z = w"
proof -
  have "z * (m * m') = w * (m * m')" using assms(1) by (simp add: mult.assoc [symmetric])
  then show ?thesis using assms(2) by simp
qed

lemma next_u64_inj: "fst (next_u64 (Rng s)) = fst (next_u64 (Rng t)) \<Longrightarrow> s = t"
proof -
  let ?a = "\<lambda>s :: 64 word. s + 0x9E3779B97F4A7C15"
  let ?b = "\<lambda>s. (?a s XOR drop_bit 30 (?a s)) * 0xBF58476D1CE4E5B9"
  let ?c = "\<lambda>s. (?b s XOR drop_bit 27 (?b s)) * 0x94D049BB133111EB"
  assume "fst (next_u64 (Rng s)) = fst (next_u64 (Rng t))"
  then have "?c s XOR drop_bit 31 (?c s) = ?c t XOR drop_bit 31 (?c t)"
    by (simp only: next_u64_def Let_def rng.case fst_conv)
  then have "?c s = ?c t" by (rule xorshift_inj) simp
  then have "?b s XOR drop_bit 27 (?b s) = ?b t XOR drop_bit 27 (?b t)"
    by (rule mul_inj [where m' = "0x319642B2D24D8EC3"]) simp
  then have "?b s = ?b t" by (rule xorshift_inj) simp
  then have "?a s XOR drop_bit 30 (?a s) = ?a t XOR drop_bit 30 (?a t)"
    by (rule mul_inj [where m' = "0x96DE1B173F119089"]) simp
  then have "?a s = ?a t" by (rule xorshift_inj) simp
  then show "s = t" by (simp only: add_right_cancel)
qed

lemma next_u64_bij: "bij (\<lambda>s. fst (next_u64 (Rng s)))"
  by (rule bijI, rule injI, erule next_u64_inj)
    (rule finite_UNIV_inj_surj, simp, rule injI, erule next_u64_inj)

section \<open>Draws below a bound\<close>

lemma below_value: "unat (fst (below n r)) = unat (fst (next_u64 r)) * unat n div 2 ^ 64"
proof -
  obtain z r' where z: "next_u64 r = (z, r')" by (cases "next_u64 r")
  have b: "unat z < 2 ^ 64" "unat n < 2 ^ 64" using unsigned_less [of z] unsigned_less [of n] by simp_all
  then have "unat z * unat n < 2 ^ 64 * 2 ^ 64" by (intro mult_strict_mono) simp_all
  then have prod: "unat (ucast z * ucast n :: 128 word) = unat z * unat n"
    using b by (simp add: unat_word_ariths unsigned_ucast_eq take_bit_eq_mod)
  have "unat z * unat n div 2 ^ 64 < 2 ^ 64"
    using \<open>unat z * unat n < 2 ^ 64 * 2 ^ 64\<close> by (intro less_mult_imp_div_less) simp
  moreover have "unat (drop_bit 64 (ucast z * ucast n :: 128 word)) = unat z * unat n div 2 ^ 64"
    by (simp only: unat_drop_bit_eq prod drop_bit_eq_div [of 64 "unat z * unat n"])
  ultimately have "unat (ucast (drop_bit 64 (ucast z * ucast n :: 128 word)) :: 64 word) = unat z * unat n div 2 ^ 64"
    by (simp only: unsigned_ucast_eq take_bit_nat_eq_self) (simp add: take_bit_nat_eq_self)
  then show ?thesis by (simp add: below_def z)
qed

lemma below_less:
  assumes "0 < n"
  shows "fst (below n r) < n"
proof -
  have "unat (fst (next_u64 r)) * unat n < 2 ^ 64 * unat n"
    using assms unsigned_less [of "fst (next_u64 r)"] by (simp add: word_less_nat_alt)
  then have "unat (fst (next_u64 r)) * unat n div 2 ^ 64 < unat n" by (simp add: less_mult_imp_div_less mult.commute)
  then show ?thesis by (simp add: word_less_nat_alt below_value)
qed

text \<open>How many of \<open>W\<close> values a multiply-shift sends to \<open>k\<close>: an interval between two ceilings.\<close>

lemma shift_range:
  fixes k m W x :: nat
  assumes "0 < m" and "0 < W"
  shows "x * m div W = k \<longleftrightarrow> (k * W + m - 1) div m \<le> x \<and> x < (k * W + m - 1 + W) div m"
proof -
  have ceil: "(y + m - 1) div m \<le> x \<longleftrightarrow> y \<le> x * m" for y x
  proof -
    have "(y + m - 1) div m \<le> x \<longleftrightarrow> y + m - 1 < (x + 1) * m"
      using assms(1) by (simp add: less_Suc_eq_le [symmetric] div_less_iff_less_mult del: less_Suc_eq_le)
    also have "\<dots> \<longleftrightarrow> y \<le> x * m" using assms(1) by (simp add: algebra_simps) linarith
    finally show ?thesis .
  qed
  have "x * m div W = k \<longleftrightarrow> k * W \<le> x * m \<and> x * m < k * W + W"
    using assms(2) div_nat_eqI [of W k "x * m"] by (auto simp: dividend_less_times_div algebra_simps)
  moreover have "k * W + m - 1 + W = (k * W + W) + m - 1" using assms(1) by simp
  ultimately show ?thesis
    using ceil [of "k * W" x] ceil [of "k * W + W" x] by (simp only: not_less [symmetric]) blast
qed

lemma shift_count:
  fixes k m W :: nat
  assumes "0 < m" and "0 < W"
  shows "card {x. x * m div W = k} \<in> {W div m, W div m + 1}"
proof -
  define a where "a = k * W + m - 1"
  have "{x. x * m div W = k} = {a div m..<(a + W) div m}" using shift_range [OF assms] by (auto simp: a_def)
  then have "card {x. x * m div W = k} = (a + W) div m - a div m" by simp
  moreover have "(a + W) div m = a div m + W div m + (a mod m + W mod m) div m" by (rule div_add1_eq)
  moreover have "(a mod m + W mod m) div m < 2"
  proof (rule less_mult_imp_div_less)
    show "a mod m + W mod m < 2 * m"
      using mod_less_divisor [OF assms(1), of a] mod_less_divisor [OF assms(1), of W] by linarith
  qed
  ultimately show ?thesis by (simp only: insert_iff) linarith
qed

text \<open>
  C40. Draws below a bound are in range and as even as they can be: over all states of the generator,
  each \<open>k < n\<close> comes out for \<open>2 ^ 64 div n\<close> of them or one more, since the output function is a
  bijection of the state and the multiply-shift adds at most one value to a bucket.
\<close>

theorem below_even:
  assumes "0 < n" and "k < n"
  shows "fst (below n r) < n
     \<and> card {s. fst (below n (Rng s)) = k} \<in> {2 ^ 64 div unat n, 2 ^ 64 div unat n + 1}"
proof
  show "fst (below n r) < n" by (rule below_less [OF assms(1)])
  have m: "0 < unat n" "unat k < unat n" using assms by (simp_all add: word_less_nat_alt)
  let ?f = "\<lambda>s. fst (next_u64 (Rng s))"
  let ?X = "{x :: nat. x * unat n div 2 ^ 64 = unat k}"
  have small: "x < 2 ^ 64" if "x \<in> ?X" for x
  proof (rule ccontr)
    assume "\<not> x < 2 ^ 64"
    then have "2 ^ 64 * unat n div 2 ^ 64 \<le> x * unat n div 2 ^ 64" by (intro div_le_mono mult_right_mono) simp_all
    then show False using that m by simp
  qed
  have "{s. fst (below n (Rng s)) = k} = (\<lambda>s. unat (?f s)) -` ?X"
    by (auto simp: word_unat_eq_iff below_value)
  moreover have "card ((\<lambda>s. unat (?f s)) -` ?X) = card ?X"
  proof (rule card_vimage_inj)
    show "inj (\<lambda>s. unat (?f s))" by (rule injI, rule next_u64_inj, rule unsigned_word_eqI)
    show "?X \<subseteq> range (\<lambda>s. unat (?f s))"
    proof
      fix x assume "x \<in> ?X"
      then have "unat (of_nat x :: 64 word) = x" using small by (simp add: unat_of_nat take_bit_eq_mod)
      moreover obtain s where "of_nat x = ?f s" using surjD [OF bij_is_surj [OF next_u64_bij]] by blast
      ultimately show "x \<in> range (\<lambda>s. unat (?f s))" by auto
    qed
  qed
  ultimately show "card {s. fst (below n (Rng s)) = k} \<in> {2 ^ 64 div unat n, 2 ^ 64 div unat n + 1}"
    using shift_count [OF m(1), of "2 ^ 64" "unat k"] by simp
qed

theorem below_even_witness:
  "fst (below 10000 (rng_new 1)) < 10000
     \<and> card {s. fst (below 10000 (Rng s)) = 7} \<in> {1844674407370955, 1844674407370956}"
  using below_even [of 10000 7 "rng_new 1"] by simp

section \<open>Chances\<close>

lemma chance_never [simp]: "fst (chance_bps 0 r) = False"
  by (simp add: chance_bps_def split: prod.split)

lemma chance_always: "10000 \<le> bps \<Longrightarrow> fst (chance_bps bps r)"
proof -
  assume "10000 \<le> bps"
  then have "(10000 :: 64 word) \<le> ucast bps" using unsigned_less [of bps, where ?'a = nat]
    by (simp add: word_le_nat_alt unsigned_ucast_eq take_bit_nat_eq_self)
  then show ?thesis using below_less [of 10000 r] by (auto simp: chance_bps_def split: prod.split)
qed

end
