(* ===== verification/Sim_Model.thy ===== *)
theory Sim_Model
  imports Sim_Math Sim_Rng
begin

text \<open>
  The agents of the incentive simulation, \<open>sim/incentive/src/model.rs\<close>: one run draws seats, votes,
  settles every question through \<open>math.rs\<close>, keeps the agents' profits and counts what happened. Money is
  in checked \<open>i128\<close>, as in the source. The floating-point numbers only steer behaviour; their arithmetic
  is a parameter (record \<open>floats\<close>). The locals of \<open>run\<close>'s loops are fields of the state.
\<close>

section \<open>Configuration\<close>

datatype strategy = Honest_Play | Opportunistic | Adaptive

record config =
  c_params :: params
  c_quorum :: u32
  c_honest_workers :: u32
  c_cartel_workers :: u32
  c_rounds :: u32
  c_questions_per_round :: u32
  c_amount :: i128
  c_honest_stake :: i128
  c_cartel_stake :: i128
  c_honest_error_bps :: u32
  c_answer_cost :: i128
  c_bribe :: i128
  c_audit_bps :: u32
  c_sybil_cost :: i128
  c_strategy :: strategy
  c_retention_window :: u32
  c_entry_bps :: u32
  c_payer_sensitivity_bps :: u32
  c_seed :: u64

definition USDC :: i128 where "USDC = 10000000"

definition default_config :: config where
  "default_config = \<lparr>c_params = CONTRACT, c_quorum = 5, c_honest_workers = 80, c_cartel_workers = 20,
     c_rounds = 200, c_questions_per_round = 50, c_amount = USDC sdiv 4, c_honest_stake = 10 * USDC,
     c_cartel_stake = 10 * USDC, c_honest_error_bps = 500, c_answer_cost = USDC sdiv 50,
     c_bribe = USDC sdiv 2, c_audit_bps = 500, c_sybil_cost = USDC, c_strategy = Adaptive,
     c_retention_window = 20, c_entry_bps = 2000, c_payer_sensitivity_bps = 30000, c_seed = 1\<rparr>"

section \<open>State\<close>

text \<open>\<open>f_dec n k\<close> is the literal \<open>n / 10 ^ k\<close>, \<open>f_to_u32\<close> the rounding cast.\<close>

record 'f floats =
  f_dec :: "int \<Rightarrow> nat \<Rightarrow> 'f"
  f_of_int :: "int \<Rightarrow> 'f"
  f_add :: "'f \<Rightarrow> 'f \<Rightarrow> 'f"
  f_sub :: "'f \<Rightarrow> 'f \<Rightarrow> 'f"
  f_mul :: "'f \<Rightarrow> 'f \<Rightarrow> 'f"
  f_div :: "'f \<Rightarrow> 'f \<Rightarrow> 'f"
  f_max :: "'f \<Rightarrow> 'f \<Rightarrow> 'f"
  f_less :: "'f \<Rightarrow> 'f \<Rightarrow> bool"
  f_to_u32 :: "'f \<Rightarrow> u32"

datatype kind = Honest | Cartel

record worker =
  w_kind :: kind
  w_stake :: sim_stake
  w_target_stake :: i128
  w_cost :: i128
  w_active :: bool
  w_original :: bool
  w_window_pnl :: i128
  w_window_n :: u32

record 'f learner =
  l_attack :: 'f
  l_honest :: 'f

record outcomes =
  demanded :: u64
  resolved :: u64
  refunded :: u64
  unserved :: u64
  wrong :: u64
  attacks :: u64
  caught :: u64
  honest_start :: u32
  honest_retained :: u32
  honest_final :: u32
  honest_earned :: i128
  honest_slashed :: i128
  honest_pnl :: i128
  cartel_pnl :: i128
  cartel_bans :: u32
  platform_by_round :: "i128 list"
  final_demand :: u32

definition no_outcomes :: outcomes where
  "no_outcomes = \<lparr>demanded = 0, resolved = 0, refunded = 0, unserved = 0, wrong = 0, attacks = 0,
     caught = 0, honest_start = 0, honest_retained = 0, honest_final = 0, honest_earned = 0,
     honest_slashed = 0, honest_pnl = 0, cartel_pnl = 0, cartel_bans = 0, platform_by_round = [],
     final_demand = 0\<rparr>"

record 'f sim =
  s_rng :: rng
  s_workers :: "worker list"
  s_out :: outcomes
  s_learner :: "'f learner"
  s_wrong_ema :: 'f
  s_platform :: i128
  s_round_resolved :: u32
  s_round_wrong :: u32
  s_honest_margin :: i128

type_synonym ('f, 'a) step = "(unit, 'f sim, 'a) prog"

definition chk_u64 :: "nat \<Rightarrow> ('e, 's, u64) prog" where
  "chk_u64 n = (if n < 2 ^ 64 then ret n else trap)"

text \<open>The cast \<open>as u32\<close>.\<close>

definition as_u32 :: "nat \<Rightarrow> u32" where
  "as_u32 n = n mod 2 ^ 32"

definition draw :: "64 word \<Rightarrow> ('f, nat) step" where
  "draw n = and_then (gets s_rng) (\<lambda>r. case below n r of (k, r') \<Rightarrow>
     seq_do (modify (\<lambda>s. s\<lparr>s_rng := r'\<rparr>)) (ret (unat k)))"

definition toss :: "u32 \<Rightarrow> ('f, bool) step" where
  "toss bps = and_then (gets s_rng) (\<lambda>r. case chance_bps (of_nat bps) r of (b, r') \<Rightarrow>
     seq_do (modify (\<lambda>s. s\<lparr>s_rng := r'\<rparr>)) (ret b))"

definition set_out :: "(outcomes \<Rightarrow> outcomes) \<Rightarrow> ('f, unit) step" where
  "set_out f = modify (\<lambda>s. s\<lparr>s_out := f (s_out s)\<rparr>)"

section \<open>Workers\<close>

definition honest_worker :: "config \<Rightarrow> bool \<Rightarrow> ('f, worker) step" where
  "honest_worker cfg original =
     (let lo = c_answer_cost cfg sdiv 2 in
      and_then (draw (word_of_int (max (c_answer_cost cfg) 1))) (\<lambda>k.
      and_then (chk (lo + int k)) (\<lambda>cost.
        ret \<lparr>w_kind = Honest, w_stake = settled_stake (c_honest_stake cfg),
          w_target_stake = c_honest_stake cfg, w_cost = cost, w_active = True, w_original = original,
          w_window_pnl = 0, w_window_n = 0\<rparr>)))"

definition cartel_worker :: "config \<Rightarrow> worker" where
  "cartel_worker cfg = \<lparr>w_kind = Cartel, w_stake = settled_stake (c_cartel_stake cfg),
     w_target_stake = c_cartel_stake cfg, w_cost = c_answer_cost cfg, w_active = True, w_original = True,
     w_window_pnl = 0, w_window_n = 0\<rparr>"

definition push_worker :: "worker \<Rightarrow> ('f, unit) step" where
  "push_worker w = modify (\<lambda>s. s\<lparr>s_workers := s_workers s @ [w]\<rparr>)"

section \<open>The cartel's learner\<close>

definition EXPLORE_BPS :: u32 where "EXPLORE_BPS = 500"

definition decide :: "'f floats \<Rightarrow> strategy \<Rightarrow> ('f, bool) step" where
  "decide F st = (case st of
     Honest_Play \<Rightarrow> ret False
   | Opportunistic \<Rightarrow> ret True
   | Adaptive \<Rightarrow> and_then (gets s_learner) (\<lambda>l.
       if f_less F (l_honest l) (l_attack l) then ret True else toss EXPLORE_BPS))"

definition ema :: "'f floats \<Rightarrow> 'f \<Rightarrow> 'f \<Rightarrow> 'f" where
  "ema F per_seat old =
     (let ALPHA = f_dec F 1 1 in
      f_add F (f_mul F (f_sub F (f_dec F 10 1) ALPHA) old) (f_mul F ALPHA per_seat))"

definition learn :: "'f floats \<Rightarrow> bool \<Rightarrow> 'f \<Rightarrow> ('f, unit) step" where
  "learn F attacked per_seat = modify (\<lambda>s. s\<lparr>s_learner :=
     (if attacked then (s_learner s)\<lparr>l_attack := ema F per_seat (l_attack (s_learner s))\<rparr>
      else (s_learner s)\<lparr>l_honest := ema F per_seat (l_honest (s_learner s))\<rparr>)\<rparr>)"

definition demand :: "'f floats \<Rightarrow> config \<Rightarrow> 'f \<Rightarrow> u32" where
  "demand F cfg wrong_ema =
     (let loss = f_mul F (f_div F (f_of_int F (int (c_payer_sensitivity_bps cfg))) (f_dec F 10000 0)) wrong_ema
      in f_to_u32 F (f_mul F (f_of_int F (int (c_questions_per_round cfg)))
           (f_max F (f_sub F (f_dec F 10 1) loss) (f_dec F 0 1))))"

section \<open>Seats and votes\<close>

definition swap :: "'a list \<Rightarrow> nat \<Rightarrow> nat \<Rightarrow> 'a list" where
  "swap xs i j = xs[i := xs ! j, j := xs ! i]"

definition active_workers :: "'f sim \<Rightarrow> nat list" where
  "active_workers s = filter (\<lambda>i. w_active (s_workers s ! i)) [0..<length (s_workers s)]"

definition draw_seat :: "nat \<Rightarrow> nat list \<Rightarrow> ('f, nat list) step" where
  "draw_seat i active =
     and_then (draw (of_nat (length active - i))) (\<lambda>k.
       seq_do (trap_unless (i + k < length active)) (ret (swap active i (i + k))))"

definition draw_seats :: "nat \<Rightarrow> nat list \<Rightarrow> ('f, nat list) step" where
  "draw_seats q active = and_then (fold_prog draw_seat [0..<q] active) (\<lambda>a. ret (take q a))"

definition is_cartel :: "'f sim \<Rightarrow> nat \<Rightarrow> bool" where
  "is_cartel s i \<longleftrightarrow> w_kind (s_workers s ! i) = Cartel"

definition cast_vote :: "config \<Rightarrow> bool \<Rightarrow> nat \<Rightarrow> bool list \<Rightarrow> ('f, bool list) step" where
  "cast_vote cfg attack i votes =
     and_then (gets (\<lambda>s. is_cartel s i)) (\<lambda>c.
     and_then (if attack \<and> c then ret False
               else and_then (toss (c_honest_error_bps cfg)) (\<lambda>e. ret (\<not> e))) (\<lambda>v.
       ret (votes @ [v])))"

record verdict =
  v_audited :: bool
  v_winners_correct :: bool
  v_winner_count :: u32
  v_refund :: bool

definition judge :: "config \<Rightarrow> bool list \<Rightarrow> ('f, verdict) step" where
  "judge cfg votes =
     (let correct = as_u32 (length (filter id votes)) in
      seq_do (trap_unless (correct \<le> c_quorum cfg))
      (let wrong_votes = c_quorum cfg - correct; majority_correct = wrong_votes < correct in
       and_then (if correct \<noteq> wrong_votes \<and> \<not> majority_correct then toss (c_audit_bps cfg) else ret False)
         (\<lambda>audited.
          let winners_correct = majority_correct \<or> audited;
              winner_count = (if winners_correct then correct else wrong_votes)
          in ret \<lparr>v_audited = audited, v_winners_correct = winners_correct, v_winner_count = winner_count,
               v_refund = (correct = wrong_votes \<or> winner_count = 0)\<rparr>)))"

section \<open>One question's settlement\<close>

definition no_settlement :: settlement where
  "no_settlement = \<lparr>fee = 0, share = 0, redistribution_share = 0, dust = 0, total_slashed = 0,
     slash_platform_take = 0\<rparr>"

text \<open>The stakes of the seats that voted against the winners, in the order of the seats.\<close>

definition loser_stakes :: "worker list \<Rightarrow> verdict \<Rightarrow> (nat \<times> bool) list \<Rightarrow> sim_stake list" where
  "loser_stakes ws v ballots =
     map (\<lambda>(i, vote). w_stake (ws ! i)) (filter (\<lambda>(i, vote). vote \<noteq> v_winners_correct v) ballots)"

definition settle_verdict :: "config \<Rightarrow> verdict \<Rightarrow> (nat \<times> bool) list \<Rightarrow> ('f, settlement \<times> sim_stake list) step" where
  "settle_verdict cfg v ballots =
     (if v_refund v then
        and_then (gets (\<lambda>s. refunded (s_out s))) (\<lambda>n. and_then (chk_u64 (n + 1)) (\<lambda>n'.
          seq_do (set_out (\<lambda>r. r\<lparr>refunded := n'\<rparr>)) (ret (no_settlement, []))))
      else
        and_then (gets (\<lambda>s. loser_stakes (s_workers s) v ballots)) (\<lambda>losers.
        and_then (sim_resolve (c_amount cfg) (v_winner_count v) losers (c_params cfg)) (\<lambda>(st, losers').
        and_then (settlement_platform_take st) (\<lambda>platform_take.
        and_then (gets s_platform) (\<lambda>p. and_then (chk (p + platform_take)) (\<lambda>p'.
        and_then (gets (\<lambda>s. resolved (s_out s))) (\<lambda>n. and_then (chk_u64 (n + 1)) (\<lambda>n'.
        and_then (gets s_round_resolved) (\<lambda>m. and_then (chk_u32 (m + 1)) (\<lambda>m'.
        seq_do (block [
          modify (\<lambda>s. s\<lparr>s_platform := p'\<rparr>),
          set_out (\<lambda>r. r\<lparr>resolved := n'\<rparr>),
          modify (\<lambda>s. s\<lparr>s_round_resolved := m'\<rparr>),
          (if v_winners_correct v then ret () else
             and_then (gets (\<lambda>s. wrong (s_out s))) (\<lambda>x. and_then (chk_u64 (x + 1)) (\<lambda>x'.
             and_then (gets s_round_wrong) (\<lambda>y. and_then (chk_u32 (y + 1)) (\<lambda>y'. block [
               set_out (\<lambda>r. r\<lparr>wrong := x'\<rparr>),
               modify (\<lambda>s. s\<lparr>s_round_wrong := y'\<rparr>)])))))])
        (ret (st, losers'))))))))))))"

text \<open>
  What a seat earns or loses: the worker with its stake slashed and topped up again, \<open>earned\<close>,
  \<open>taken\<close> and the next index into the losers.
\<close>

definition seat_result :: "verdict \<Rightarrow> settlement \<Rightarrow> sim_stake list \<Rightarrow> bool \<Rightarrow> nat \<Rightarrow> worker
    \<Rightarrow> ('f, worker \<times> i128 \<times> i128 \<times> nat) step" where
  "seat_result v st losers vote li w =
     (if v_refund v then ret (w, 0, 0, li)
      else if vote = v_winners_correct v then
        and_then (chk (share st + redistribution_share st)) (\<lambda>earned. ret (w, earned, 0, li))
      else
        seq_do (trap_unless (li < length losers))
        (let left = losers ! li in
         and_then (slashable (w_stake w)) (\<lambda>had.
         and_then (slashable left) (\<lambda>has.
         and_then (chk (had - has)) (\<lambda>taken.
         and_then (chk (w_target_stake w - has)) (\<lambda>short.
         and_then (if 0 < short then and_then (chk (sim_settled left + short)) (\<lambda>x. ret (left\<lparr>sim_settled := x\<rparr>))
                   else ret left) (\<lambda>topped.
           ret (w\<lparr>w_stake := topped\<rparr>, 0, taken, li + 1))))))))"

definition book_honest :: "config \<Rightarrow> worker \<Rightarrow> i128 \<Rightarrow> i128 \<Rightarrow> i128 \<Rightarrow> ('f, worker) step" where
  "book_honest cfg w pnl earned taken =
     and_then (gets s_out) (\<lambda>r.
     and_then (chk (honest_earned r + earned)) (\<lambda>e.
     and_then (chk (honest_slashed r + taken)) (\<lambda>sl.
     and_then (chk (honest_pnl r + pnl)) (\<lambda>p.
     and_then (gets s_honest_margin) (\<lambda>m. and_then (chk (m + pnl)) (\<lambda>m'.
     and_then (chk (w_window_pnl w + pnl)) (\<lambda>wp.
     and_then (chk_u32 (w_window_n w + 1)) (\<lambda>wn.
     seq_do (block [
       set_out (\<lambda>r. r\<lparr>honest_earned := e, honest_slashed := sl, honest_pnl := p\<rparr>),
       modify (\<lambda>s. s\<lparr>s_honest_margin := m'\<rparr>)])
     (ret (if c_retention_window cfg \<le> wn
           then w\<lparr>w_active := w_active w \<and> \<not> wp < 0, w_window_pnl := 0, w_window_n := 0\<rparr>
           else w\<lparr>w_window_pnl := wp, w_window_n := wn\<rparr>))))))))))"

text \<open>\<open>acc\<close> is (\<open>cartel_q_pnl\<close>, \<open>bans\<close>).\<close>

definition book_cartel :: "config \<Rightarrow> i128 \<Rightarrow> bool \<Rightarrow> worker \<Rightarrow> i128 \<Rightarrow> i128 \<times> u32
    \<Rightarrow> ('f, worker \<times> i128 \<times> u32) step" where
  "book_cartel cfg bribe_each banned w pnl acc =
     (case acc of (q_pnl, bans) \<Rightarrow>
      and_then (chk (pnl + bribe_each)) (\<lambda>p.
      if banned then
        and_then (chk_u32 (bans + 1)) (\<lambda>bans'.
        and_then (chk (p - c_sybil_cost cfg)) (\<lambda>p'.
        and_then (chk (q_pnl + p')) (\<lambda>q'. ret (w\<lparr>w_active := False\<rparr>, q', bans'))))
      else and_then (chk (q_pnl + p)) (\<lambda>q'. ret (w, q', bans))))"

definition settle_seat :: "config \<Rightarrow> bool \<Rightarrow> verdict \<Rightarrow> settlement \<Rightarrow> sim_stake list \<Rightarrow> i128 \<Rightarrow> nat \<times> bool
    \<Rightarrow> i128 \<times> u32 \<times> nat \<Rightarrow> ('f, i128 \<times> u32 \<times> nat) step" where
  "settle_seat cfg attack v st losers bribe_each ballot acc =
     (case ballot of (i, vote) \<Rightarrow> case acc of (q_pnl, bans, li) \<Rightarrow>
      and_then (gets (\<lambda>s. s_workers s ! i)) (\<lambda>w.
      let lied = attack \<and> w_kind w = Cartel in
      and_then (if lied then ret 0 else chk (- w_cost w)) (\<lambda>pnl0.
      and_then (seat_result v st losers vote li w) (\<lambda>(w1, earned, taken, li').
      and_then (chk (earned - taken)) (\<lambda>net.
      and_then (chk (pnl0 + net)) (\<lambda>pnl.
      and_then
        (case w_kind w1 of
           Honest \<Rightarrow> and_then (book_honest cfg w1 pnl earned taken) (\<lambda>w2. ret (w2, q_pnl, bans))
         | Cartel \<Rightarrow> book_cartel cfg bribe_each (lied \<and> v_audited v) w1 pnl (q_pnl, bans))
        (\<lambda>(w2, q_pnl', bans').
      seq_do (modify (\<lambda>s. s\<lparr>s_workers := (s_workers s)[i := w2]\<rparr>)) (ret (q_pnl', bans', li')))))))))"

section \<open>One question\<close>

definition count_if :: "bool \<Rightarrow> (outcomes \<Rightarrow> u64) \<Rightarrow> (u64 \<Rightarrow> outcomes \<Rightarrow> outcomes) \<Rightarrow> ('f, unit) step" where
  "count_if b get put =
     (if b then and_then (gets (\<lambda>s. get (s_out s))) (\<lambda>n. and_then (chk_u64 (n + 1)) (\<lambda>n'. set_out (put n')))
      else ret ())"

definition ask_seated :: "'f floats \<Rightarrow> config \<Rightarrow> nat list \<Rightarrow> ('f, unit) step" where
  "ask_seated F cfg seats =
     and_then (gets (\<lambda>s. as_u32 (length (filter (is_cartel s) seats)))) (\<lambda>k.
     let decided = c_quorum cfg div 2 + 1 \<le> k in
     and_then (if decided then decide F (c_strategy cfg) else ret False) (\<lambda>attack.
     seq_do (count_if attack attacks (\<lambda>n r. r\<lparr>attacks := n\<rparr>))
     (and_then (fold_prog (cast_vote cfg attack) seats []) (\<lambda>votes.
      and_then (judge cfg votes) (\<lambda>v.
      seq_do (count_if (v_audited v \<and> attack) caught (\<lambda>n r. r\<lparr>caught := n\<rparr>))
      (and_then (settle_verdict cfg v (zip seats votes)) (\<lambda>(st, losers).
       let bribe_each = (if attack \<and> \<not> v_refund v \<and> \<not> v_winners_correct v
                         then c_bribe cfg sdiv int k else 0) in
       and_then (fold_prog (settle_seat cfg attack v st losers bribe_each) (zip seats votes) (0, 0, 0))
         (\<lambda>(q_pnl, bans, li).
       seq_do (for_each [0..<bans] (\<lambda>_. push_worker (cartel_worker cfg)))
       (and_then (gets s_out) (\<lambda>r.
        and_then (chk_u32 (cartel_bans r + bans)) (\<lambda>b.
        and_then (chk (cartel_pnl r + q_pnl)) (\<lambda>p. block [
          set_out (\<lambda>r. r\<lparr>cartel_bans := b, cartel_pnl := p\<rparr>),
          (if decided then learn F attack (f_div F (f_of_int F q_pnl) (f_of_int F (int k)))
           else ret ())]))))))))))))"

definition ask_question :: "'f floats \<Rightarrow> config \<Rightarrow> ('f, unit) step" where
  "ask_question F cfg =
     and_then (gets active_workers) (\<lambda>active.
       if length active < c_quorum cfg then count_if True unserved (\<lambda>n r. r\<lparr>unserved := n\<rparr>)
       else and_then (draw_seats (c_quorum cfg) active) (ask_seated F cfg))"

section \<open>Rounds\<close>

definition count_active :: "(worker \<Rightarrow> bool) \<Rightarrow> 'f sim \<Rightarrow> u32" where
  "count_active P s = as_u32 (length (filter (\<lambda>w. w_kind w = Honest \<and> P w \<and> w_active w) (s_workers s)))"

definition end_round :: "'f floats \<Rightarrow> config \<Rightarrow> ('f, unit) step" where
  "end_round F cfg = block [
     modify (\<lambda>s. s\<lparr>s_out := (s_out s)\<lparr>platform_by_round := platform_by_round (s_out s) @ [s_platform s]\<rparr>\<rparr>),
     and_then (gets (\<lambda>s. 0 < s_round_resolved s)) (\<lambda>any.
       if any then modify (\<lambda>s. s\<lparr>s_wrong_ema :=
         (let rate = f_div F (f_of_int F (int (s_round_wrong s))) (f_of_int F (int (s_round_resolved s)))
          in f_add F (f_mul F (f_dec F 8 1) (s_wrong_ema s)) (f_mul F (f_dec F 2 1) rate))\<rparr>)
       else ret ()),
     and_then (gets (count_active (\<lambda>_. True))) (\<lambda>honest_active.
     and_then (gets s_honest_margin) (\<lambda>margin.
     and_then
       (if 0 < margin then
          and_then (chk_u32 (2 * c_honest_workers cfg)) (\<lambda>cap.
            if honest_active < cap then toss (c_entry_bps cfg) else ret False)
        else ret False) (\<lambda>joins.
       if joins then and_then (honest_worker cfg False) push_worker else ret ())))]"

definition play_round :: "'f floats \<Rightarrow> config \<Rightarrow> ('f, unit) step" where
  "play_round F cfg =
     and_then (gets (\<lambda>s. demand F cfg (s_wrong_ema s))) (\<lambda>want.
     and_then (gets (\<lambda>s. demanded (s_out s))) (\<lambda>n. and_then (chk_u64 (n + want)) (\<lambda>n'. block [
       set_out (\<lambda>r. r\<lparr>demanded := n', final_demand := want\<rparr>),
       modify (\<lambda>s. s\<lparr>s_platform := 0, s_round_resolved := 0, s_round_wrong := 0, s_honest_margin := 0\<rparr>),
       for_each [0..<want] (\<lambda>_. ask_question F cfg),
       end_round F cfg])))"

definition start :: "'f floats \<Rightarrow> config \<Rightarrow> 'f sim" where
  "start F cfg = \<lparr>s_rng = rng_new (of_nat (c_seed cfg)), s_workers = [],
     s_out = no_outcomes\<lparr>honest_start := c_honest_workers cfg\<rparr>,
     s_learner = \<lparr>l_attack = f_of_int F (c_bribe cfg sdiv int (c_quorum cfg div 2 + 1)), l_honest = f_dec F 0 1\<rparr>,
     s_wrong_ema = f_dec F 0 1, s_platform = 0, s_round_resolved = 0, s_round_wrong = 0, s_honest_margin = 0\<rparr>"

definition run_rounds :: "'f floats \<Rightarrow> config \<Rightarrow> ('f, unit) step" where
  "run_rounds F cfg = block [
     trap_unless (0 < c_quorum cfg),
     for_each [0..<c_honest_workers cfg] (\<lambda>_. and_then (honest_worker cfg True) push_worker),
     for_each [0..<c_cartel_workers cfg] (\<lambda>_. push_worker (cartel_worker cfg)),
     for_each [0..<c_rounds cfg] (\<lambda>_. play_round F cfg),
     modify (\<lambda>s. s\<lparr>s_out := (s_out s)\<lparr>honest_retained := count_active w_original s,
       honest_final := count_active (\<lambda>_. True) s\<rparr>\<rparr>)]"

text \<open>The whole simulation; \<open>None\<close> is a panic.\<close>

definition run :: "'f floats \<Rightarrow> config \<Rightarrow> outcomes option" where
  "run F cfg = (case run_rounds F cfg (start F cfg) of Ok u s \<Rightarrow> Some (s_out s) | _ \<Rightarrow> None)"

section \<open>Reported statistics\<close>

record 'f stat_floats = "'f floats" +
  f_sum :: "'f list \<Rightarrow> 'f"
  f_powi :: "'f \<Rightarrow> int \<Rightarrow> 'f"
  f_sqrt :: "'f \<Rightarrow> 'f"
  f_eq :: "'f \<Rightarrow> 'f \<Rightarrow> bool"

definition round_count :: "'f stat_floats \<Rightarrow> outcomes \<Rightarrow> 'f" where
  "round_count F r = f_of_int F (int (max (length (platform_by_round r)) 1))"

definition platform_mean :: "'f stat_floats \<Rightarrow> outcomes \<Rightarrow> 'f" where
  "platform_mean F r = f_div F (f_sum F (map (f_of_int F) (platform_by_round r))) (round_count F r)"

definition platform_cv :: "'f stat_floats \<Rightarrow> outcomes \<Rightarrow> 'f" where
  "platform_cv F r =
     (let m = platform_mean F r in
      if f_eq F m (f_dec F 0 1) then f_dec F 0 1
      else let var = f_div F (f_sum F (map (\<lambda>x. f_powi F (f_sub F (f_of_int F x) m) 2) (platform_by_round r)))
                       (round_count F r)
           in f_div F (f_sqrt F var) m)"

end
