(* ===== verification/Agent_Rules.thy ===== *)
theory Agent_Rules
  imports Sim_Model "HOL-Library.Multiset" "HOL-Library.Code_Target_Numeral"
begin

text \<open>
  What a run of the simulation guarantees, whatever its random numbers and its floating-point
  arithmetic: seats are distinct active workers, every worker stays bonded at its target, each question
  is counted once and its money adds up, and a cartel that plays honestly never attacks.
\<close>

section \<open>Steps that only draw random numbers\<close>

definition apart :: "'f sim \<Rightarrow> 'f sim \<Rightarrow> bool" where
  "apart s u \<longleftrightarrow> (\<exists>r. u = s\<lparr>s_rng := r\<rparr>)"

lemma apart_refl [simp]: "apart s s"
  unfolding apart_def by (rule exI [of _ "s_rng s"]) simp

lemma apart_trans: "apart s t \<Longrightarrow> apart t u \<Longrightarrow> apart s u"
  by (auto simp: apart_def)

lemma apartD:
  assumes "apart s u"
  shows "s_workers u = s_workers s" "s_out u = s_out s" "s_learner u = s_learner s" "s_wrong_ema u = s_wrong_ema s"
    "s_platform u = s_platform s" "s_round_resolved u = s_round_resolved s" "s_round_wrong u = s_round_wrong s"
    "s_honest_margin u = s_honest_margin s"
  using assms by (auto simp: apart_def)

lemma wp_draw: "(\<And>k u. apart s u \<Longrightarrow> Q k u) \<Longrightarrow> wp (draw n) Q s"
  by (auto simp: draw_def wp_simps apart_def split: prod.split)

lemma wp_toss: "(\<And>b u. apart s u \<Longrightarrow> Q b u) \<Longrightarrow> wp (toss n) Q s"
  by (auto simp: toss_def wp_simps apart_def split: prod.split)

section \<open>Seats\<close>

lemma mset_swap: "i < length xs \<Longrightarrow> j < length xs \<Longrightarrow> mset (swap xs i j) = mset xs"
  by (simp add: swap_def mset_update nth_list_update)

lemma draw_seats_effect:
  "wp (draw_seats q active) (\<lambda>seats u. apart s u \<and> (\<exists>perm. mset perm = mset active \<and> seats = take q perm)) s"
proof -
  have "wp (fold_prog draw_seat is active) (\<lambda>a u. apart s u \<and> mset a = mset active) s" for "is"
  proof (rule wp_fold_prog_list [where I = "\<lambda>_ a u. apart s u \<and> mset a = mset active"])
    fix i "is" a u
    assume h: "apart s u \<and> mset a = mset active"
    show "wp (draw_seat i a) (\<lambda>a u. apart s u \<and> mset a = mset active) u"
      unfolding draw_seat_def wp_and_then
      by (rule wp_draw) (use h in \<open>auto simp: wp_simps mset_swap intro: apart_trans\<close>)
  qed simp
  then show ?thesis
    unfolding draw_seats_def wp_and_then by (rule wp_conseq) (auto simp: wp_ret)
qed

lemma seats_fair:
  assumes "mset perm = mset (active_workers s)"
  shows "distinct (take q perm)" and "set (take q perm) \<subseteq> set (active_workers s)"
    and "q \<le> length (active_workers s) \<Longrightarrow> length (take q perm) = q"
proof -
  have "distinct (active_workers s)" by (simp add: active_workers_def)
  then have "distinct perm" unfolding distinct_count_atmost_1 assms mset_eq_setD [OF assms] .
  then show "distinct (take q perm)" by (rule distinct_take)
  show "set (take q perm) \<subseteq> set (active_workers s)" using set_take_subset [of q perm] unfolding mset_eq_setD [OF assms] .
  show "length (take q perm) = q" if "q \<le> length (active_workers s)"
    using that mset_eq_length [OF assms] by simp
qed

section \<open>Votes and the verdict\<close>

lemma votes_effect:
  "wp (fold_prog (cast_vote cfg attack) seats vs) (\<lambda>votes u. apart s u \<and> length votes = length vs + length seats) s"
proof (induction seats arbitrary: vs s)
  case (Cons i seats)
  have one: "wp (cast_vote cfg attack i vs) (\<lambda>v u. apart s u \<and> length v = Suc (length vs)) s"
    unfolding cast_vote_def by (auto simp: wp_simps intro!: wp_toss)
  show ?case
    unfolding fold_prog.simps wp_and_then
  proof (rule wp_conseq [OF one], elim conjE)
    fix v :: "bool list" and u :: "'a sim" assume u: "apart s u" "length v = Suc (length vs)"
    show "wp (fold_prog (cast_vote cfg attack) seats v) (\<lambda>votes u. apart s u \<and> length votes = length vs + length (i # seats)) u"
      by (rule wp_conseq [OF Cons.IH]) (use u apart_trans in auto)
  qed
qed (simp add: wp_ret)

text \<open>Where a question is not refunded, the winners are counted right.\<close>

lemma judge_effect:
  assumes "length votes = c_quorum cfg" and "c_quorum cfg \<le> u32_max"
  shows "wp (judge cfg votes) (\<lambda>v u. apart s u \<and> (\<not> v_refund v \<longrightarrow> 0 < v_winner_count v
     \<and> v_winner_count v = length (filter (\<lambda>b. b = v_winners_correct v) votes))) s"
proof -
  have "length (filter id votes) \<le> u32_max" using assms length_filter_le [of id votes] by linarith
  then have small: "as_u32 (length (filter id votes)) = length (filter id votes)"
    by (simp add: as_u32_def u32_max_def)
  have other: "c_quorum cfg - length (filter id votes) = length (filter Not votes)"
    using sum_length_filter_compl [of id votes] assms(1) by (simp add: o_def)
  show ?thesis
    unfolding judge_def small other Let_def
    by (auto simp: wp_simps id_def intro!: wp_toss)
qed

section \<open>The settlement of bonded stakes\<close>

lemma wp_take: "wp (take_bucket l b) Q s
    = (i128_range (b - min l b) \<longrightarrow> i128_range (l - min l b) \<longrightarrow> Q (b - min l b, l - min l b) s)"
  by (simp add: take_bucket_def wp_simps Let_def)

lemma slash_bonded:
  "wp (sim_slash (settled_stake T) bps cap) (\<lambda>(b, v) u. u = s \<and> 0 \<le> v \<and> b = settled_stake (T - v)) s"
  by (auto simp: sim_slash_def slashable_def settled_stake_def sim_mul_bps_def wp_simps wp_take Let_def)

lemma loser_books:
  "wp (sim_slash_loser n bps cap (settled_stake T) (done, r, p, tt)) (\<lambda>(done', r', p', tt') u. u = s \<and> (\<exists>v. 0 \<le> v
     \<and> done' = done @ [settled_stake (T - v)] \<and> n * r' + p' = n * r + p + v)) s"
  unfolding sim_slash_loser_def case_prod_conv wp_and_then
  by (rule wp_conseq [OF slash_bonded]) (auto simp: sim_mul_bps_def wp_simps Let_def algebra_simps)

lemma losers_books:
  "wp (fold_prog (sim_slash_loser n bps cap) (map settled_stake Ts) (done, r, p, tt)) (\<lambda>(done', r', p', tt') u. u = s \<and> (\<exists>vs.
     length vs = length Ts \<and> (\<forall>v\<in>set vs. 0 \<le> v) \<and> done' = done @ map2 (\<lambda>T v. settled_stake (T - v)) Ts vs
     \<and> n * r' + p' = n * r + p + sum_list vs)) s"
proof (induction Ts arbitrary: "done" r p tt s)
  case (Cons T Ts)
  show ?case
    unfolding list.map fold_prog.simps wp_and_then
    by (rule wp_conseq [OF loser_books], clarsimp, rule wp_conseq [OF Cons.IH], clarsimp)
      (rule_tac x = "v # vs" in exI, simp)
qed (simp add: wp_ret)

definition taken_by_platform :: "settlement \<Rightarrow> i128" where
  "taken_by_platform st = fee st + dust st + slash_platform_take st"

lemma resolve_books:
  "wp (sim_resolve amount n (map settled_stake Ts) p) (\<lambda>(st, ls) u. u = s \<and> (\<exists>vs. length vs = length Ts
     \<and> (\<forall>v\<in>set vs. 0 \<le> v) \<and> ls = map2 (\<lambda>T v. settled_stake (T - v)) Ts vs
     \<and> amount + sum_list vs = taken_by_platform st + int n * (share st + redistribution_share st))) s"
  unfolding sim_resolve_def Let_def
  by (auto simp: wp_simps sim_mul_bps_def taken_by_platform_def algebra_simps intro!: wp_conseq [OF losers_books])

section \<open>Bonded workers\<close>

text \<open>Between questions the stake of every worker is its target, fully settled.\<close>

definition bonded :: "worker \<Rightarrow> bool" where
  "bonded w \<longleftrightarrow> w_stake w = settled_stake (w_target_stake w)"

definition all_bonded :: "'f sim \<Rightarrow> bool" where
  "all_bonded s \<longleftrightarrow> (\<forall>w\<in>set (s_workers s). bonded w)"

lemma slashable_settled: "wp (slashable (settled_stake T)) Q s = (i128_range T \<longrightarrow> Q T s)"
  by (simp add: slashable_def settled_stake_def wp_simps)

text \<open>What a seat receives: the winner's credit, or less than nothing the loser's slash.\<close>

definition net_of :: "verdict \<Rightarrow> settlement \<Rightarrow> i128 list \<Rightarrow> bool \<Rightarrow> nat \<Rightarrow> i128" where
  "net_of v st vs vote li = (if v_refund v then 0
     else if vote = v_winners_correct v then share st + redistribution_share st else - (vs ! li))"

definition index_after :: "verdict \<Rightarrow> bool \<Rightarrow> nat \<Rightarrow> nat" where
  "index_after v vote li = (if v_refund v \<or> vote = v_winners_correct v then li else li + 1)"

lemma seat_result_bonded:
  assumes "bonded w" and "\<forall>x\<in>set vs. 0 \<le> x"
    and "\<not> v_refund v \<Longrightarrow> vote \<noteq> v_winners_correct v \<Longrightarrow> li < length vs \<and> length vs = length ls
      \<and> ls ! li = settled_stake (w_target_stake w - vs ! li)"
  shows "wp (seat_result v st ls vote li w) (\<lambda>(w', earned, taken, li') u. u = s \<and> w' = w \<and> 0 \<le> taken
     \<and> earned - taken = net_of v st vs vote li \<and> li' = index_after v vote li) s"
proof (cases "v_refund v \<or> vote = v_winners_correct v")
  case True
  then show ?thesis by (auto simp: seat_result_def wp_simps net_of_def index_after_def)
next
  case False
  then have l: "li < length ls" "ls ! li = settled_stake (w_target_stake w - vs ! li)" "0 \<le> vs ! li"
    using assms(2,3) by auto
  have same: "w\<lparr>w_stake := (settled_stake (w_target_stake w - vs ! li))\<lparr>sim_settled := w_target_stake w\<rparr>\<rparr> = w"
    using assms(1) by (simp add: bonded_def settled_stake_def)
  have zero: "w\<lparr>w_stake := settled_stake (w_target_stake w - vs ! li)\<rparr> = w" if "vs ! li \<le> 0"
    using that l(3) assms(1) by (simp add: bonded_def)
  have bw: "w_stake w = settled_stake (w_target_stake w)" using assms(1) by (simp add: bonded_def)
  have set: "sim_settled (settled_stake x) = x" for x by (simp add: settled_stake_def)
  show ?thesis
    using False l same zero
    by (auto simp: seat_result_def Let_def wp_simps bw slashable_settled set net_of_def index_after_def)
qed

definition books_of :: "outcomes \<Rightarrow> _" where
  "books_of r = (demanded r, resolved r, refunded r, unserved r, wrong r, attacks r, caught r, cartel_bans r,
     cartel_pnl r, platform_by_round r, honest_start r)"

definition aside :: "'f sim \<Rightarrow> 'f sim \<Rightarrow> bool" where
  "aside s u \<longleftrightarrow> books_of (s_out u) = books_of (s_out s) \<and> s_platform u = s_platform s"

lemma book_honest_effect:
  "wp (book_honest cfg w pnl earned taken) (\<lambda>w' u. aside s u \<and> s_workers u = s_workers s \<and> w_kind w' = w_kind w
     \<and> w_stake w' = w_stake w \<and> w_target_stake w' = w_target_stake w
     \<and> honest_pnl (s_out u) = honest_pnl (s_out s) + pnl) s"
  by (simp add: book_honest_def set_out_def wp_simps aside_def books_of_def)

lemma book_cartel_effect:
  "wp (book_cartel cfg b banned w pnl (q, n)) (\<lambda>(w', q', n') u. u = s \<and> w_kind w' = w_kind w
     \<and> w_stake w' = w_stake w \<and> w_target_stake w' = w_target_stake w
     \<and> n \<le> n' \<and> (\<not> banned \<longrightarrow> n' = n) \<and> q' = q + pnl + b - c_sybil_cost cfg * int (n' - n)) s"
  by (auto simp: book_cartel_def wp_simps)

text \<open>One seat: its profit, in the money of the honest or of the cartel.\<close>

definition work :: "bool \<Rightarrow> worker \<Rightarrow> i128" where
  "work attack w = (if attack \<and> w_kind w = Cartel then 0 else w_cost w)"

definition bribe_to :: "i128 \<Rightarrow> worker \<Rightarrow> i128" where
  "bribe_to b w = (if w_kind w = Cartel then b else 0)"

lemma settle_seat_effect:
  assumes "i < length (s_workers s)" and "w = s_workers s ! i" and "bonded w" and "\<forall>x\<in>set vs. 0 \<le> x"
    and "\<not> v_refund v \<Longrightarrow> vote \<noteq> v_winners_correct v \<Longrightarrow> li < length vs \<and> length vs = length ls
      \<and> ls ! li = settled_stake (w_target_stake w - vs ! li)"
  shows "wp (settle_seat cfg attack v st ls b (i, vote) (q, n, li)) (\<lambda>(q', n', li') u. aside s u
     \<and> s_workers u = (s_workers s)[i := s_workers u ! i] \<and> bonded (s_workers u ! i) \<and> li' = index_after v vote li
     \<and> n \<le> n' \<and> (\<not> attack \<longrightarrow> n' = n)
     \<and> honest_pnl (s_out u) + q' = honest_pnl (s_out s) + q + net_of v st vs vote li - work attack w + bribe_to b w
         - c_sybil_cost cfg * int (n' - n)) s"
proof -
  note result = seat_result_bonded [OF assms(3,4,5), where st = st and s = s]
  show ?thesis
  proof (cases "w_kind w")
    case Honest
    then show ?thesis
      unfolding settle_seat_def case_prod_conv wp_and_then wp_gets assms(2) [symmetric]
      by (auto simp: wp_simps Let_def intro!: wp_conseq [OF result] wp_conseq [OF book_honest_effect])
        (use assms(1,3) in \<open>auto simp: aside_def books_of_def bonded_def work_def bribe_to_def\<close>)
  next
    case Cartel
    then show ?thesis
      unfolding settle_seat_def case_prod_conv wp_and_then wp_gets assms(2) [symmetric]
      by (auto simp: wp_simps Let_def intro!: wp_conseq [OF result] wp_conseq [OF book_cartel_effect])
        (use assms(1,3) in \<open>auto simp: aside_def books_of_def bonded_def work_def bribe_to_def\<close>)
  qed
qed

section \<open>All seats\<close>

definition lost :: "verdict \<Rightarrow> nat \<times> bool \<Rightarrow> bool" where
  "lost v = (\<lambda>(i, vote). vote \<noteq> v_winners_correct v)"

definition targets :: "'f sim \<Rightarrow> verdict \<Rightarrow> (nat \<times> bool) list \<Rightarrow> i128 list" where
  "targets s v bs = map (\<lambda>(i, vote). w_target_stake (s_workers s ! i)) (filter (lost v) bs)"

definition flows :: "'f sim \<Rightarrow> bool \<Rightarrow> i128 \<Rightarrow> (nat \<times> bool) list \<Rightarrow> i128" where
  "flows s attack b bs = (\<Sum>(i, vote)\<leftarrow>bs. bribe_to b (s_workers s ! i) - work attack (s_workers s ! i))"

definition seated :: "config \<Rightarrow> bool \<Rightarrow> verdict \<Rightarrow> settlement \<Rightarrow> i128 list \<Rightarrow> i128 \<Rightarrow> 'f sim \<Rightarrow> (nat \<times> bool) list
    \<Rightarrow> i128 \<times> u32 \<times> nat \<Rightarrow> 'f sim \<Rightarrow> bool" where
  "seated cfg attack v st vs b s xs acc u = (case acc of (q, n, li) \<Rightarrow> aside s u \<and> all_bonded u
     \<and> length (s_workers u) = length (s_workers s)
     \<and> (\<forall>i. i \<notin> fst ` set xs \<longrightarrow> s_workers u ! i = s_workers s ! i)
     \<and> (\<not> attack \<longrightarrow> n = 0) \<and> li = (if v_refund v then 0 else length (filter (lost v) xs))
     \<and> honest_pnl (s_out u) + q = honest_pnl (s_out s) + flows s attack b xs - c_sybil_cost cfg * int n
         + (if v_refund v then 0 else (share st + redistribution_share st) * int (length (filter (\<lambda>x. \<not> lost v x) xs))
              - sum_list (take li vs)))"

lemma seated_step:
  assumes "seated cfg attack v st vs b s xs (q, n, li) u" and "distinct (map fst (xs @ (i, vote) # ys))"
    and "i < length (s_workers s)" and "\<forall>x\<in>set vs. 0 \<le> x"
    and "\<not> v_refund v \<Longrightarrow> length vs = length (filter (lost v) (xs @ (i, vote) # ys))
      \<and> ls = map2 (\<lambda>T x. settled_stake (T - x)) (targets s v (xs @ (i, vote) # ys)) vs"
  shows "wp (settle_seat cfg attack v st ls b (i, vote) (q, n, li)) (seated cfg attack v st vs b s (xs @ [(i, vote)])) u"
proof -
  let ?w = "s_workers s ! i"
  note h = assms(1) [unfolded seated_def case_prod_conv]
  have i: "i \<notin> fst ` set xs" "i < length (s_workers u)" "s_workers u ! i = ?w" "bonded ?w"
    using assms(2,3) h unfolding all_bonded_def by (auto simp: all_set_conv_all_nth)
  have losing: "li < length vs \<and> length vs = length ls \<and> ls ! li = settled_stake (w_target_stake ?w - vs ! li)"
    if "\<not> v_refund v" "vote \<noteq> v_winners_correct v"
    using assms(5) [OF that(1)] that h by (simp add: targets_def lost_def nth_append)
  have taken: "sum_list (take (Suc li) vs) = sum_list (take li vs) + vs ! li" if "li < length vs"
    using that by (simp add: take_Suc_conv_app_nth)
  show ?thesis
  proof (rule wp_conseq [OF settle_seat_effect [OF i(2) i(3) [symmetric] i(4) assms(4) losing]])
    fix acc z
    assume z: "(\<lambda>(q', n', li') z. aside u z \<and> s_workers z = (s_workers u)[i := s_workers z ! i]
      \<and> bonded (s_workers z ! i) \<and> li' = index_after v vote li \<and> n \<le> n' \<and> (\<not> attack \<longrightarrow> n' = n)
      \<and> honest_pnl (s_out z) + q' = honest_pnl (s_out u) + q + net_of v st vs vote li - work attack ?w + bribe_to b ?w
         - c_sybil_cost cfg * int (n' - n)) acc z"
    obtain q' n' li' where acc: "acc = (q', n', li')" by (cases acc)
    note z = z [unfolded acc case_prod_conv]
    have sybil: "c_sybil_cost cfg * int (n' - n) = c_sybil_cost cfg * int n' - c_sybil_cost cfg * int n"
      using z by (simp add: of_nat_diff right_diff_distrib)
    have "aside s z" using h z by (simp add: aside_def)
    moreover have "all_bonded z"
      using h z set_update_subset_insert [of "s_workers u" i "s_workers z ! i"] unfolding all_bonded_def by (metis insert_iff subsetD)
    moreover have "length (s_workers z) = length (s_workers s)" using h z by (metis length_list_update)
    moreover have "s_workers z ! j = s_workers s ! j" if "j \<notin> fst ` set (xs @ [(i, vote)])" for j
      using h z that by (metis (no_types, lifting) fst_conv imageI in_set_conv_decomp nth_list_update_neq set_append UnI1 image_Un UnI2)
    moreover have "li' = (if v_refund v then 0 else length (filter (lost v) (xs @ [(i, vote)])))"
      using h z by (simp add: index_after_def lost_def)
    moreover have "honest_pnl (s_out z) + q' = honest_pnl (s_out s) + flows s attack b (xs @ [(i, vote)]) - c_sybil_cost cfg * int n'
         + (if v_refund v then 0 else (share st + redistribution_share st)
             * int (length (filter (\<lambda>x. \<not> lost v x) (xs @ [(i, vote)]))) - sum_list (take li' vs))"
    proof -
      have flow: "flows s attack b (xs @ [(i, vote)]) = flows s attack b xs + (bribe_to b ?w - work attack ?w)"
        by (simp add: flows_def)
      have lx: "lost v (i, vote) \<longleftrightarrow> vote \<noteq> v_winners_correct v" by (simp add: lost_def)
      consider "v_refund v" | "\<not> v_refund v" "vote = v_winners_correct v" | "\<not> v_refund v" "vote \<noteq> v_winners_correct v" by blast
      then show ?thesis
      proof cases
        case 1
        then show ?thesis using h z unfolding flow sybil by (simp add: net_of_def index_after_def)
      next
        case 2
        have "\<not> lost v (i, vote)" "net_of v st vs vote li = share st + redistribution_share st" "li' = li"
          using z 2 lx by (simp_all only: net_of_def index_after_def if_False if_True simp_thms)
        then show ?thesis using h z 2(1) unfolding flow sybil by (simp add: distrib_left)
      next
        case 3
        have "lost v (i, vote)" "net_of v st vs vote li = - (vs ! li)" "li' = Suc li"
          using z 3 lx by (simp_all add: net_of_def index_after_def)
        then show ?thesis using h z 3(1) taken losing [OF 3] unfolding flow sybil by (simp add: distrib_left)
      qed
    qed
    ultimately show "seated cfg attack v st vs b s (xs @ [(i, vote)]) acc z"
      using h z by (simp add: seated_def acc)
  qed
qed

lemma seats_settled:
  assumes "distinct (map fst bs)" and "\<forall>(i, vote)\<in>set bs. i < length (s_workers s)" and "all_bonded s"
    and "\<forall>x\<in>set vs. 0 \<le> x"
    and "\<not> v_refund v \<Longrightarrow> length vs = length (filter (lost v) bs)
      \<and> ls = map2 (\<lambda>T x. settled_stake (T - x)) (targets s v bs) vs"
  shows "wp (fold_prog (settle_seat cfg attack v st ls b) bs (0, 0, 0)) (seated cfg attack v st vs b s bs) s"
proof (rule wp_fold_prog_list [where I = "\<lambda>ys acc u. \<exists>xs. bs = xs @ ys \<and> seated cfg attack v st vs b s xs acc u", THEN wp_conseq])
  show "\<exists>xs. bs = xs @ bs \<and> seated cfg attack v st vs b s xs (0, 0, 0) s"
    using assms(3) by (simp add: seated_def aside_def flows_def)
  show "wp (settle_seat cfg attack v st ls b x acc) (\<lambda>acc u. \<exists>xs. bs = xs @ ys \<and> seated cfg attack v st vs b s xs acc u) u"
    if ih: "\<exists>xs. bs = xs @ x # ys \<and> seated cfg attack v st vs b s xs acc u" for x ys acc u
  proof -
    obtain xs i vote q n li where xs: "bs = xs @ (i, vote) # ys" "x = (i, vote)" "acc = (q, n, li)"
        "seated cfg attack v st vs b s xs (q, n, li) u"
      using ih by (cases x; cases acc; auto)
    show ?thesis
      unfolding xs(2,3)
      by (rule wp_conseq [OF seated_step [OF xs(4)]])
        (use assms xs(1) in \<open>auto intro: exI [of _ "xs @ [(i, vote)]"]\<close>)
  qed
qed auto

section \<open>Settling the verdict\<close>

definition tally :: "outcomes \<Rightarrow> u64" where
  "tally r = resolved r + refunded r + unserved r"

text \<open>What the rest of a question leaves alone.\<close>

definition steady :: "outcomes \<Rightarrow> _" where
  "steady r = (demanded r, unserved r, attacks r, caught r, cartel_bans r, cartel_pnl r, honest_pnl r,
     platform_by_round r, honest_start r)"

definition verdict_settled :: "config \<Rightarrow> verdict \<Rightarrow> (nat \<times> bool) list \<Rightarrow> 'f sim \<Rightarrow> settlement \<times> sim_stake list \<Rightarrow> 'f sim \<Rightarrow> bool" where
  "verdict_settled cfg v bs s out u = (case out of (st, ls) \<Rightarrow>
     s_workers u = s_workers s \<and> steady (s_out u) = steady (s_out s)
     \<and> resolved (s_out u) = resolved (s_out s) + (if v_refund v then 0 else 1)
     \<and> refunded (s_out u) = refunded (s_out s) + (if v_refund v then 1 else 0)
     \<and> wrong (s_out u) = wrong (s_out s) + (if v_refund v \<or> v_winners_correct v then 0 else 1)
     \<and> (\<exists>vs. (\<forall>x\<in>set vs. 0 \<le> x) \<and> (if v_refund v then s_platform u = s_platform s
        else length vs = length (filter (lost v) bs) \<and> ls = map2 (\<lambda>T x. settled_stake (T - x)) (targets s v bs) vs
          \<and> c_amount cfg + sum_list vs = s_platform u - s_platform s
              + int (v_winner_count v) * (share st + redistribution_share st))))"

lemma settle_verdict_effect:
  assumes "all_bonded s" and "\<forall>(i, vote)\<in>set bs. i < length (s_workers s)"
  shows "wp (settle_verdict cfg v bs) (verdict_settled cfg v bs s) s"
proof (cases "v_refund v")
  case True
  then show ?thesis
    by (auto simp: settle_verdict_def verdict_settled_def wp_simps chk_u64_def set_out_def steady_def intro: exI [of _ "[]"])
next
  case False
  have b: "bonded (s_workers s ! i)" if "(i, vote) \<in> set bs" for i vote
    using that assms by (fastforce simp: all_bonded_def)
  have losers: "loser_stakes (s_workers s) v bs = map settled_stake (targets s v bs)"
    using b by (auto simp: loser_stakes_def targets_def lost_def bonded_def)
  have n: "length (targets s v bs) = length (filter (lost v) bs)" by (simp add: targets_def)
  show ?thesis
    using False
    unfolding settle_verdict_def verdict_settled_def
    by (auto simp: wp_simps losers chk_u64_def set_out_def steady_def settlement_platform_take_def n taken_by_platform_def
        intro!: wp_conseq [OF resolve_books]) (rule_tac x = vs in exI, simp)+
qed

section \<open>One question\<close>

definition gain :: "'f sim \<Rightarrow> i128" where
  "gain s = honest_pnl (s_out s) + cartel_pnl (s_out s) + s_platform s"

definition answer_flows :: "'f sim \<Rightarrow> bool \<Rightarrow> i128 \<Rightarrow> nat list \<Rightarrow> i128" where
  "answer_flows s attack b seats = (\<Sum>i\<leftarrow>seats. bribe_to b (s_workers s ! i) - work attack (s_workers s ! i))"

lemma flows_seats: "length seats = length votes \<Longrightarrow> flows s attack b (zip seats votes) = answer_flows s attack b seats"
  by (induction seats votes rule: list_induct2) (simp_all add: flows_def answer_flows_def)

lemma winners_counted:
  "length seats = length votes \<Longrightarrow>
    length (filter (\<lambda>x. \<not> lost v x) (zip seats votes)) = length (filter (\<lambda>b. b = v_winners_correct v) votes)"
  by (induction seats votes rule: list_induct2) (simp_all add: lost_def)

lemma push_workers:
  assumes "bonded w" and "all_bonded s"
  shows "wp (for_each xs (\<lambda>_. push_worker w)) (\<lambda>_ u. all_bonded u \<and> s_out u = s_out s \<and> s_platform u = s_platform s
     \<and> s_learner u = s_learner s) s"
  by (rule wp_for_each) (use assms in \<open>auto simp: push_worker_def wp_simps all_bonded_def\<close>)

definition settled_question :: "config \<Rightarrow> verdict \<Rightarrow> bool \<Rightarrow> i128 \<Rightarrow> nat list \<Rightarrow> 'f sim \<Rightarrow> 'f sim \<Rightarrow> bool" where
  "settled_question cfg v attack b seats s u \<longleftrightarrow> all_bonded u \<and> tally (s_out u) = tally (s_out s) + 1
     \<and> resolved (s_out u) = resolved (s_out s) + (if v_refund v then 0 else 1)
     \<and> wrong (s_out u) = wrong (s_out s) + (if v_refund v \<or> v_winners_correct v then 0 else 1)
     \<and> demanded (s_out u) = demanded (s_out s) \<and> unserved (s_out u) = unserved (s_out s) \<and> attacks (s_out u) = attacks (s_out s)
     \<and> caught (s_out u) = caught (s_out s) \<and> platform_by_round (s_out u) = platform_by_round (s_out s)
     \<and> cartel_bans (s_out s) \<le> cartel_bans (s_out u) \<and> (\<not> attack \<longrightarrow> cartel_bans (s_out u) = cartel_bans (s_out s))
     \<and> gain u = gain s + (if v_refund v then 0 else c_amount cfg) + answer_flows s attack b seats
         - c_sybil_cost cfg * int (cartel_bans (s_out u) - cartel_bans (s_out s))"

lemma cartel_bonded: "bonded (cartel_worker cfg)"
  by (simp add: bonded_def cartel_worker_def)

lemma question_settles:
  assumes "all_bonded s" and "distinct seats" and "set seats \<subseteq> {..<length (s_workers s)}"
    and "length votes = length seats"
    and "\<not> v_refund v \<Longrightarrow> v_winner_count v = length (filter (\<lambda>b. b = v_winners_correct v) votes)"
  shows "wp (settle_verdict cfg v (zip seats votes)) (\<lambda>(st, ls). wp (fold_prog (settle_seat cfg attack v st ls b) (zip seats votes) (0, 0, 0))
     (\<lambda>(q, n, li). wp (for_each [0..<n] (\<lambda>_. push_worker (cartel_worker cfg))) (\<lambda>_.
       wp (and_then (gets s_out) (\<lambda>r. and_then (chk_u32 (cartel_bans r + n)) (\<lambda>x. and_then (chk (cartel_pnl r + q)) (\<lambda>p.
         block [set_out (\<lambda>r. r\<lparr>cartel_bans := x, cartel_pnl := p\<rparr>), if decided then learn F attack (g q) else ret ()]))))
       (\<lambda>_. settled_question cfg v attack b seats s)))) s"
proof -
  let ?bs = "zip seats votes"
  have bs: "distinct (map fst ?bs)" "\<forall>(i, vote)\<in>set ?bs. i < length (s_workers s)"
    using assms(2-4) by (auto dest: set_zip_leftD)
  have last: "wp (for_each [0..<n] (\<lambda>_. push_worker (cartel_worker cfg))) (\<lambda>_.
       wp (and_then (gets s_out) (\<lambda>r. and_then (chk_u32 (cartel_bans r + n)) (\<lambda>x. and_then (chk (cartel_pnl r + q)) (\<lambda>p.
         block [set_out (\<lambda>r. r\<lparr>cartel_bans := x, cartel_pnl := p\<rparr>), if decided then learn F attack (g q) else ret ()]))))
       (\<lambda>_. settled_question cfg v attack b seats s)) u"
    if t: "s_workers t = s_workers s" "steady (s_out t) = steady (s_out s)"
      and r: "resolved (s_out t) = resolved (s_out s) + (if v_refund v then 0 else 1)"
        "wrong (s_out t) = wrong (s_out s) + (if v_refund v \<or> v_winners_correct v then 0 else 1)"
        "refunded (s_out t) = refunded (s_out s) + (if v_refund v then 1 else 0)"
      and u: "seated cfg attack v st vs b t ?bs (q, n, li) u"
      and m: "if v_refund v then s_platform t = s_platform s else length vs = length (filter (lost v) ?bs)
        \<and> c_amount cfg + sum_list vs = s_platform t - s_platform s
                + int (v_winner_count v) * (share st + redistribution_share st)"
    for t st vs q n li u
  proof -
    have f: "flows t attack b ?bs = answer_flows s attack b seats"
      using t(1) by (simp add: flows_seats assms(4) [symmetric] answer_flows_def)
    have bounds: "s_platform t + (if v_refund v then 0 else (share st + redistribution_share st)
        * int (length (filter (\<lambda>x. \<not> lost v x) ?bs)) - sum_list (take li vs))
        = s_platform s + (if v_refund v then 0 else c_amount cfg)"
      using m u assms(4,5) by (auto simp: seated_def winners_counted algebra_simps)
    show ?thesis
      by (rule wp_conseq [OF push_workers [OF cartel_bonded]])
        (use u in \<open>simp add: seated_def\<close>,
         use u t r f bounds in \<open>auto simp: wp_simps set_out_def learn_def settled_question_def seated_def aside_def books_of_def
           steady_def tally_def gain_def all_bonded_def\<close>)
  qed
  show ?thesis
  proof (rule wp_conseq [OF settle_verdict_effect [OF assms(1) bs(2)]])
    fix out :: "settlement \<times> sim_stake list" and t :: "'a sim"
    assume t: "verdict_settled cfg v ?bs s out t"
    obtain st ls where out: "out = (st, ls)" by (cases out)
    note t = t [unfolded out verdict_settled_def case_prod_conv]
    obtain vs where vs: "\<forall>x\<in>set vs. 0 \<le> x" and "if v_refund v then s_platform t = s_platform s
        else length vs = length (filter (lost v) ?bs) \<and> ls = map2 (\<lambda>T x. settled_stake (T - x)) (targets s v ?bs) vs
          \<and> c_amount cfg + sum_list vs = s_platform t - s_platform s
              + int (v_winner_count v) * (share st + redistribution_share st)" using t by blast
    note m = this(2)
    have targets: "targets t v ?bs = targets s v ?bs" using t by (simp add: targets_def)
    show "(\<lambda>(st, ls). wp (fold_prog (settle_seat cfg attack v st ls b) ?bs (0, 0, 0))
     (\<lambda>(q, n, li). wp (for_each [0..<n] (\<lambda>_. push_worker (cartel_worker cfg))) (\<lambda>_.
       wp (and_then (gets s_out) (\<lambda>r. and_then (chk_u32 (cartel_bans r + n)) (\<lambda>x. and_then (chk (cartel_pnl r + q)) (\<lambda>p.
         block [set_out (\<lambda>r. r\<lparr>cartel_bans := x, cartel_pnl := p\<rparr>), if decided then learn F attack (g q) else ret ()]))))
       (\<lambda>_. settled_question cfg v attack b seats s)))) out t"
      unfolding out case_prod_conv
    proof -
      have good: "all_bonded t" "\<forall>(i, vote)\<in>set ?bs. i < length (s_workers t)" using assms(1) bs(2) t by (simp_all add: all_bonded_def)
      have seats: "wp (fold_prog (settle_seat cfg attack v st ls b) ?bs (0, 0, 0)) (seated cfg attack v st vs b t ?bs) t"
        by (rule seats_settled [OF bs(1) good(2,1) vs]) (use m targets in simp_all)
      show "wp (fold_prog (settle_seat cfg attack v st ls b) ?bs (0, 0, 0)) (\<lambda>(q, n, li). wp (for_each [0..<n] (\<lambda>_. push_worker (cartel_worker cfg))) (\<lambda>_.
       wp (and_then (gets s_out) (\<lambda>r. and_then (chk_u32 (cartel_bans r + n)) (\<lambda>x. and_then (chk (cartel_pnl r + q)) (\<lambda>p.
         block [set_out (\<lambda>r. r\<lparr>cartel_bans := x, cartel_pnl := p\<rparr>), if decided then learn F attack (g q) else ret ()]))))
       (\<lambda>_. settled_question cfg v attack b seats s))) t"
      proof (rule wp_conseq [OF seats])
        fix acc :: "i128 \<times> nat \<times> nat" and z :: "'a sim"
        assume z: "seated cfg attack v st vs b t ?bs acc z"
        obtain q n li where acc: "acc = (q, n, li)" by (cases acc)
        show "(\<lambda>(q, n, li). wp (for_each [0..<n] (\<lambda>_. push_worker (cartel_worker cfg))) (\<lambda>_.
            wp (and_then (gets s_out) (\<lambda>r. and_then (chk_u32 (cartel_bans r + n)) (\<lambda>x. and_then (chk (cartel_pnl r + q)) (\<lambda>p.
              block [set_out (\<lambda>r. r\<lparr>cartel_bans := x, cartel_pnl := p\<rparr>), if decided then learn F attack (g q) else ret ()]))))
            (\<lambda>_. settled_question cfg v attack b seats s))) acc z"
          unfolding acc case_prod_conv
          by (rule last [OF _ _ _ _ _ z [unfolded acc]]) (use t m in simp_all)
      qed
    qed
  qed
qed

section \<open>Asking\<close>

definition bribe_each :: "config \<Rightarrow> bool \<Rightarrow> bool \<Rightarrow> 'f sim \<Rightarrow> nat list \<Rightarrow> i128" where
  "bribe_each cfg attack captured s seats = (if attack \<and> captured then c_bribe cfg sdiv int (length (filter (is_cartel s) seats)) else 0)"

text \<open>
  What one answered question changes: it is counted once, an attack needs a cartel that plays and a
  majority of its seats, and the profits of the workers and the platform together grow by the amount
  the payer spent and the bribes, less the work, less the new identities of the caught.
\<close>

definition answered :: "config \<Rightarrow> nat list \<Rightarrow> bool \<Rightarrow> bool \<Rightarrow> 'f sim \<Rightarrow> 'f sim \<Rightarrow> bool" where
  "answered cfg seats attack captured s u \<longleftrightarrow> all_bonded u
     \<and> tally (s_out u) = tally (s_out s) + 1 \<and> unserved (s_out u) = unserved (s_out s)
     \<and> resolved (s_out u) \<in> {resolved (s_out s), resolved (s_out s) + 1}
     \<and> wrong (s_out u) = wrong (s_out s) + (if captured then 1 else 0)
     \<and> (captured \<longrightarrow> resolved (s_out u) = resolved (s_out s) + 1)
     \<and> demanded (s_out u) = demanded (s_out s) \<and> platform_by_round (s_out u) = platform_by_round (s_out s)
     \<and> attacks (s_out u) = attacks (s_out s) + (if attack then 1 else 0)
     \<and> (attack \<longrightarrow> c_strategy cfg \<noteq> Honest_Play \<and> c_quorum cfg div 2 < length (filter (is_cartel s) seats))
     \<and> caught (s_out s) \<le> caught (s_out u) \<and> caught (s_out u) - caught (s_out s) \<le> (if attack then 1 else 0)
     \<and> cartel_bans (s_out s) \<le> cartel_bans (s_out u) \<and> (\<not> attack \<longrightarrow> cartel_bans (s_out u) = cartel_bans (s_out s))
     \<and> gain u = gain s + c_amount cfg * int (resolved (s_out u) - resolved (s_out s))
         + answer_flows s attack (bribe_each cfg attack captured s seats) seats
         - c_sybil_cost cfg * int (cartel_bans (s_out u) - cartel_bans (s_out s))"

lemma decide_effect: "wp (decide F st) (\<lambda>b u. apart s u \<and> (b \<longrightarrow> st \<noteq> Honest_Play)) s"
  by (cases st) (auto simp: decide_def wp_simps intro!: wp_toss)

text \<open>The state between the votes and the settlement: only the counts of attacks have moved.\<close>

definition voted :: "bool \<Rightarrow> bool \<Rightarrow> 'f sim \<Rightarrow> 'f sim \<Rightarrow> bool" where
  "voted attack seen s t \<longleftrightarrow> s_workers t = s_workers s \<and> s_platform t = s_platform s
     \<and> s_out t = (s_out s)\<lparr>attacks := attacks (s_out s) + (if attack then 1 else 0),
          caught := caught (s_out s) + (if seen then 1 else 0)\<rparr>"

lemma answered_intro:
  assumes "voted attack (v_audited v \<and> attack) s t" and "settled_question cfg v attack b seats t u"
    and "attack \<Longrightarrow> c_strategy cfg \<noteq> Honest_Play \<and> c_quorum cfg div 2 < length (filter (is_cartel s) seats)"
    and "b = bribe_each cfg attack (\<not> v_refund v \<and> \<not> v_winners_correct v) s seats"
  shows "answered cfg seats attack (\<not> v_refund v \<and> \<not> v_winners_correct v) s u"
proof -
  have flows: "answer_flows t a c is = answer_flows s a c is" for a c "is"
    using assms(1) by (simp add: voted_def answer_flows_def)
  show ?thesis
    using assms
    by (auto simp: answered_def settled_question_def voted_def tally_def gain_def flows)
qed

lemma count_attack:
  "wp (count_if b attacks (\<lambda>n r. r\<lparr>attacks := n\<rparr>)) (\<lambda>_ t. s_workers t = s_workers s \<and> s_platform t = s_platform s
     \<and> s_out t = (s_out s)\<lparr>attacks := attacks (s_out s) + (if b then 1 else 0)\<rparr>) s"
  by (simp add: count_if_def set_out_def chk_u64_def wp_simps)

lemma count_caught:
  "wp (count_if b caught (\<lambda>n r. r\<lparr>caught := n\<rparr>)) (\<lambda>_ t. s_workers t = s_workers s \<and> s_platform t = s_platform s
     \<and> s_out t = (s_out s)\<lparr>caught := caught (s_out s) + (if b then 1 else 0)\<rparr>) s"
  by (simp add: count_if_def set_out_def chk_u64_def wp_simps)

lemma decision_effect:
  "wp (if decided then decide F (c_strategy cfg) else ret False)
     (\<lambda>b u. apart s u \<and> (b \<longrightarrow> c_strategy cfg \<noteq> Honest_Play \<and> decided)) s"
  by (auto simp: wp_simps intro: wp_conseq [OF decide_effect])

lemma wp_seq_fun: "wp (seq_do m k) Q = wp m (\<lambda>_. wp k Q)"
  by (rule ext) (rule wp_seq_do)

lemma settle_asked:
  assumes "all_bonded s" and "distinct seats" and "set seats \<subseteq> {..<length (s_workers s)}"
    and "length votes = length seats"
    and "\<not> v_refund v \<Longrightarrow> v_winner_count v = length (filter (\<lambda>b. b = v_winners_correct v) votes)"
  shows "wp (and_then (settle_verdict cfg v (zip seats votes)) (\<lambda>(st, ls).
     and_then (fold_prog (settle_seat cfg attack v st ls b) (zip seats votes) (0, 0, 0)) (\<lambda>(q, n, li).
     seq_do (for_each [0..<n] (\<lambda>_. push_worker (cartel_worker cfg)))
     (and_then (gets s_out) (\<lambda>r. and_then (chk_u32 (cartel_bans r + n)) (\<lambda>x. and_then (chk (cartel_pnl r + q)) (\<lambda>p.
       block [set_out (\<lambda>r. r\<lparr>cartel_bans := x, cartel_pnl := p\<rparr>), if decided then learn F attack (g q) else ret ()])))))))
     (\<lambda>_. settled_question cfg v attack b seats s) s"
  unfolding wp_and_then [of "settle_verdict cfg v (zip seats votes)"]
proof (rule wp_conseq, rule question_settles [OF assms(1-4), where attack = attack and b = b and decided = decided and F = F and g = g])
  show "v_winner_count v = length (filter (\<lambda>b. b = v_winners_correct v) votes)" if "\<not> v_refund v" using assms(5) that .
qed (simp only: wp_and_then wp_seq_fun case_prod_unfold)

lemmas wp_stepI = wp_and_then [THEN iffD2] wp_seq_do [THEN iffD2]

lemma ask_seated_effect:
  fixes s :: "'f sim"
  assumes "all_bonded s" and "distinct seats" and "set seats \<subseteq> {..<length (s_workers s)}"
    and "length seats = c_quorum cfg" and "c_quorum cfg \<le> u32_max"
  shows "wp (ask_seated F cfg seats) (\<lambda>_ u. \<exists>attack captured. answered cfg seats attack captured s u) s"
proof -
  let ?k = "length (filter (is_cartel s) seats)"
  have "?k \<le> u32_max" using assms(4,5) length_filter_le [of "is_cartel s" seats] by linarith
  then have k: "as_u32 ?k = ?k" by (simp add: as_u32_def u32_max_def)
  show ?thesis
    unfolding ask_seated_def Let_def
    apply (rule wp_stepI)
    apply (simp only: wp_gets k)
    apply (rule wp_stepI, rule wp_conseq [OF decision_effect])
    apply (rule wp_stepI, rule wp_conseq [OF count_attack])
    apply (rule wp_stepI, rule wp_conseq [OF votes_effect])
    apply (rule wp_stepI, rule wp_conseq [OF judge_effect])
    subgoal using assms(4) by simp
    subgoal by (rule assms(5))
    apply (rule wp_stepI, rule wp_conseq [OF count_caught])
    apply (rule wp_conseq [OF settle_asked])
    subgoal using assms(1) by (auto simp: all_bonded_def apartD)
    subgoal by (rule assms(2))
    subgoal using assms(3) by (auto simp: apartD)
    subgoal by simp
    subgoal by simp
    subgoal for attack s1 _ s2 votes s3 v s4 _ s5 _ u
      apply (rule exI [of _ attack], rule exI [of _ "\<not> v_refund v \<and> \<not> v_winners_correct v"])
      apply (rule answered_intro)
      prefer 2
      apply assumption
      subgoal by (auto simp: voted_def apartD)
      subgoal by auto
      subgoal by (simp add: bribe_each_def)
      done
    done
qed

lemma ask_question_effect:
  assumes "all_bonded s" and "c_quorum cfg \<le> u32_max"
  shows "wp (ask_question F cfg) (\<lambda>_ u. if length (active_workers s) < c_quorum cfg
     then u = s\<lparr>s_out := (s_out s)\<lparr>unserved := unserved (s_out s) + 1\<rparr>\<rparr>
     else \<exists>seats attack captured. distinct seats \<and> length seats = c_quorum cfg \<and> set seats \<subseteq> set (active_workers s)
       \<and> answered cfg seats attack captured s u) s"
proof (cases "length (active_workers s) < c_quorum cfg")
  case True
  then show ?thesis by (simp add: ask_question_def count_if_def set_out_def chk_u64_def wp_simps)
next
  case False
  have drawn: "wp (ask_seated F cfg seats) (\<lambda>_ u. \<exists>seats attack captured. distinct seats \<and> length seats = c_quorum cfg
      \<and> set seats \<subseteq> set (active_workers s) \<and> answered cfg seats attack captured s u) t"
    if t: "apart s t" and p: "mset perm = mset (active_workers s)" "seats = take (c_quorum cfg) perm" for t seats perm
  proof -
    have seats: "distinct seats" "length seats = c_quorum cfg" "set seats \<subseteq> set (active_workers s)"
      using seats_fair [OF p(1), of "c_quorum cfg"] False by (simp_all add: p(2))
    have bonded: "all_bonded t" using assms(1) t by (simp add: all_bonded_def apartD)
    have within: "set seats \<subseteq> {..<length (s_workers t)}"
      using seats(3) t by (auto simp: active_workers_def apartD)
    have "answered cfg seats attack captured t u \<Longrightarrow> answered cfg seats attack captured s u" for attack captured u
      using t by (simp add: answered_def gain_def answer_flows_def bribe_each_def is_cartel_def [abs_def] apartD)
    then show ?thesis
      by (rule_tac wp_conseq [OF ask_seated_effect [OF bonded seats(1) within seats(2) assms(2)]]) (use seats in blast)
  qed
  have "wp (and_then (draw_seats (c_quorum cfg) (active_workers s)) (ask_seated F cfg)) (\<lambda>_ u. \<exists>seats attack captured.
      distinct seats \<and> length seats = c_quorum cfg \<and> set seats \<subseteq> set (active_workers s)
      \<and> answered cfg seats attack captured s u) s"
    unfolding wp_and_then by (rule wp_conseq [OF draw_seats_effect]) (elim conjE exE, rule drawn)
  then show ?thesis
    unfolding ask_question_def wp_and_then [of "gets active_workers"] wp_gets using False by simp
qed

section \<open>Whole runs\<close>

text \<open>\<open>k\<close> questions of the round are still to be asked, \<open>n\<close> rounds are over.\<close>

definition booked :: "config \<Rightarrow> nat \<Rightarrow> nat \<Rightarrow> 'f sim \<Rightarrow> bool" where
  "booked cfg k n s \<longleftrightarrow> all_bonded s \<and> tally (s_out s) + k = demanded (s_out s)
     \<and> wrong (s_out s) \<le> resolved (s_out s) \<and> attacks (s_out s) \<le> resolved (s_out s) + refunded (s_out s)
     \<and> caught (s_out s) \<le> attacks (s_out s) \<and> length (platform_by_round (s_out s)) = n
     \<and> (c_strategy cfg = Honest_Play \<longrightarrow> attacks (s_out s) = 0 \<and> cartel_bans (s_out s) = 0)"

lemma answered_books: "answered cfg seats attack captured s u \<Longrightarrow> booked cfg (Suc k) n s \<Longrightarrow> booked cfg k n u"
  unfolding answered_def booked_def tally_def by (elim conjE, intro conjI) (simp_all split: if_splits, force+)

lemma ask_books:
  assumes "booked cfg (Suc k) n s" and "c_quorum cfg \<le> u32_max"
  shows "wp (ask_question F cfg) (\<lambda>_. booked cfg k n) s"
proof -
  have "all_bonded s" using assms(1) by (simp add: booked_def)
  moreover have "booked cfg k n (s\<lparr>s_out := (s_out s)\<lparr>unserved := unserved (s_out s) + 1\<rparr>\<rparr>)"
    using assms(1) by (simp add: booked_def tally_def all_bonded_def)
  ultimately show ?thesis
    by (rule_tac wp_conseq [OF ask_question_effect [OF _ assms(2)]]) (auto dest: answered_books [OF _ assms(1)] split: if_splits)
qed

lemma questions_book:
  assumes "booked cfg (length xs) n s" and "c_quorum cfg \<le> u32_max"
  shows "wp (for_each xs (\<lambda>_. ask_question F cfg)) (\<lambda>_. booked cfg 0 n) s"
  using wp_for_each_list [of "\<lambda>xs. booked cfg (length xs) n" xs s "\<lambda>_. ask_question F cfg"] assms ask_books by fastforce

lemma end_round_books: "booked cfg 0 n s \<Longrightarrow> wp (end_round F cfg) (\<lambda>_. booked cfg 0 (Suc n)) s"
  unfolding end_round_def push_worker_def honest_worker_def
  by (simp add: wp_simps Let_def, auto simp: wp_simps booked_def tally_def all_bonded_def bonded_def apartD intro!: wp_toss wp_draw)

lemma round_books:
  assumes "booked cfg 0 n s" and "c_quorum cfg \<le> u32_max"
  shows "wp (play_round F cfg) (\<lambda>_. booked cfg 0 (Suc n)) s"
  unfolding play_round_def
  by (auto simp: wp_simps set_out_def chk_u64_def intro!: wp_conseq [OF questions_book [OF _ assms(2)]] end_round_books)
    (use assms(1) in \<open>simp add: booked_def tally_def all_bonded_def\<close>)

lemma workers_join:
  assumes "booked cfg 0 0 s"
  shows "wp (for_each xs (\<lambda>_. and_then (honest_worker cfg True) push_worker)) (\<lambda>_. booked cfg 0 0) s"
    and "wp (for_each xs (\<lambda>_. push_worker (cartel_worker cfg))) (\<lambda>_. booked cfg 0 0) s"
  by (rule wp_for_each;
      use assms in \<open>auto simp: push_worker_def honest_worker_def wp_simps booked_def all_bonded_def bonded_def cartel_worker_def
        Let_def apartD intro!: wp_draw\<close>)+

lemma rounds_book:
  assumes "booked cfg 0 n s" and "c_quorum cfg \<le> u32_max"
  shows "wp (for_each xs (\<lambda>_. play_round F cfg)) (\<lambda>_. booked cfg 0 (n + length xs)) s"
  using assms(1)
proof (induction xs arbitrary: n s)
  case (Cons x xs)
  show ?case
    unfolding for_each.simps wp_seq_do
    by (rule wp_conseq [OF round_books [OF Cons.prems assms(2)]]) (use Cons.IH in fastforce)
qed (simp add: wp_ret)

lemma finish_books:
  "booked cfg k n s \<Longrightarrow> booked cfg k n (s\<lparr>s_out := (s_out s)\<lparr>honest_retained := a, honest_final := b\<rparr>\<rparr>)"
  by (simp add: booked_def all_bonded_def tally_def)

lemma run_books:
  fixes F :: "'f floats"
  assumes "run F cfg = Some r" and "c_quorum cfg \<le> u32_max"
  obtains s :: "'f sim" where "booked cfg 0 (c_rounds cfg) s" and "r = s_out s"
proof -
  have "booked cfg 0 0 (start F cfg)"
    by (simp add: booked_def start_def all_bonded_def no_outcomes_def tally_def)
  note begun = workers_join [OF this]
  note rounds = rounds_book [OF _ assms(2), of 0, unfolded add_0]
  have "wp (run_rounds F cfg) (\<lambda>_. booked cfg 0 (c_rounds cfg)) (start F cfg)"
    unfolding run_rounds_def
    by (auto simp: wp_simps intro!: wp_conseq [OF begun(1)] wp_conseq [OF workers_join(2)] wp_conseq [OF rounds] finish_books)
  moreover obtain u where "run_rounds F cfg (start F cfg) = Ok () u" and "r = s_out u"
    using assms(1) by (auto simp: run_def split: outcome.splits)
  ultimately show thesis by (intro that [of u]) (auto dest: wp_OkD)
qed

section \<open>Properties\<close>

text \<open>
  C27. An answered question of the simulation: the seats are distinct active workers, exactly a quorum
  of them; all workers are bonded at their targets again afterwards; the question is counted once, as
  resolved or refunded, and as wrong only if it was resolved; an attack needs a cartel that plays and
  holds a majority of the seats; and the money adds up: the profits of the honest workers, of the
  cartel and of the platform grow together by the amount of a resolved question plus the bribe (the
  floor of its split over the cartel's seats, paid where an attack won), less the work of the seats
  that did not lie, less \<open>sybil_cost\<close> for each banned identity. Holds for every sequence of random
  numbers and every floating-point arithmetic.
\<close>

theorem question_accounts:
  assumes "all_bonded s" and "c_quorum cfg \<le> u32_max" and "c_quorum cfg \<le> length (active_workers s)"
    and "ask_question F cfg s = Ok () u"
  shows "\<exists>seats attack captured. distinct seats \<and> length seats = c_quorum cfg \<and> set seats \<subseteq> set (active_workers s)
     \<and> answered cfg seats attack captured s u"
  using wp_OkD [OF ask_question_effect [OF assms(1,2)] assms(4)] assms(3) by simp

definition int_floats :: "int floats" where
  "int_floats = \<lparr>f_dec = (\<lambda>n k. n div 10 ^ k), f_of_int = (\<lambda>x. x), f_add = (+), f_sub = (-), f_mul = (*), f_div = (div),
     f_max = max, f_less = (<), f_to_u32 = nat\<rparr>"

definition tiny :: config where
  "tiny = default_config\<lparr>c_quorum := 3, c_honest_workers := 1, c_cartel_workers := 2, c_rounds := 2,
     c_questions_per_round := 1, c_strategy := Opportunistic\<rparr>"

definition bench :: "int sim" where
  "bench = (start int_floats tiny)\<lparr>s_workers := replicate 3 (cartel_worker tiny)\<rparr>"

lemma question_accounts_witness:
  "\<exists>u seats captured. ask_question int_floats tiny bench = Ok () u \<and> attacks (s_out u) = 1
     \<and> distinct seats \<and> length seats = 3 \<and> answered tiny seats True captured bench u"
proof -
  have "(case ask_question int_floats tiny bench of Ok _ u \<Rightarrow> attacks (s_out u) = 1 | _ \<Rightarrow> False)" by code_simp
  then obtain u where u: "ask_question int_floats tiny bench = Ok () u" "attacks (s_out u) = 1"
    by (auto split: outcome.splits)
  have "all_bonded bench" "c_quorum tiny \<le> u32_max" "c_quorum tiny \<le> length (active_workers bench)" by code_simp+
  from question_accounts [OF this u(1)] obtain seats attack captured
    where "distinct seats" "length seats = c_quorum tiny" "answered tiny seats attack captured bench u" by blast
  moreover have "attacks (s_out bench) = 0" "c_quorum tiny = 3" by code_simp+
  moreover have "attacks (s_out u) = attacks (s_out bench) + (if attack then 1 else 0)"
    using calculation(3) by (simp only: answered_def)
  ultimately show ?thesis using u by (intro exI [of _ u] exI [of _ seats] exI [of _ captured]) (cases attack; simp)
qed

lemma questions_counted:
  assumes "run F cfg = Some r" and "c_quorum cfg \<le> u32_max"
  shows "resolved r + refunded r + unserved r = demanded r \<and> wrong r \<le> resolved r
     \<and> attacks r \<le> resolved r + refunded r \<and> caught r \<le> attacks r \<and> length (platform_by_round r) = c_rounds cfg
     \<and> (c_strategy cfg = Honest_Play \<longrightarrow> attacks r = 0 \<and> caught r = 0 \<and> cartel_bans r = 0)"
  by (rule run_books [OF assms]) (auto simp: booked_def tally_def)

end
