(* ===== verification/Sim_Driver.thy ===== *)
theory Sim_Driver
  imports Agent_Rules
begin

text \<open>
  The computing part of the simulation's driver, \<open>sim/incentive/src/main.rs\<close>: the statistics of one
  table cell over several seeds, with the honest counterfactual of each, and the configuration of
  each cell of the five sweeps. The command line and the report are in theory Report. A panic of a
  run ends the program.
\<close>

section \<open>One table cell\<close>

record opts =
  o_seeds :: u64
  o_rounds :: u32
  o_out :: "string option"

record 'f summary =
  retention :: 'f
  final_honest :: 'f
  honest_slash_tax :: 'f
  honest_margin_per_answer :: 'f
  cartel_excess_per_id_per_1k :: 'f
  attacks_per_1k :: 'f
  wrong_rate :: 'f
  served_rate :: 'f
  mean_platform :: 'f
  cv_platform :: 'f

definition usdc :: "'f stat_floats \<Rightarrow> 'f \<Rightarrow> 'f" where
  "usdc F x = f_div F x (f_of_int F USDC)"

definition no_summary :: "'f stat_floats \<Rightarrow> 'f summary" where
  "no_summary F = (let zero = f_dec F 0 1 in
     \<lparr>retention = zero, final_honest = zero, honest_slash_tax = zero, honest_margin_per_answer = zero,
      cartel_excess_per_id_per_1k = zero, attacks_per_1k = zero, wrong_rate = zero, served_rate = zero,
      mean_platform = zero, cv_platform = zero\<rparr>)"

definition seeded :: "config \<Rightarrow> u64 \<Rightarrow> config" where
  "seeded cfg off = cfg\<lparr>c_seed := (c_seed cfg + off) mod 2 ^ 64\<rparr>"

text \<open>One seed's share of the sums, from the outcomes of the run and of its honest counterfactual.\<close>

definition add_outcome :: "'f stat_floats \<Rightarrow> config \<Rightarrow> outcomes \<Rightarrow> outcomes \<Rightarrow> 'f summary
    \<Rightarrow> (unit, 's, 'f summary) prog" where
  "add_outcome F cfg r honest_cf acc =
     (let num = (\<lambda>n. f_of_int F (int n)); over = f_div F; up = f_add F in
      and_then (chk_u64 (resolved r + refunded r)) (\<lambda>served.
      let resolved_k = over (num (max (resolved r) 1)) (f_dec F 1000 0);
          answers = f_mul F (num (max served 1)) (num (c_quorum cfg)) in
      and_then
        (if 0 < c_cartel_workers cfg then
           and_then (chk (cartel_pnl r - cartel_pnl honest_cf)) (\<lambda>d.
             ret (up (cartel_excess_per_id_per_1k acc)
               (over (over (usdc F (f_of_int F d)) (num (c_cartel_workers cfg))) resolved_k)))
         else ret (cartel_excess_per_id_per_1k acc)) (\<lambda>excess.
      ret \<lparr>retention = up (retention acc) (over (num (honest_retained r)) (num (max (honest_start r) 1))),
        final_honest = up (final_honest acc) (num (honest_final r)),
        honest_slash_tax = up (honest_slash_tax acc)
          (if 0 < honest_earned r then over (f_of_int F (honest_slashed r)) (f_of_int F (honest_earned r))
           else f_dec F 0 1),
        honest_margin_per_answer = up (honest_margin_per_answer acc)
          (over (usdc F (f_of_int F (honest_pnl r))) answers),
        cartel_excess_per_id_per_1k = excess,
        attacks_per_1k = up (attacks_per_1k acc) (over (num (attacks r)) resolved_k),
        wrong_rate = up (wrong_rate acc) (over (num (wrong r)) (num (max (resolved r) 1))),
        served_rate = up (served_rate acc) (over (num (resolved r)) (num (max (demanded r) 1))),
        mean_platform = up (mean_platform acc) (usdc F (platform_mean F r)),
        cv_platform = up (cv_platform acc) (platform_cv F r)\<rparr>)))"

definition play_seed :: "'f stat_floats \<Rightarrow> config \<Rightarrow> nat \<Rightarrow> 'f summary \<Rightarrow> (unit, 's, 'f summary) prog" where
  "play_seed F cfg0 s acc =
     and_then (chk_u64 (s * 7919)) (\<lambda>off.
     let cfg = seeded cfg0 off in
     and_then (unwrap (run (floats.truncate F) cfg)) (\<lambda>r.
     and_then (unwrap (run (floats.truncate F) (cfg\<lparr>c_strategy := Honest_Play\<rparr>))) (\<lambda>honest_cf.
       add_outcome F cfg r honest_cf acc)))"

definition average :: "'f stat_floats \<Rightarrow> u64 \<Rightarrow> 'f summary \<Rightarrow> 'f summary" where
  "average F seeds acc =
     (let m = (\<lambda>x. f_div F x (f_of_int F (int seeds))) in
      \<lparr>retention = m (retention acc), final_honest = m (final_honest acc),
       honest_slash_tax = m (honest_slash_tax acc), honest_margin_per_answer = m (honest_margin_per_answer acc),
       cartel_excess_per_id_per_1k = m (cartel_excess_per_id_per_1k acc),
       attacks_per_1k = m (attacks_per_1k acc), wrong_rate = m (wrong_rate acc),
       served_rate = m (served_rate acc), mean_platform = m (mean_platform acc),
       cv_platform = m (cv_platform acc)\<rparr>)"

definition summarize :: "'f stat_floats \<Rightarrow> config \<Rightarrow> u64 \<Rightarrow> (unit, 's, 'f summary) prog" where
  "summarize F cfg seeds =
     and_then (fold_prog (play_seed F cfg) [0..<seeds] (no_summary F)) (\<lambda>acc. ret (average F seeds acc))"

section \<open>The configurations of the cells\<close>

definition base_config :: "opts \<Rightarrow> config" where
  "base_config opts = default_config\<lparr>c_rounds := o_rounds opts\<rparr>"

definition with_slash :: "i128 \<Rightarrow> config \<Rightarrow> config" where
  "with_slash bps cfg = cfg\<lparr>c_params := CONTRACT\<lparr>slash_bps := bps\<rparr>\<rparr>"

definition slash_cell :: "opts \<Rightarrow> i128 \<Rightarrow> config" where
  "slash_cell opts bps = with_slash bps (base_config opts)"

definition slash_cap_cell :: "opts \<Rightarrow> i128 \<Rightarrow> config" where
  "slash_cap_cell opts bps =
     (with_slash bps (base_config opts))\<lparr>c_honest_stake := 100 * USDC, c_cartel_stake := 100 * USDC\<rparr>"

definition fee_cell :: "opts \<Rightarrow> i128 \<Rightarrow> config" where
  "fee_cell opts bps = (base_config opts)\<lparr>c_params := CONTRACT\<lparr>fee_bps := bps\<rparr>, c_cartel_workers := 0\<rparr>"

definition quorum_cell :: "opts \<Rightarrow> u32 \<Rightarrow> u32 \<Rightarrow> config" where
  "quorum_cell opts quorum cartel =
     (base_config opts)\<lparr>c_quorum := quorum, c_honest_workers := 100 - cartel, c_cartel_workers := cartel\<rparr>"

definition audit_cell :: "opts \<Rightarrow> u32 \<Rightarrow> i128 \<Rightarrow> config" where
  "audit_cell opts audit bps =
     (with_slash bps (base_config opts))\<lparr>c_audit_bps := audit, c_strategy := Opportunistic\<rparr>"

section \<open>What the tables rest on\<close>

lemma slash_at_cap:
  assumes "0 < cap" and "cap \<le> T" and "cap * 10000 \<le> T * bps"
  shows "wp (sim_slash (settled_stake T) bps cap) (\<lambda>(b, taken) _. taken = cap) s"
proof -
  have T: "0 < T" using assms(1,2) by simp
  have "0 < T * bps" using assms(1,3) by linarith
  then have b: "0 < bps" using T by (simp add: zero_less_mult_iff)
  let ?rate = "T sdiv 10000 * bps + T smod 10000 * bps sdiv 10000"
  have "T * bps = 10000 * (T div 10000 * bps) + T mod 10000 * bps"
    unfolding mult.assoc [symmetric] distrib_right [symmetric] by simp
  then have "T * bps div 10000 = T div 10000 * bps + T mod 10000 * bps div 10000" by simp
  moreover have "?rate = T div 10000 * bps + T mod 10000 * bps div 10000"
    using T b by (simp add: sdiv_nonneg smod_nonneg)
  moreover have "cap * 10000 div 10000 \<le> T * bps div 10000" by (rule zdiv_mono1 [OF assms(3)]) simp
  ultimately have "cap \<le> ?rate" by simp
  then have rate: "wp (sim_mul_bps T bps) (\<lambda>r u. cap \<le> r) s" for s
    by (simp add: sim_mul_bps_def sim_BPS_DENOM_def wp_simps Let_def)
  have sel: "sim_warming (settled_stake T) = 0" "sim_settled (settled_stake T) = T" "sim_unbonding (settled_stake T) = 0"
    by (simp_all add: settled_stake_def)
  have rest: "min (min r cap) T = cap" if "cap \<le> r" for r using that assms(2) by simp
  have "wp (let amount = min (min r cap) T in
       if amount \<le> 0 then ret (settled_stake T, 0)
       else and_then (take_bucket amount (sim_warming (settled_stake T))) (\<lambda>(w, left1).
            and_then (take_bucket left1 (sim_settled (settled_stake T))) (\<lambda>(st, left2).
            and_then (take_bucket left2 (sim_unbonding (settled_stake T))) (\<lambda>(ub, left3).
              ret (\<lparr>sim_warming = w, sim_settled = st, sim_unbonding = ub\<rparr>, amount)))))
      (\<lambda>(b, taken) _. taken = cap) s" if "cap \<le> r" for r s
    unfolding rest [OF that] Let_def using assms(1) by (simp add: wp_and_then wp_take wp_case_prod wp_ret)
  then show ?thesis
    unfolding sim_slash_def wp_and_then slashable_settled
    using T by (auto simp: wp_if wp_and_then intro!: wp_conseq [OF rate])
qed

text \<open>In the second table every slash from 25 basis points on takes the capped amount, as its note says.\<close>

lemma cap_binds:
  assumes "25 \<le> bps"
  shows "wp (sim_slash (settled_stake (c_honest_stake (slash_cap_cell opts bps))) bps (c_amount (slash_cap_cell opts bps)))
     (\<lambda>(b, taken) _. taken = c_amount (slash_cap_cell opts bps)) s"
proof (rule slash_at_cap)
  have "c_amount (slash_cap_cell opts bps) = 2500000" "c_honest_stake (slash_cap_cell opts bps) = 1000000000"
    by (simp_all add: slash_cap_cell_def with_slash_def base_config_def default_config_def USDC_def)
  then show "0 < c_amount (slash_cap_cell opts bps)" "c_amount (slash_cap_cell opts bps) \<le> c_honest_stake (slash_cap_cell opts bps)"
    "c_amount (slash_cap_cell opts bps) * 10000 \<le> c_honest_stake (slash_cap_cell opts bps) * bps"
    using assms by simp_all
qed

end
