(* ===== verification/Sim_Bounds.thy ===== *)
theory Sim_Bounds
  imports Agent_Rules Returns
begin

text \<open>
  Bounds for the simulation: every arithmetic operation of \<open>sim/incentive/src\<close> is checked, so a run could
  panic. The settlement of \<open>math.rs\<close> returns within bounds on its inputs; a configuration is \<open>sane\<close> when it
  keeps to them; and \<open>worker_fits\<close>, \<open>purse\<close>, \<open>tallies\<close> say what a number of filled seats can have made of the
  state. Theory Sim_Returns shows that no run of a sane configuration leaves them.
\<close>

section \<open>Bounds\<close>

definition MONEY :: i128 where "MONEY = 2 ^ 60"

lemma fits: "\<bar>x\<bar> \<le> 2 ^ 126 \<Longrightarrow> i128_range x"
  by (simp add: i128_range_def i128_max_def abs_le_iff)

lemma fits_nonneg: "0 \<le> x \<Longrightarrow> x \<le> 2 ^ 126 \<Longrightarrow> i128_range x"
  by (simp add: fits)

text \<open>\<open>d * n + r \<le> v\<close> for the two halves of a product of basis points.\<close>

lemma bps_halves:
  fixes v b :: int
  assumes "0 \<le> v" and "0 \<le> b" and "b \<le> 10000"
  shows "0 \<le> v div 10000 * b" "v div 10000 * b \<le> v" "0 \<le> v mod 10000 * b" "v mod 10000 * b \<le> 10000 * 10000"
    and "0 \<le> v div 10000 * b + v mod 10000 * b div 10000" "v div 10000 * b + v mod 10000 * b div 10000 \<le> v"
proof -
  have d: "0 \<le> v div 10000" "0 \<le> v mod 10000" "v mod 10000 \<le> 10000" using assms(1) by simp_all
  have m: "v div 10000 * b \<le> v div 10000 * 10000" "v mod 10000 * b \<le> v mod 10000 * 10000"
    using d assms(3) by (intro mult_left_mono; simp)+
  have v: "v div 10000 * 10000 + v mod 10000 = v" by simp
  have q: "v mod 10000 * b div 10000 \<le> v mod 10000" using m(2) by simp
  show "0 \<le> v div 10000 * b" "0 \<le> v mod 10000 * b" using d assms(2) by simp_all
  then show "0 \<le> v div 10000 * b + v mod 10000 * b div 10000" by simp
  show "v div 10000 * b \<le> v" using m(1) v d(2) by linarith
  show "v div 10000 * b + v mod 10000 * b div 10000 \<le> v" using m(1) q v by linarith
  show "v mod 10000 * b \<le> 10000 * 10000" using m(2) d(3) by linarith
qed

lemma mul_bps_returns:
  assumes "0 \<le> v" and "v \<le> 2 ^ 100" and "0 \<le> b" and "b \<le> 10000"
  shows "twp (sim_mul_bps v b) (\<lambda>r u. u = s \<and> 0 \<le> r \<and> r \<le> v) s"
proof -
  note h = bps_halves [OF assms(1,3,4)]
  have "v div 10000 * b \<le> 2 ^ 100" "v div 10000 * b + v mod 10000 * b div 10000 \<le> 2 ^ 100"
    using h(2,6) assms(2) by linarith+
  then have "i128_range (v div 10000 * b)" "i128_range (v mod 10000 * b)"
    "i128_range (v div 10000 * b + v mod 10000 * b div 10000)"
    using h by (auto intro!: fits_nonneg elim: order_trans)
  moreover have "v sdiv 10000 = v div 10000" "v smod 10000 = v mod 10000"
    "v mod 10000 * b sdiv 10000 = v mod 10000 * b div 10000"
    using assms(1) h(3) by (simp_all add: sdiv_nonneg smod_nonneg)
  ultimately show ?thesis
    using h(5,6) by (simp add: sim_mul_bps_def sim_BPS_DENOM_def twp_simps)
qed

section \<open>Settlements\<close>

lemma slashable_returns:
  "0 \<le> T \<Longrightarrow> T \<le> MONEY \<Longrightarrow> twp (slashable (settled_stake T)) (\<lambda>x u. u = s \<and> x = T) s"
  by (simp add: slashable_def settled_stake_def twp_simps fits MONEY_def)

lemma twp_take: "twp (take_bucket l b) Q s
    = (i128_range (b - min l b) \<and> i128_range (l - min l b) \<and> Q (b - min l b, l - min l b) s)"
  by (simp add: take_bucket_def twp_simps Let_def)

lemma twp_prod: "twp (case x of (a, b) \<Rightarrow> m a b) Q s = twp (m (fst x) (snd x)) Q s"
  by (simp add: case_prod_beta)

lemma sim_slash_returns:
  assumes "0 \<le> T" and "T \<le> MONEY" and "0 \<le> bps" and "bps \<le> 10000"
  shows "twp (sim_slash (settled_stake T) bps cap) (\<lambda>(b, v) u. u = s \<and> 0 \<le> v \<and> v \<le> T \<and> b = settled_stake (T - v)) s"
proof -
  have sel: "sim_warming (settled_stake T) = 0" "sim_settled (settled_stake T) = T" "sim_unbonding (settled_stake T) = 0"
    by (simp_all add: settled_stake_def)
  have T: "T \<le> 2 ^ 100" using assms(2) by (simp add: MONEY_def)
  have rest: "twp (let amount = min (min r cap) T in
       if amount \<le> 0 then ret (settled_stake T, 0)
       else and_then (take_bucket amount (sim_warming (settled_stake T))) (\<lambda>(w, left1).
            and_then (take_bucket left1 (sim_settled (settled_stake T))) (\<lambda>(st, left2).
            and_then (take_bucket left2 (sim_unbonding (settled_stake T))) (\<lambda>(ub, left3).
              ret (\<lparr>sim_warming = w, sim_settled = st, sim_unbonding = ub\<rparr>, amount)))))
      (\<lambda>(b, v) u. u = s \<and> 0 \<le> v \<and> v \<le> T \<and> b = settled_stake (T - v)) s" for r
  proof -
    define a where "a = min (min r cap) T"
    have a: "a \<le> T" by (simp add: a_def)
    show ?thesis
    proof (cases "a \<le> 0")
      case True
      then show ?thesis using assms(1) unfolding a_def [symmetric] Let_def by (simp add: twp_simps)
    next
      case False
      then have m: "min a 0 = 0" "min a T = a" "min 0 (0::int) = 0" "a - 0 = a" "a - a = 0" "(0::int) - 0 = 0" using a by simp_all
      have r: "i128_range a" "i128_range (T - a)"
        using False a assms(2) by (auto simp: MONEY_def intro!: fits_nonneg)
      show ?thesis
        unfolding a_def [symmetric] Let_def sel
        using False a r by (simp add: twp_and_then twp_take twp_prod m twp_basic settled_stake_def)
    qed
  qed
  show ?thesis
    unfolding sim_slash_def twp_and_then
    by (rule twp_conseq [OF slashable_returns [OF assms(1,2)]])
      (use assms in \<open>auto simp: twp_simps settled_stake_def [symmetric] intro!: twp_conseq [OF mul_bps_returns [OF assms(1) T assms(3,4)]] rest\<close>)
qed

lemma loser_returns:
  assumes "0 < n" and "0 \<le> T" "T \<le> MONEY" and "0 \<le> bps" "bps \<le> 10000"
    and "0 \<le> r" "r \<le> 2 ^ 120" and "0 \<le> p" "p \<le> 2 ^ 120" and "0 \<le> tt" "tt \<le> 2 ^ 120"
  shows "twp (sim_slash_loser n bps cap (settled_stake T) (done, r, p, tt)) (\<lambda>(done', r', p', tt') u. u = s
     \<and> (\<exists>v. 0 \<le> v \<and> v \<le> T \<and> done' = done @ [settled_stake (T - v)]) \<and> 0 \<le> r' \<and> r' \<le> r + MONEY
     \<and> 0 \<le> p' \<and> p' \<le> p + MONEY \<and> 0 \<le> tt' \<and> tt' \<le> tt + MONEY) s"
proof -
  let ?Q = "\<lambda>(done', r', p', tt') u. u = s
     \<and> (\<exists>v. 0 \<le> v \<and> v \<le> T \<and> done' = done @ [settled_stake (T - v)]) \<and> 0 \<le> r' \<and> r' \<le> r + MONEY
     \<and> 0 \<le> p' \<and> p' \<le> p + MONEY \<and> 0 \<le> tt' \<and> tt' \<le> tt + MONEY"
  have split: "twp (let redist_share = w sdiv n in
            and_then (chk (redist_share * n)) (\<lambda>shared.
            and_then (chk (w - shared)) (\<lambda>redist_dust.
            and_then (chk (r + redist_share)) (\<lambda>redist'.
            and_then (chk ((v - w) + redist_dust)) (\<lambda>to_platform.
            and_then (chk (p + to_platform)) (\<lambda>platform'.
            and_then (chk (tt + v)) (\<lambda>total'.
              ret (done @ [settled_stake (T - v)], redist', platform', total')))))))) ?Q s"
    if w: "0 \<le> w" "w \<le> v" and v: "0 \<le> v" "v \<le> T" for w v
  proof -
    have "0 \<le> w mod n" using assms(1) by simp
    then have le: "w div n * n \<le> w" using div_mult_mod_eq [of w n] by linarith
    have d: "0 \<le> w div n" "w div n \<le> w" "0 \<le> w div n * n" "w div n * n \<le> w" and sd: "w sdiv n = w div n"
      using w(1) assms(1) zdiv_mono2 [of w 1 n] le by (simp_all add: sdiv_nonneg pos_imp_zdiv_nonneg_iff)
    have T: "T \<le> 2 ^ 60" using assms(3) by (simp add: MONEY_def)
    have "i128_range x \<and> i128_range (w - x) \<and> i128_range (r + y) \<and> i128_range (v - w + (w - x))
        \<and> i128_range (p + (v - w + (w - x))) \<and> i128_range (tt + v)"
      if "0 \<le> x" "x \<le> w" "0 \<le> y" "y \<le> w" for x y
      using that w v T assms(6-) by (intro conjI fits_nonneg) simp_all
    from this [OF d(3,4,1,2)]
    have "i128_range (w div n * n)" "i128_range (w - w div n * n)" "i128_range (r + w div n)"
      "i128_range (v - w + (w - w div n * n))" "i128_range (p + (v - w + (w - w div n * n)))" "i128_range (tt + v)"
      by blast+
    moreover have "?Q (done @ [settled_stake (T - v)], r + y, p + (v - w + (w - x)), tt + v) s"
      if "0 \<le> x" "x \<le> w" "0 \<le> y" "y \<le> w" for x y
      unfolding case_prod_conv using that w v assms by (intro conjI exI [of _ v]) simp_all
    from this [OF d(3,4,1,2)] have "?Q (done @ [settled_stake (T - v)], r + w div n, p + (v - w + (w - w div n * n)), tt + v) s" .
    ultimately show ?thesis unfolding Let_def sd twp_and_then twp_arith twp_basic by blast
  qed
  have "T \<le> 2 ^ 100" using assms(3) by (simp add: MONEY_def)
  note portion = mul_bps_returns [where b = sim_SLASH_REDISTRIBUTE_BPS, unfolded sim_SLASH_REDISTRIBUTE_BPS_def]
  show ?thesis
    unfolding sim_slash_loser_def case_prod_conv twp_and_then sim_SLASH_REDISTRIBUTE_BPS_def
  proof (rule twp_conseq [OF sim_slash_returns [OF assms(2-5)]])
    fix x :: "sim_stake \<times> i128" and u
    assume "(\<lambda>(b, v) u. u = s \<and> 0 \<le> v \<and> v \<le> T \<and> b = settled_stake (T - v)) x u"
    then obtain v where x: "x = (settled_stake (T - v), v)" "u = s" and v: "0 \<le> v" "v \<le> T" by (cases x) auto
    have big: "v \<le> 2 ^ 100" using v(2) \<open>T \<le> 2 ^ 100\<close> by simp
    have fit: "i128_range (v - w)" if "0 \<le> w" "w \<le> v" for w
      using that big by (intro fits_nonneg) simp_all
    show "twp (case x of (loser', slashed) \<Rightarrow>
          if 0 < slashed then
            and_then (sim_mul_bps slashed 5000) (\<lambda>worker_portion.
            and_then (chk (slashed - worker_portion)) (\<lambda>platform_portion.
            let redist_share = worker_portion sdiv n in
            and_then (chk (redist_share * n)) (\<lambda>shared.
            and_then (chk (worker_portion - shared)) (\<lambda>redist_dust.
            and_then (chk (r + redist_share)) (\<lambda>redist'.
            and_then (chk (platform_portion + redist_dust)) (\<lambda>to_platform.
            and_then (chk (p + to_platform)) (\<lambda>platform'.
            and_then (chk (tt + slashed)) (\<lambda>total'.
              ret (done @ [loser'], redist', platform', total')))))))))
          else ret (done @ [loser'], r, p, tt)) ?Q u"
    proof (cases "0 < v")
      case True
      then show ?thesis
        unfolding x case_prod_conv twp_if twp_and_then [of "sim_mul_bps v 5000"]
        by simp (rule twp_conseq [OF mul_bps_returns [OF v(1) big]], simp, simp,
          elim conjE, hypsubst, unfold twp_and_then [of "chk (v - _)"] twp_arith, rule conjI [OF fit split [OF _ _ v]])
    next
      case False
      then show ?thesis
        unfolding x using v assms by (auto simp: twp_basic MONEY_def)
    qed
  qed
qed

lemma losers_return:
  assumes "0 < n" and "0 \<le> bps" "bps \<le> 10000" and "\<forall>T\<in>set Ts. 0 \<le> T \<and> T \<le> MONEY"
    and "0 \<le> r" "r \<le> (2 ^ 32 - int (length Ts)) * MONEY" and "0 \<le> p" "p \<le> (2 ^ 32 - int (length Ts)) * MONEY"
    and "0 \<le> tt" "tt \<le> (2 ^ 32 - int (length Ts)) * MONEY"
  shows "twp (fold_prog (sim_slash_loser n bps cap) (map settled_stake Ts) (done, r, p, tt)
      :: ('e, 's, sim_stake list \<times> i128 \<times> i128 \<times> i128) prog) (\<lambda>(done', r', p', tt') u. u = s
     \<and> (\<exists>vs. length vs = length Ts \<and> (\<forall>v\<in>set vs. 0 \<le> v) \<and> (\<forall>i<length Ts. vs ! i \<le> Ts ! i)
         \<and> done' = done @ map2 (\<lambda>T v. settled_stake (T - v)) Ts vs)
     \<and> 0 \<le> r' \<and> r' \<le> r + int (length Ts) * MONEY \<and> 0 \<le> p' \<and> p' \<le> p + int (length Ts) * MONEY) s"
  using assms(4-)
proof (induction Ts arbitrary: "done" r p tt s)
  case Nil
  then show ?case by (simp add: twp_basic)
next
  case (Cons T Ts)
  have small: "(2 ^ 32 - int (length (T # Ts))) * MONEY \<le> 2 ^ 120"
  proof -
    have "(2 ^ 32 - int (length (T # Ts))) * MONEY \<le> 2 ^ 32 * MONEY" by (rule mult_right_mono) (simp_all add: MONEY_def)
    then show ?thesis by (simp add: MONEY_def)
  qed
  have b: "r \<le> 2 ^ 120" "p \<le> 2 ^ 120" "tt \<le> 2 ^ 120" using Cons.prems small by linarith+
  have room: "(2 ^ 32 - int (length (T # Ts))) * MONEY + MONEY = (2 ^ 32 - int (length Ts)) * MONEY"
    by (simp add: algebra_simps)
  have T: "0 \<le> T" "T \<le> MONEY" using Cons.prems(1) by simp_all
  show ?case
    unfolding list.map fold_prog.simps twp_and_then
  proof (rule twp_conseq [OF loser_returns [OF assms(1) T assms(2,3) Cons.prems(2) b(1) Cons.prems(4) b(2) Cons.prems(6) b(3)]])
    fix x :: "sim_stake list \<times> i128 \<times> i128 \<times> i128" and u
    assume "(\<lambda>(done', r', p', tt') u. u = s
       \<and> (\<exists>v. 0 \<le> v \<and> v \<le> T \<and> done' = done @ [settled_stake (T - v)]) \<and> 0 \<le> r' \<and> r' \<le> r + MONEY
       \<and> 0 \<le> p' \<and> p' \<le> p + MONEY \<and> 0 \<le> tt' \<and> tt' \<le> tt + MONEY) x u"
    then obtain v r' p' tt' where x: "x = (done @ [settled_stake (T - v)], r', p', tt')" "u = s" and v: "0 \<le> v" "v \<le> T"
      and new: "0 \<le> r'" "r' \<le> r + MONEY" "0 \<le> p'" "p' \<le> p + MONEY" "0 \<le> tt'" "tt' \<le> tt + MONEY"
      by (cases x) auto
    have cap: "r' \<le> (2 ^ 32 - int (length Ts)) * MONEY" "p' \<le> (2 ^ 32 - int (length Ts)) * MONEY"
      "tt' \<le> (2 ^ 32 - int (length Ts)) * MONEY"
      using new Cons.prems room by linarith+
    have more: "int (length (T # Ts)) * MONEY = int (length Ts) * MONEY + MONEY" by (simp add: algebra_simps)
    have tail: "\<forall>T\<in>set Ts. 0 \<le> T \<and> T \<le> MONEY" using Cons.prems(1) by simp
    show "twp (fold_prog (sim_slash_loser n bps cap) (map settled_stake Ts) x
      :: ('e, 's, sim_stake list \<times> i128 \<times> i128 \<times> i128) prog) (\<lambda>(done', r', p', tt') u. u = s
       \<and> (\<exists>vs. length vs = length (T # Ts) \<and> (\<forall>v\<in>set vs. 0 \<le> v) \<and> (\<forall>i<length (T # Ts). vs ! i \<le> (T # Ts) ! i)
           \<and> done' = done @ map2 (\<lambda>T v. settled_stake (T - v)) (T # Ts) vs)
       \<and> 0 \<le> r' \<and> r' \<le> r + int (length (T # Ts)) * MONEY \<and> 0 \<le> p' \<and> p' \<le> p + int (length (T # Ts)) * MONEY) u"
      unfolding x more
    proof (rule twp_conseq, rule Cons.IH [OF tail new(1) cap(1) new(3) cap(2) new(5) cap(3)])
      fix y :: "sim_stake list \<times> i128 \<times> i128 \<times> i128" and z
      assume "(\<lambda>(done', r'', p'', tt') z. z = s
         \<and> (\<exists>vs. length vs = length Ts \<and> (\<forall>v\<in>set vs. 0 \<le> v) \<and> (\<forall>i<length Ts. vs ! i \<le> Ts ! i)
             \<and> done' = (done @ [settled_stake (T - v)]) @ map2 (\<lambda>T v. settled_stake (T - v)) Ts vs)
         \<and> 0 \<le> r'' \<and> r'' \<le> r' + int (length Ts) * MONEY \<and> 0 \<le> p'' \<and> p'' \<le> p' + int (length Ts) * MONEY) y z"
      then obtain vs r'' p'' t'' where y: "y = ((done @ [settled_stake (T - v)]) @ map2 (\<lambda>T v. settled_stake (T - v)) Ts vs, r'', p'', t'')"
          "z = s"
        and vs: "length vs = length Ts" "\<forall>v\<in>set vs. 0 \<le> v" "\<forall>i<length Ts. vs ! i \<le> Ts ! i"
        and rp: "0 \<le> r''" "r'' \<le> r' + int (length Ts) * MONEY" "0 \<le> p''" "p'' \<le> p' + int (length Ts) * MONEY"
        by (cases y) auto
      have "\<exists>vs'. length vs' = length (T # Ts) \<and> (\<forall>v\<in>set vs'. 0 \<le> v) \<and> (\<forall>i<length (T # Ts). vs' ! i \<le> (T # Ts) ! i)
         \<and> (done @ [settled_stake (T - v)]) @ map2 (\<lambda>T v. settled_stake (T - v)) Ts vs
           = done @ map2 (\<lambda>T v. settled_stake (T - v)) (T # Ts) vs'"
        by (rule exI [of _ "v # vs"]) (use v vs in \<open>auto simp: nth_Cons split: nat.splits\<close>)
      moreover have "r'' \<le> r + (int (length Ts) * MONEY + MONEY)" "p'' \<le> p + (int (length Ts) * MONEY + MONEY)"
        using rp new by linarith+
      ultimately show "(\<lambda>(done', r', p', tt') u. u = s
       \<and> (\<exists>vs. length vs = length (T # Ts) \<and> (\<forall>v\<in>set vs. 0 \<le> v) \<and> (\<forall>i<length (T # Ts). vs ! i \<le> (T # Ts) ! i)
           \<and> done' = done @ map2 (\<lambda>T v. settled_stake (T - v)) (T # Ts) vs)
       \<and> 0 \<le> r' \<and> r' \<le> r + (int (length Ts) * MONEY + MONEY) \<and> 0 \<le> p' \<and> p' \<le> p + (int (length Ts) * MONEY + MONEY)) y z"
        unfolding y case_prod_conv using rp(1,3) by blast
    qed
  qed
qed

lemma resolve_returns:
  assumes "0 \<le> amount" "amount \<le> MONEY" and "0 < n" and "\<forall>T\<in>set Ts. 0 \<le> T \<and> T \<le> MONEY" and "length Ts \<le> 2 ^ 32"
    and "\<forall>b\<in>{fee_bps p, slash_bps p, slash_cap_bps_of_amount p}. 0 \<le> b \<and> b \<le> 10000"
  shows "twp (sim_resolve amount n (map settled_stake Ts) p) (\<lambda>(st, ls) u. u = s
     \<and> (\<exists>vs. length vs = length Ts \<and> (\<forall>v\<in>set vs. 0 \<le> v) \<and> (\<forall>i<length Ts. vs ! i \<le> Ts ! i)
         \<and> ls = map2 (\<lambda>T v. settled_stake (T - v)) Ts vs)
     \<and> 0 \<le> share st \<and> share st \<le> MONEY \<and> 0 \<le> redistribution_share st \<and> redistribution_share st \<le> int (length Ts) * MONEY
     \<and> 0 \<le> fee st \<and> fee st \<le> MONEY \<and> 0 \<le> dust st \<and> dust st \<le> MONEY
     \<and> 0 \<le> slash_platform_take st \<and> slash_platform_take st \<le> int (length Ts) * MONEY) s"
proof -
  have bps: "0 \<le> fee_bps p" "fee_bps p \<le> 10000" "0 \<le> slash_bps p" "slash_bps p \<le> 10000"
    "0 \<le> slash_cap_bps_of_amount p" "slash_cap_bps_of_amount p \<le> 10000" using assms(6) by simp_all
  have big: "amount \<le> 2 ^ 100" using assms(2) by (simp add: MONEY_def)
  have room: "0 \<le> (2 ^ 32 - int (length Ts)) * MONEY" using assms(5) by (simp add: MONEY_def zero_le_mult_iff)
  have N: "0 < int n" using assms(3) by simp
  note losers = losers_return [OF N bps(3,4) assms(4) order.refl room order.refl room order.refl room, unfolded add_0]
  show ?thesis
    unfolding sim_resolve_def twp_seq_do twp_basic twp_and_then
  proof (rule conjI [OF assms(3)], rule twp_conseq, rule mul_bps_returns [OF assms(1) big bps(1,2)], elim conjE, hypsubst)
    fix f assume f: "0 \<le> f" "f \<le> amount"
    define pool where "pool = amount - f"
    have pl: "0 \<le> pool" "pool \<le> amount" using f by (simp_all add: pool_def)
    define sh where "sh = pool div int n"
    have "0 \<le> pool mod int n" using N by simp
    then have le: "pool div int n * int n \<le> pool" using div_mult_mod_eq [of pool "int n"] by linarith
    then have sh: "0 \<le> sh" "sh \<le> pool" "0 \<le> sh * int n" "sh * int n \<le> pool"
      using pl(1) N zdiv_mono2 [of pool 1 "int n"] by (simp_all add: sh_def pos_imp_zdiv_nonneg_iff)
    have sd: "pool sdiv int n = sh" using pl(1) N by (simp add: sh_def sdiv_nonneg)
    have fit: "i128_range x" if "0 \<le> x" "x \<le> amount" for x
      using that big by (intro fits_nonneg) simp_all
    have r: "i128_range pool" "i128_range (sh * int n)" "i128_range (pool - sh * int n)"
      using pl sh by (intro fit; linarith)+
    have pay: "0 \<le> sh \<and> sh \<le> MONEY \<and> 0 \<le> f \<and> f \<le> MONEY \<and> 0 \<le> pool - sh * int n \<and> pool - sh * int n \<le> MONEY"
      using f pl sh assms(2) by (intro conjI) linarith+
    show "twp (chk (amount - f)) (\<lambda>a. twp (let n = int n; sh = a sdiv n in and_then (chk (sh * n)) (\<lambda>shared.
        and_then (chk (a - shared)) (\<lambda>du. and_then (sim_mul_bps amount (slash_cap_bps_of_amount p)) (\<lambda>cap.
        and_then (fold_prog (sim_slash_loser n (slash_bps p) cap) (map settled_stake Ts) ([], 0, 0, 0))
        (\<lambda>(losers', redist, platform, total_sl). ret (\<lparr>fee = f, share = sh, redistribution_share = redist, dust = du,
            total_slashed = total_sl, slash_platform_take = platform\<rparr>, losers'))))))
      (\<lambda>(st, ls) u. u = s
     \<and> (\<exists>vs. length vs = length Ts \<and> (\<forall>v\<in>set vs. 0 \<le> v) \<and> (\<forall>i<length Ts. vs ! i \<le> Ts ! i)
         \<and> ls = map2 (\<lambda>T v. settled_stake (T - v)) Ts vs)
     \<and> 0 \<le> share st \<and> share st \<le> MONEY \<and> 0 \<le> redistribution_share st \<and> redistribution_share st \<le> int (length Ts) * MONEY
     \<and> 0 \<le> fee st \<and> fee st \<le> MONEY \<and> 0 \<le> dust st \<and> dust st \<le> MONEY
     \<and> 0 \<le> slash_platform_take st \<and> slash_platform_take st \<le> int (length Ts) * MONEY)) s"
      unfolding pool_def [symmetric] twp_arith twp_and_then Let_def sd
      by (intro conjI r, rule twp_conseq, rule mul_bps_returns [OF assms(1) big bps(5,6)], elim conjE, hypsubst,
          rule twp_conseq, rule losers) (use pay in \<open>auto simp: twp_basic\<close>)
  qed
qed

section \<open>Sane configurations\<close>

text \<open>
  The budget counts the seats of all questions and the workers that can join; counters are \<open>u32\<close>, so
  it has to fit one. Amounts are at most \<open>2 ^ 60\<close> stroops, more than a hundred billion USDC.
\<close>

definition budget :: "config \<Rightarrow> nat" where
  "budget cfg = c_honest_workers cfg + c_cartel_workers cfg + c_rounds cfg * (c_questions_per_round cfg * c_quorum cfg + 1)"

definition sane :: "config \<Rightarrow> bool" where
  "sane cfg \<longleftrightarrow> 0 < c_quorum cfg \<and> c_quorum cfg \<le> u32_max \<and> budget cfg \<le> u32_max \<and> 2 * c_honest_workers cfg \<le> u32_max
     \<and> c_retention_window cfg \<le> u32_max
     \<and> (\<forall>m\<in>{c_amount cfg, c_honest_stake cfg, c_cartel_stake cfg, c_answer_cost cfg, c_bribe cfg, c_sybil_cost cfg}. 0 \<le> m \<and> m \<le> MONEY)
     \<and> (\<forall>b\<in>{fee_bps (c_params cfg), slash_bps (c_params cfg), slash_cap_bps_of_amount (c_params cfg)}. 0 \<le> b \<and> b \<le> 10000)"

text \<open>No seat moves more than this, in any account.\<close>

definition seat_max :: "config \<Rightarrow> i128" where
  "seat_max cfg = (int (c_quorum cfg) + 32) * MONEY"

lemma seat_max_le: "sane cfg \<Longrightarrow> 0 \<le> seat_max cfg \<and> seat_max cfg \<le> 2 ^ 93"
  by (simp add: sane_def seat_max_def MONEY_def u32_max_def)

lemma within_fits:
  assumes "sane cfg" and "c \<le> 2 * u32_max" and "\<bar>x\<bar> \<le> int c * seat_max cfg"
  shows "i128_range x"
proof (rule fits)
  have "int c * seat_max cfg \<le> 2 ^ 33 * 2 ^ 93"
    using assms(2) seat_max_le [OF assms(1)] by (intro mult_mono) (simp_all add: u32_max_def)
  then show "\<bar>x\<bar> \<le> 2 ^ 126" using assms(3) by simp
qed

lemma within_add: "\<bar>x\<bar> \<le> int c * g \<Longrightarrow> \<bar>d\<bar> \<le> g \<Longrightarrow> \<bar>x + d\<bar> \<le> int (Suc c) * g" for x :: int
  by (simp add: distrib_right)

lemma within_mono: "\<bar>x\<bar> \<le> int c * seat_max cfg \<Longrightarrow> c \<le> d \<Longrightarrow> sane cfg \<Longrightarrow> \<bar>x\<bar> \<le> int d * seat_max cfg"
  using mult_right_mono [of "int c" "int d" "seat_max cfg"] seat_max_le [of cfg] by simp

section \<open>The state of a run\<close>

text \<open>
  \<open>worker_fits cfg c w\<close>, \<open>purse\<close> and \<open>tallies\<close>: what \<open>c\<close> filled seats can have made of a worker, of the honest
  books and of the counters. \<open>P\<close> is the sign that the floating-point numbers keep.
\<close>

definition worker_fits :: "config \<Rightarrow> nat \<Rightarrow> worker \<Rightarrow> bool" where
  "worker_fits cfg c w \<longleftrightarrow> bonded w \<and> 0 \<le> w_target_stake w \<and> w_target_stake w \<le> MONEY \<and> 0 \<le> w_cost w \<and> w_cost w \<le> 20 * MONEY
     \<and> \<bar>w_window_pnl w\<bar> \<le> int c * seat_max cfg \<and> w_window_n w \<le> c_retention_window cfg - 1"

definition purse :: "('f \<Rightarrow> bool) \<Rightarrow> config \<Rightarrow> nat \<Rightarrow> nat \<Rightarrow> 'f sim \<Rightarrow> bool" where
  "purse P cfg c l s \<longleftrightarrow> (\<forall>w\<in>set (s_workers s). worker_fits cfg c w) \<and> length (s_workers s) \<le> l
     \<and> \<bar>honest_earned (s_out s)\<bar> \<le> int c * seat_max cfg \<and> \<bar>honest_slashed (s_out s)\<bar> \<le> int c * seat_max cfg
     \<and> \<bar>honest_pnl (s_out s)\<bar> \<le> int c * seat_max cfg \<and> \<bar>s_honest_margin s\<bar> \<le> int c * seat_max cfg \<and> P (s_wrong_ema s)"

text \<open>The counters, in the order in which a question moves them on.\<close>

definition tallies :: "config \<Rightarrow> nat \<Rightarrow> nat \<Rightarrow> nat \<Rightarrow> nat \<Rightarrow> nat \<Rightarrow> 'f sim \<Rightarrow> bool" where
  "tallies cfg a b c d e s \<longleftrightarrow> attacks (s_out s) \<le> a \<and> caught (s_out s) \<le> b
     \<and> resolved (s_out s) \<le> c \<and> refunded (s_out s) \<le> c \<and> wrong (s_out s) \<le> c \<and> s_round_resolved s \<le> c \<and> s_round_wrong s \<le> c
     \<and> \<bar>s_platform s\<bar> \<le> int c * seat_max cfg
     \<and> unserved (s_out s) \<le> d \<and> cartel_bans (s_out s) \<le> d \<and> \<bar>cartel_pnl (s_out s)\<bar> \<le> int d * seat_max cfg
     \<and> demanded (s_out s) \<le> e"

definition roomy :: "('f \<Rightarrow> bool) \<Rightarrow> config \<Rightarrow> nat \<Rightarrow> nat \<Rightarrow> 'f sim \<Rightarrow> bool" where
  "roomy P cfg c k s \<longleftrightarrow> purse P cfg c c s \<and> tallies cfg c c c c (c + k) s"

lemma worker_fits_mono: "worker_fits cfg c w \<Longrightarrow> c \<le> d \<Longrightarrow> sane cfg \<Longrightarrow> worker_fits cfg d w"
  using within_mono [of "w_window_pnl w" c cfg d] by (simp add: worker_fits_def)

lemma purse_mono: "purse P cfg c l s \<Longrightarrow> c \<le> d \<Longrightarrow> l \<le> l' \<Longrightarrow> sane cfg \<Longrightarrow> purse P cfg d l' s"
  unfolding purse_def by (auto intro: worker_fits_mono within_mono)

lemma tallies_mono:
  "tallies cfg a b c d e s \<Longrightarrow> sane cfg \<Longrightarrow> a \<le> a' \<Longrightarrow> b \<le> b' \<Longrightarrow> c \<le> c' \<Longrightarrow> d \<le> d' \<Longrightarrow> e \<le> e' \<Longrightarrow> tallies cfg a' b' c' d' e' s"
  unfolding tallies_def by (auto intro: within_mono)

lemma apart_room:
  assumes "apart s u"
  shows "purse P cfg c l u = purse P cfg c l s" "tallies cfg a b c d e u = tallies cfg a b c d e s"
  unfolding purse_def tallies_def using apartD [OF assms] by simp_all

section \<open>Draws\<close>

lemma draw_returns: "twp (draw n) (\<lambda>k u. apart s u \<and> k < 2 ^ 64 \<and> (0 < n \<longrightarrow> k < unat n)) s"
proof (cases "below n (s_rng s)")
  case (Pair k r)
  then have "unat k < unat n" if "0 < n" using below_less [OF that, of "s_rng s"] by (simp add: word_less_nat_alt)
  moreover have "unat k < 2 ^ 64" using unsigned_less [of k] by simp
  ultimately show ?thesis using Pair by (auto simp: draw_def twp_simps apart_def)
qed

lemma toss_returns: "twp (toss n) (\<lambda>_ u. apart s u) s"
  by (auto simp: toss_def twp_simps apart_def split: prod.split)

lemma seats_return:
  assumes "q \<le> length active" and "length active \<le> u32_max"
  shows "twp (draw_seats q active) (\<lambda>seats u. apart s u \<and> length seats = q) s"
proof -
  have "twp (fold_prog draw_seat [0..<q] active) (\<lambda>a u. apart s u \<and> length a = length active \<and> set ([] :: nat list) \<subseteq> {..<q}) s"
  proof (rule twp_fold [where I = "\<lambda>is a u. apart s u \<and> length a = length active \<and> set is \<subseteq> {..<q}"])
    fix i :: nat and "is" :: "nat list" and a :: "nat list" and u
    assume h: "apart s u \<and> length a = length active \<and> set (i # is) \<subseteq> {..<q}"
    then have i: "i < length a" using assms(1) by auto
    have "length a - i < 2 ^ 64" using h assms(2) by (simp add: u32_max_def)
    then have n: "unat (of_nat (length a - i) :: 64 word) = length a - i" by (simp add: unat_of_nat take_bit_nat_eq_self)
    then have "(0 :: 64 word) < of_nat (length a - i)" using i by (simp add: word_less_nat_alt)
    then show "twp (draw_seat i a) (\<lambda>a u. apart s u \<and> length a = length active \<and> set is \<subseteq> {..<q}) u"
      unfolding draw_seat_def twp_and_then
      by (intro twp_conseq [OF draw_returns]) (use h n i apart_trans in \<open>auto simp: twp_simps swap_def\<close>)
  qed (use assms in auto)
  then show ?thesis
    unfolding draw_seats_def twp_and_then by (rule twp_conseq) (use assms in \<open>auto simp: twp_basic\<close>)
qed

lemma votes_return: "twp (fold_prog (cast_vote cfg attack) seats vs) (\<lambda>votes u. apart s u \<and> length votes = length vs + length seats) s"
proof (induction seats arbitrary: vs s)
  case (Cons i seats)
  have one: "twp (cast_vote cfg attack i vs) (\<lambda>v u. apart s u \<and> length v = Suc (length vs)) s"
    unfolding cast_vote_def by (auto simp: twp_simps intro!: twp_conseq [OF toss_returns])
  show ?case
    unfolding fold_prog.simps twp_and_then
    by (rule twp_conseq [OF one], elim conjE, rule twp_conseq [OF Cons.IH]) (auto intro: apart_trans)
qed (simp add: twp_basic)

lemma judge_returns:
  assumes "length votes = c_quorum cfg" and "c_quorum cfg \<le> u32_max"
  shows "twp (judge cfg votes) (\<lambda>v u. apart s u \<and> (\<not> v_refund v \<longrightarrow> 0 < v_winner_count v)) s"
proof -
  have "length (filter id votes) \<le> c_quorum cfg" using length_filter_le [of id votes] assms(1) by simp
  then have c: "as_u32 (length (filter id votes)) \<le> c_quorum cfg"
    unfolding as_u32_def by (rule order_trans [OF mod_less_eq_dividend])
  have "twp (judge cfg votes) (\<lambda>_ _. True) s"
    unfolding judge_def twp_seq_do Let_def twp_basic twp_and_then
    using c by (auto simp: twp_basic intro!: twp_conseq [OF toss_returns])
  then show ?thesis by (rule twp_conseq [OF twp_with [OF _ judge_effect [OF assms]]]) blast
qed

lemma decide_returns: "twp (decide F st) (\<lambda>_ u. apart s u) s"
  by (auto simp: decide_def twp_simps split: strategy.split intro!: twp_conseq [OF toss_returns])

end
