(* ===== verification/Sim_Returns.thy ===== *)
theory Sim_Returns
  imports Sim_Bounds
begin

text \<open>
  The simulation returns: a run of a configuration within wide bounds (\<open>sane\<close>) never panics, whatever its
  random numbers. The defaults and all cells of the report are within them for millions of rounds. Of
  the floating-point numbers only their signs matter (\<open>signed_floats\<close>).
\<close>

section \<open>The verdict\<close>

text \<open>What a settlement pays each winner, and what it leaves of the losers' stakes.\<close>

definition settlement_fits :: "config \<Rightarrow> i128 list \<Rightarrow> settlement \<Rightarrow> sim_stake list \<Rightarrow> bool" where
  "settlement_fits cfg Ts st ls \<longleftrightarrow> 0 \<le> share st + redistribution_share st
     \<and> share st + redistribution_share st \<le> (int (c_quorum cfg) + 1) * MONEY
     \<and> (\<exists>vs. length vs = length Ts \<and> (\<forall>v\<in>set vs. 0 \<le> v) \<and> (\<forall>i<length Ts. vs ! i \<le> Ts ! i)
         \<and> ls = map2 (\<lambda>T v. settled_stake (T - v)) Ts vs)"

lemma verdict_returns:
  fixes s :: "'f sim"
  assumes "sane cfg" and "purse P cfg c l s" and "tallies cfg a b c d e s" and "Suc c \<le> u32_max"
    and "\<not> v_refund v \<Longrightarrow> 0 < v_winner_count v"
    and "\<forall>(i, vote)\<in>set bs. i < length (s_workers s)" and "length bs = c_quorum cfg"
  shows "twp (settle_verdict cfg v bs) (\<lambda>(st, ls) u. s_workers u = s_workers s \<and> purse P cfg c l u
     \<and> tallies cfg a b (Suc c) d e u \<and> (\<not> v_refund v \<longrightarrow> settlement_fits cfg (targets s v bs) st ls)) s"
proof -
  note t = assms(3) [unfolded tallies_def]
  have small: "n \<le> c \<Longrightarrow> Suc n < 2 ^ 64" for n using assms(4) by (simp add: u32_max_def)
  show ?thesis
  proof (cases "v_refund v")
    case True
    have "tallies cfg a b (Suc c) d e (s\<lparr>s_out := (s_out s)\<lparr>refunded := Suc (refunded (s_out s))\<rparr>\<rparr>)"
      using t within_mono [OF _ _ assms(1), of "s_platform s" c "Suc c"] by (simp add: tallies_def)
    moreover have "purse P cfg c l (s\<lparr>s_out := (s_out s)\<lparr>refunded := Suc (refunded (s_out s))\<rparr>\<rparr>)"
      using assms(2) by (simp add: purse_def)
    ultimately show ?thesis
      using True t small [of "refunded (s_out s)"] by (simp add: settle_verdict_def set_out_def chk_u64_def twp_simps)
  next
    case False
    define Ts where "Ts = targets s v bs"
    have w: "worker_fits cfg c (s_workers s ! i)" if "(i, vote) \<in> set bs" for i vote
      using that assms(2,6) by (force simp: purse_def)
    have Ts: "\<forall>T\<in>set Ts. 0 \<le> T \<and> T \<le> MONEY"
      using w by (fastforce simp: Ts_def targets_def worker_fits_def)
    have losers: "loser_stakes (s_workers s) v bs = map settled_stake Ts"
      using w by (fastforce simp: Ts_def targets_def loser_stakes_def lost_def worker_fits_def bonded_def)
    have len: "length Ts \<le> c_quorum cfg" using length_filter_le [of "lost v" bs] assms(7) by (simp add: Ts_def targets_def)
    have q: "c_quorum cfg \<le> u32_max" using assms(1) by (simp add: sane_def)
    have len32: "length Ts \<le> 2 ^ 32" using len q by (simp add: u32_max_def)
    have cfg: "0 \<le> c_amount cfg" "c_amount cfg \<le> MONEY"
      "\<forall>b\<in>{fee_bps (c_params cfg), slash_bps (c_params cfg), slash_cap_bps_of_amount (c_params cfg)}. 0 \<le> b \<and> b \<le> 10000"
      using assms(1) by (simp_all add: sane_def)
    note resolve = resolve_returns [OF cfg(1,2) assms(5) [OF False] Ts len32 cfg(3)]
    have lenM: "int (length Ts) * MONEY \<le> int (c_quorum cfg) * MONEY" using len by (simp add: MONEY_def)
    have rest: "twp (and_then (settlement_platform_take st) (\<lambda>platform_take.
        and_then (gets s_platform) (\<lambda>p. and_then (chk (p + platform_take)) (\<lambda>p'.
        and_then (gets (\<lambda>s. resolved (s_out s))) (\<lambda>n. and_then (chk_u64 (n + 1)) (\<lambda>n'.
        and_then (gets s_round_resolved) (\<lambda>m. and_then (chk_u32 (m + 1)) (\<lambda>m'.
        seq_do (block [
          modify (\<lambda>s. s\<lparr>s_platform := p'\<rparr>),
          set_out (\<lambda>r. r\<lparr>resolved := n'\<rparr>),
          modify (\<lambda>s. s\<lparr>s_round_resolved := m'\<rparr>),
          (if v_winners_correct v then ret () else
             and_then (gets (\<lambda>s. wrong (s_out s))) (\<lambda>x. and_then (chk_u64 (x + 1)) (\<lambda>x'.
             and_then (gets s_round_wrong) (\<lambda>y. and_then (chk_u32 (y + 1)) (\<lambda>y'. block [
               set_out (\<lambda>r. r\<lparr>wrong := x'\<rparr>),
               modify (\<lambda>s. s\<lparr>s_round_wrong := y'\<rparr>)])))))])
        (ret (st, ls :: sim_stake list)))))))))) (\<lambda>(st, ls) u. s_workers u = s_workers s \<and> purse P cfg c l u
           \<and> tallies cfg a b (Suc c) d e u \<and> settlement_fits cfg Ts st ls) s"
      if st: "settlement_fits cfg Ts st ls" "0 \<le> fee st" "fee st \<le> MONEY" "0 \<le> dust st" "dust st \<le> MONEY"
        "0 \<le> slash_platform_take st" "slash_platform_take st \<le> int (c_quorum cfg) * MONEY" for st ls
    proof -
      define k where "k = fee st + dust st + slash_platform_take st"
      have k: "0 \<le> k" "k \<le> seat_max cfg" "fee st + dust st \<le> 2 * MONEY"
        using st by (simp_all add: k_def seat_max_def distrib_right)
      have fk: "i128_range (fee st + dust st)" "i128_range k"
        using k st(2,4) seat_max_le [OF assms(1)] by (auto intro!: fits_nonneg simp: MONEY_def)
      have "\<bar>s_platform s\<bar> \<le> int c * seat_max cfg" using t by blast
      then have p: "\<bar>s_platform s + k\<bar> \<le> int (Suc c) * seat_max cfg" by (rule within_add) (use k in simp)
      have pr: "i128_range (s_platform s + k)" by (rule within_fits [OF assms(1) _ p]) (use assms(4) in simp)
      have u32: "n \<le> c \<Longrightarrow> Suc n \<le> u32_max" for n using assms(4) by simp
      show ?thesis
        using t st(1) fk pr p small u32 assms(2)
        unfolding settlement_platform_take_def k_def [symmetric]
        by (simp add: twp_simps set_out_def chk_u64_def k_def [symmetric] tallies_def purse_def)
    qed
    have known: "(\<not> v_refund v \<longrightarrow> B) = B" for B using False by simp
    show ?thesis
      unfolding settle_verdict_def known Ts_def [symmetric] if_not_P [OF False] twp_and_then [of "gets (\<lambda>s. loser_stakes (s_workers s) v bs)"]
        twp_basic losers twp_and_then [of "sim_resolve _ _ _ _"]
    proof (rule twp_conseq, rule resolve)
      fix x :: "settlement \<times> sim_stake list" and t :: "'f sim"
      assume x: "(\<lambda>(st, ls) u. u = s
         \<and> (\<exists>vs. length vs = length Ts \<and> (\<forall>v\<in>set vs. 0 \<le> v) \<and> (\<forall>i<length Ts. vs ! i \<le> Ts ! i)
             \<and> ls = map2 (\<lambda>T v. settled_stake (T - v)) Ts vs)
         \<and> 0 \<le> share st \<and> share st \<le> MONEY \<and> 0 \<le> redistribution_share st \<and> redistribution_share st \<le> int (length Ts) * MONEY
         \<and> 0 \<le> fee st \<and> fee st \<le> MONEY \<and> 0 \<le> dust st \<and> dust st \<le> MONEY
         \<and> 0 \<le> slash_platform_take st \<and> slash_platform_take st \<le> int (length Ts) * MONEY) x t"
      obtain st ls where st: "x = (st, ls)" by (cases x)
      note x = x [unfolded st case_prod_conv]
      have "settlement_fits cfg Ts st ls"
        unfolding settlement_fits_def
      proof (intro conjI)
        show "share st + redistribution_share st \<le> (int (c_quorum cfg) + 1) * MONEY"
          using x lenM unfolding distrib_right by linarith
      qed (use x in linarith, use x in blast)
      moreover have "slash_platform_take st \<le> int (c_quorum cfg) * MONEY" using x lenM by linarith
      ultimately show "twp (case x of (st, losers') \<Rightarrow> and_then (settlement_platform_take st) (\<lambda>platform_take.
        and_then (gets s_platform) (\<lambda>p. and_then (chk (p + platform_take)) (\<lambda>p'.
        and_then (gets (\<lambda>s. resolved (s_out s))) (\<lambda>n. and_then (chk_u64 (n + 1)) (\<lambda>n'.
        and_then (gets s_round_resolved) (\<lambda>m. and_then (chk_u32 (m + 1)) (\<lambda>m'.
        seq_do (block [
          modify (\<lambda>s. s\<lparr>s_platform := p'\<rparr>),
          set_out (\<lambda>r. r\<lparr>resolved := n'\<rparr>),
          modify (\<lambda>s. s\<lparr>s_round_resolved := m'\<rparr>),
          (if v_winners_correct v then ret () else
             and_then (gets (\<lambda>s. wrong (s_out s))) (\<lambda>x. and_then (chk_u64 (x + 1)) (\<lambda>x'.
             and_then (gets s_round_wrong) (\<lambda>y. and_then (chk_u32 (y + 1)) (\<lambda>y'. block [
               set_out (\<lambda>r. r\<lparr>wrong := x'\<rparr>),
               modify (\<lambda>s. s\<lparr>s_round_wrong := y'\<rparr>)])))))])
        (ret (st, losers'))))))))))
        (\<lambda>(st, ls) u. s_workers u = s_workers s \<and> purse P cfg c l u
           \<and> tallies cfg a b (Suc c) d e u \<and> settlement_fits cfg Ts st ls) t"
        unfolding st case_prod_conv using x by (elim conjE) (simp only:, rule rest, simp_all only:)
    qed
  qed
qed

section \<open>The seats\<close>

lemma seat_result_returns:
  fixes s :: "'f sim"
  assumes "worker_fits cfg c w" and "sane cfg"
    and "\<not> v_refund v \<Longrightarrow> 0 \<le> share st + redistribution_share st
      \<and> share st + redistribution_share st \<le> (int (c_quorum cfg) + 1) * MONEY"
    and "\<not> v_refund v \<Longrightarrow> vote \<noteq> v_winners_correct v \<Longrightarrow>
      li < length ls \<and> (\<exists>x. 0 \<le> x \<and> x \<le> w_target_stake w \<and> ls ! li = settled_stake (w_target_stake w - x))"
  shows "twp (seat_result v st ls vote li w) (\<lambda>(w', earned, taken, li') u. u = s \<and> w' = w \<and> 0 \<le> earned
     \<and> earned \<le> (int (c_quorum cfg) + 1) * MONEY \<and> 0 \<le> taken \<and> taken \<le> MONEY \<and> li' = index_after v vote li) s"
proof -
  have w: "bonded w" "0 \<le> w_target_stake w" "w_target_stake w \<le> MONEY" using assms(1) by (simp_all add: worker_fits_def)
  consider "v_refund v" | "\<not> v_refund v" "vote = v_winners_correct v" | "\<not> v_refund v" "vote \<noteq> v_winners_correct v" by blast
  then show ?thesis
  proof cases
    case 1
    then show ?thesis by (simp add: seat_result_def twp_basic index_after_def MONEY_def)
  next
    case 2
    have "(int (c_quorum cfg) + 1) * MONEY \<le> 2 ^ 126" using assms(2) by (simp add: sane_def u32_max_def MONEY_def)
    then have "i128_range (share st + redistribution_share st)" using assms(3) [OF 2(1)] by (intro fits_nonneg) linarith+
    then show ?thesis
      using 2 assms(3) [OF 2(1)] by (simp add: seat_result_def twp_basic twp_and_then twp_arith index_after_def MONEY_def)
  next
    case 3
    then obtain x where x: "li < length ls" "0 \<le> x" "x \<le> w_target_stake w" "ls ! li = settled_stake (w_target_stake w - x)"
      using assms(4) by blast
    define T where "T = w_target_stake w"
    have T: "0 \<le> T" "T \<le> MONEY" "0 \<le> x" "x \<le> T" using w x by (simp_all add: T_def)
    have stake: "w_stake w = settled_stake T" using w(1) by (simp add: bonded_def T_def)
    have same: "w\<lparr>w_stake := (settled_stake (T - x))\<lparr>sim_settled := T\<rparr>\<rparr> = w" "x \<le> 0 \<Longrightarrow> w\<lparr>w_stake := settled_stake (T - x)\<rparr> = w"
      using stake T(3) by (simp_all add: settled_stake_def)
    have same0: "w\<lparr>w_stake := settled_stake T\<rparr> = w" using stake by simp
    have fit: "i128_range y" if "0 \<le> y" "y \<le> T" for y
      using that T(2) by (intro fits_nonneg) (simp_all add: MONEY_def)
    have slash: "twp (slashable (settled_stake y)) Q u" if "0 \<le> y" "y \<le> T" "Q y u" for y Q and u :: "'f sim"
      using that fit [OF that(1,2)] by (simp add: slashable_def settled_stake_def twp_simps)
    have set: "sim_settled (settled_stake y) = y" for y by (simp add: settled_stake_def)
    show ?thesis
      unfolding seat_result_def Let_def twp_seq_do twp_if twp_basic twp_and_then x(4) stake T_def [symmetric]
      using 3 x(1) T fit [of T] fit [of x]
      by (auto simp: twp_simps set index_after_def same same0 MONEY_def intro!: slash)
  qed
qed

lemma worker_fits_step:
  assumes "worker_fits cfg c w" and "\<bar>pnl\<bar> \<le> seat_max cfg" and "sane cfg"
  shows "worker_fits cfg (Suc c) (if c_retention_window cfg \<le> Suc (w_window_n w)
      then w\<lparr>w_active := act, w_window_pnl := 0, w_window_n := 0\<rparr>
      else w\<lparr>w_window_pnl := w_window_pnl w + pnl, w_window_n := Suc (w_window_n w)\<rparr>)"
  using assms within_add [of "w_window_pnl w" c "seat_max cfg" pnl] seat_max_le [OF assms(3)]
  by (auto simp: worker_fits_def bonded_def)

lemma settle_seat_returns:
  fixes u :: "'f sim"
  assumes "sane cfg" and "purse P cfg c l u" and "Suc c \<le> u32_max" and "Suc j \<le> u32_max"
    and "i < length (s_workers u)" and "\<bar>q\<bar> \<le> int j * seat_max cfg" and "n \<le> j" and "0 \<le> b" "b \<le> MONEY"
    and pay: "\<not> v_refund v \<Longrightarrow> 0 \<le> share st + redistribution_share st
      \<and> share st + redistribution_share st \<le> (int (c_quorum cfg) + 1) * MONEY"
    and lose: "\<not> v_refund v \<Longrightarrow> vote \<noteq> v_winners_correct v \<Longrightarrow> li < length ls
      \<and> (\<exists>x. 0 \<le> x \<and> x \<le> w_target_stake (s_workers u ! i) \<and> ls ! li = settled_stake (w_target_stake (s_workers u ! i) - x))"
  shows "twp (settle_seat cfg attack v st ls b (i, vote) (q, n, li)) (\<lambda>(q', n', li') z. purse P cfg (Suc c) l z
     \<and> (\<forall>a b c d e. tallies cfg a b c d e z = tallies cfg a b c d e u)
     \<and> map w_target_stake (s_workers z) = map w_target_stake (s_workers u)
     \<and> \<bar>q'\<bar> \<le> int (Suc j) * seat_max cfg \<and> n' \<le> Suc j \<and> li' = index_after v vote li) u"
proof -
  define w where "w = s_workers u ! i"
  note pu = assms(2) [unfolded purse_def]
  have w: "worker_fits cfg c w" using pu assms(5) by (simp add: w_def)
  have cost: "0 \<le> w_cost w" "w_cost w \<le> 20 * MONEY" using w by (simp_all add: worker_fits_def)
  have G: "seat_max cfg = (int (c_quorum cfg) + 1) * MONEY + 31 * MONEY" by (simp add: seat_max_def algebra_simps)
  have M: "0 < MONEY" by (simp add: MONEY_def)
  have one: "i128_range x" if "\<bar>x\<bar> \<le> seat_max cfg" for x
    by (rule within_fits [OF assms(1), of 1]) (use that in \<open>simp_all add: u32_max_def\<close>)
  have more: "i128_range (x + y)" "\<bar>x + y\<bar> \<le> int (Suc m) * seat_max cfg"
    if "\<bar>x\<bar> \<le> int m * seat_max cfg" "\<bar>y\<bar> \<le> seat_max cfg" "Suc m \<le> u32_max" for x y m
    using within_add [OF that(1,2)] within_fits [OF assms(1), of "Suc m" "x + y"] that(3) by simp_all
  have sybil: "0 \<le> c_sybil_cost cfg" "c_sybil_cost cfg \<le> MONEY" using assms(1) by (simp_all add: sane_def)
  have put: "purse P cfg (Suc c) l (z\<lparr>s_workers := (s_workers z)[i := w2]\<rparr>)"
    if "purse P cfg (Suc c) l z" "worker_fits cfg (Suc c) w2" for z w2
    using that set_update_subset_insert [of "s_workers z" i w2] by (auto simp: purse_def)
  have targets: "map w_target_stake ((s_workers z)[i := w2]) = map w_target_stake (s_workers u)"
    if "s_workers z = s_workers u" "w_target_stake w2 = w_target_stake w" for z :: "'f sim" and w2
    using that assms(5) by (simp add: map_update w_def) (metis length_map list_update_id nth_map)
  let ?Q = "\<lambda>(q', n', li') z. purse P cfg (Suc c) l z
     \<and> (\<forall>a b c d e. tallies cfg a b c d e z = tallies cfg a b c d e u)
     \<and> map w_target_stake (s_workers z) = map w_target_stake (s_workers u)
     \<and> \<bar>q'\<bar> \<le> int (Suc j) * seat_max cfg \<and> n' \<le> Suc j \<and> li' = index_after v vote li"
  have honest: "twp (and_then (book_honest cfg w pnl earned taken) (\<lambda>w2. ret (w2, q, n))) (\<lambda>(w2, q', n').
      twp (seq_do (modify (\<lambda>s. s\<lparr>s_workers := (s_workers s)[i := w2]\<rparr>)) (ret (q', n', index_after v vote li))) ?Q) u"
    if "\<bar>pnl\<bar> \<le> seat_max cfg" "\<bar>earned\<bar> \<le> seat_max cfg" "\<bar>taken\<bar> \<le> seat_max cfg" for pnl earned taken
  proof -
    have win: "Suc (w_window_n w) \<le> u32_max" using w assms(1) by (auto simp: worker_fits_def sane_def u32_max_def)
    have wp: "\<bar>w_window_pnl w\<bar> \<le> int c * seat_max cfg" using w by (simp add: worker_fits_def)
    note step = worker_fits_step [OF w that(1) assms(1), of "w_active w \<and> \<not> w_window_pnl w + pnl < 0"]
    have acc: "\<bar>q\<bar> \<le> int (Suc j) * seat_max cfg" using within_mono [OF assms(6) _ assms(1), of "Suc j"] by simp
    have rich: "purse P cfg (Suc c) l (u\<lparr>s_out := (s_out u)\<lparr>honest_earned := honest_earned (s_out u) + earned,
        honest_slashed := honest_slashed (s_out u) + taken, honest_pnl := honest_pnl (s_out u) + pnl\<rparr>,
        s_honest_margin := s_honest_margin u + pnl\<rparr>)"
      using pu more(2) [OF _ _ assms(3)] that worker_fits_mono [OF _ _ assms(1), of c _ "Suc c"] by (simp add: purse_def)
    show ?thesis
      using pu more(1) [OF _ _ assms(3)] that win wp put [OF rich step] acc assms(7)
      unfolding book_honest_def twp_and_then twp_seq_do
      by (simp add: twp_simps set_out_def chk_u64_def tallies_def targets split del: if_split) (simp add: targets)
  qed
  have cartel: "twp (book_cartel cfg b banned w pnl (q, n)) (\<lambda>(w2, q', n').
      twp (seq_do (modify (\<lambda>s. s\<lparr>s_workers := (s_workers s)[i := w2]\<rparr>)) (ret (q', n', index_after v vote li))) ?Q) u"
    if "\<bar>pnl\<bar> + 2 * MONEY \<le> seat_max cfg" for pnl banned
  proof -
    have fitw: "worker_fits cfg (Suc c) w" "worker_fits cfg (Suc c) (w\<lparr>w_active := False\<rparr>)"
      using worker_fits_mono [OF w _ assms(1), of "Suc c"] by (simp_all add: worker_fits_def bonded_def)
    have rich: "purse P cfg (Suc c) l u" by (rule purse_mono [OF assms(2) _ _ assms(1)]) simp_all
    have d: "\<bar>pnl + b\<bar> \<le> seat_max cfg" "\<bar>pnl + b - c_sybil_cost cfg\<bar> \<le> seat_max cfg"
      using that assms(8,9) sybil by linarith+
    have banned: "Suc n \<le> u32_max" using assms(4,7) by simp
    show ?thesis
      using one [OF d(1)] one [OF d(2)] more [OF assms(6) d(1) assms(4)] more [OF assms(6) d(2) assms(4)] banned assms(7)
        put [OF rich fitw(1)] put [OF rich fitw(2)]
      unfolding book_cartel_def case_prod_conv
      by (auto simp: twp_simps tallies_def targets)
  qed
  have net: "\<bar>(if lied then 0 else - w_cost w) + (earned - taken)\<bar> + 2 * MONEY \<le> seat_max cfg"
    if "0 \<le> earned" "earned \<le> (int (c_quorum cfg) + 1) * MONEY" "0 \<le> taken" "taken \<le> MONEY" for lied earned taken
    using that cost G M by (auto simp: abs_le_iff abs_if)
  have result: "twp (seat_result v st ls vote li w) (\<lambda>(w', earned, taken, li') z. z = u \<and> w' = w \<and> 0 \<le> earned
     \<and> earned \<le> (int (c_quorum cfg) + 1) * MONEY \<and> 0 \<le> taken \<and> taken \<le> MONEY \<and> li' = index_after v vote li) u"
    by (rule seat_result_returns [OF w assms(1)]; use pay lose in \<open>simp add: w_def\<close>)
  have tail: "twp (case x of (w1, earned, taken, li') \<Rightarrow> and_then (chk (earned - taken)) (\<lambda>net.
      and_then (chk (pnl0 + net)) (\<lambda>pnl. and_then
        (case w_kind w1 of
           Honest \<Rightarrow> and_then (book_honest cfg w1 pnl earned taken) (\<lambda>w2. ret (w2, q, n))
         | Cartel \<Rightarrow> book_cartel cfg b (lied \<and> v_audited v) w1 pnl (q, n))
        (\<lambda>(w2, q_pnl', bans').
      seq_do (modify (\<lambda>s. s\<lparr>s_workers := (s_workers s)[i := w2]\<rparr>)) (ret (q_pnl', bans', li')))))) ?Q z"
    if pnl0: "pnl0 = (if lied then 0 else - w_cost w)"
      and x: "(\<lambda>(w', earned, taken, li') z. z = u \<and> w' = w \<and> 0 \<le> earned
         \<and> earned \<le> (int (c_quorum cfg) + 1) * MONEY \<and> 0 \<le> taken \<and> taken \<le> MONEY \<and> li' = index_after v vote li) x z"
    for x z pnl0 lied
  proof -
    obtain earned taken where e: "x = (w, earned, taken, index_after v vote li)" "z = u" "0 \<le> earned"
        "earned \<le> (int (c_quorum cfg) + 1) * MONEY" "0 \<le> taken" "taken \<le> MONEY"
      using x by (cases x) auto
    define pnl where "pnl = pnl0 + (earned - taken)"
    have pnl: "\<bar>pnl\<bar> + 2 * MONEY \<le> seat_max cfg" using net [OF e(3-6), of lied] by (simp add: pnl_def pnl0)
    have r: "\<bar>earned\<bar> \<le> seat_max cfg" "\<bar>taken\<bar> \<le> seat_max cfg" "\<bar>pnl\<bar> \<le> seat_max cfg" "\<bar>earned - taken\<bar> \<le> seat_max cfg"
      using e(3-6) pnl G M by (auto simp: abs_le_iff)
    show ?thesis
      unfolding e(1,2) case_prod_conv twp_and_then [of "chk _"] twp_arith pnl_def [symmetric] twp_and_then [of "case_kind _ _ _"]
    proof (intro conjI one r(4) r(3), cases "w_kind w")
      case Honest
      show "twp (case w_kind w of
           Honest \<Rightarrow> and_then (book_honest cfg w pnl earned taken) (\<lambda>w2. ret (w2, q, n))
         | Cartel \<Rightarrow> book_cartel cfg b (lied \<and> v_audited v) w pnl (q, n))
        (\<lambda>x. twp (case x of (w2, q_pnl', bans') \<Rightarrow>
           seq_do (modify (\<lambda>s. s\<lparr>s_workers := (s_workers s)[i := w2]\<rparr>)) (ret (q_pnl', bans', index_after v vote li))) ?Q) u"
        unfolding Honest kind.case by (rule twp_conseq [OF honest [OF r(3,1,2)]]) (simp only: split_def)
    next
      case Cartel
      show "twp (case w_kind w of
           Honest \<Rightarrow> and_then (book_honest cfg w pnl earned taken) (\<lambda>w2. ret (w2, q, n))
         | Cartel \<Rightarrow> book_cartel cfg b (lied \<and> v_audited v) w pnl (q, n))
        (\<lambda>x. twp (case x of (w2, q_pnl', bans') \<Rightarrow>
           seq_do (modify (\<lambda>s. s\<lparr>s_workers := (s_workers s)[i := w2]\<rparr>)) (ret (q_pnl', bans', index_after v vote li))) ?Q) u"
        unfolding Cartel kind.case by (rule twp_conseq [OF cartel [OF pnl]]) (simp only: split_def)
    qed
  qed
  have pay0: "i128_range (- w_cost w)"
    using cost by (intro fits) (simp add: MONEY_def)
  define lied where "lied = (attack \<and> w_kind w = Cartel)"
  have start: "twp (if lied then ret 0 else chk (- w_cost w)) (\<lambda>pnl0 z. z = u \<and> pnl0 = (if lied then 0 else - w_cost w)) u"
    using pay0 by (simp add: twp_simps)
  show ?thesis
    unfolding settle_seat_def case_prod_conv twp_and_then [of "gets _"] twp_basic w_def [symmetric] Let_def lied_def [symmetric]
      twp_and_then [of "if lied then _ else _"] twp_and_then [of "seat_result _ _ _ _ _ _"]
    by (rule twp_conseq [OF start], elim conjE, hypsubst, rule twp_conseq [OF result], rule tail [OF refl])
qed

section \<open>All seats\<close>

lemma seats_settle_return:
  fixes t :: "'f sim"
  assumes "sane cfg" and "purse P cfg c l t" and "c + length bs \<le> u32_max" and "length bs \<le> u32_max"
    and "\<forall>(i, vote)\<in>set bs. i < length (s_workers t)" and "0 \<le> b" "b \<le> MONEY"
    and fit: "\<not> v_refund v \<Longrightarrow> settlement_fits cfg (targets t v bs) st ls"
  shows "twp (fold_prog (settle_seat cfg attack v st ls b) bs (0, 0, 0)) (\<lambda>(q, n, li) u. purse P cfg (c + length bs) l u
     \<and> (\<forall>a b c d e. tallies cfg a b c d e u = tallies cfg a b c d e t)
     \<and> \<bar>q\<bar> \<le> int (length bs) * seat_max cfg \<and> n \<le> length bs) t"
proof -
  define inv where "inv xs = (\<lambda>(q, n, li) u. purse P cfg (c + length xs) l u
     \<and> (\<forall>a b c d e. tallies cfg a b c d e u = tallies cfg a b c d e t)
     \<and> map w_target_stake (s_workers u) = map w_target_stake (s_workers t)
     \<and> \<bar>q\<bar> \<le> int (length xs) * seat_max cfg \<and> n \<le> length xs
     \<and> li = (if v_refund v then 0 else length (filter (lost v) xs)))" for xs :: "(nat \<times> bool) list"
  have "twp (fold_prog (settle_seat cfg attack v st ls b) bs (0, 0, 0)) (\<lambda>acc u. \<exists>xs. bs = xs @ [] \<and> inv xs acc u) t"
  proof (rule twp_fold [where I = "\<lambda>ys acc u. \<exists>xs. bs = xs @ ys \<and> inv xs acc u"])
    show "\<exists>xs. bs = xs @ bs \<and> inv xs (0, 0, 0) t" using assms(2) by (simp add: inv_def)
    fix x ys acc and u :: "'f sim"
    assume "\<exists>xs. bs = xs @ x # ys \<and> inv xs acc u"
    then obtain xs i vote q n li where xs: "bs = xs @ (i, vote) # ys" "x = (i, vote)" "acc = (q, n, li)" and h: "inv xs (q, n, li) u"
      by (cases x; cases acc; auto)
    note h = h [unfolded inv_def case_prod_conv]
    have len: "Suc (length xs) \<le> length bs" by (simp add: xs(1))
    have same: "length (s_workers u) = length (s_workers t)" using h by (metis length_map)
    have i: "i < length (s_workers u)" using assms(5) xs(1) same by auto
    have target: "w_target_stake (s_workers u ! i) = w_target_stake (s_workers t ! i)" using h i same by (metis nth_map)
    have pay: "0 \<le> share st + redistribution_share st \<and> share st + redistribution_share st \<le> (int (c_quorum cfg) + 1) * MONEY"
      if "\<not> v_refund v" using fit [OF that] by (simp add: settlement_fits_def)
    have lose: "li < length ls \<and> (\<exists>x. 0 \<le> x \<and> x \<le> w_target_stake (s_workers u ! i)
        \<and> ls ! li = settled_stake (w_target_stake (s_workers u ! i) - x))"
      if nr: "\<not> v_refund v" and lv: "vote \<noteq> v_winners_correct v"
    proof -
      obtain vs where vs: "length vs = length (targets t v bs)" "\<forall>v\<in>set vs. 0 \<le> v" "\<forall>i<length (targets t v bs). vs ! i \<le> targets t v bs ! i"
          "ls = map2 (\<lambda>T v. settled_stake (T - v)) (targets t v bs) vs"
        using fit [OF nr] unfolding settlement_fits_def by blast
      have li: "li = length (filter (lost v) xs)" using h nr by simp
      have T: "targets t v bs ! li = w_target_stake (s_workers t ! i)" "li < length (targets t v bs)"
        using lv by (simp_all add: li xs(1) targets_def lost_def nth_append)
      then have "0 \<le> vs ! li" "vs ! li \<le> w_target_stake (s_workers t ! i)" using vs by auto
      then show ?thesis unfolding target using T vs by (auto intro!: exI [of _ "vs ! li"])
    qed
    have room: "Suc (c + length xs) \<le> u32_max" "Suc (length xs) \<le> u32_max" using len assms(3,4) by linarith+
    show "twp (settle_seat cfg attack v st ls b x acc) (\<lambda>acc u. \<exists>xs. bs = xs @ ys \<and> inv xs acc u) u"
      unfolding xs(2,3)
    proof (rule twp_conseq, rule settle_seat_returns [OF assms(1) _ room(1) room(2) i _ _ assms(6,7) pay lose])
      show "purse P cfg (c + length xs) l u" "\<bar>q\<bar> \<le> int (length xs) * seat_max cfg" "n \<le> length xs" using h by blast+
      fix acc' z
      assume z: "(\<lambda>(q', n', li') z. purse P cfg (Suc (c + length xs)) l z
         \<and> (\<forall>a b c d e. tallies cfg a b c d e z = tallies cfg a b c d e u)
         \<and> map w_target_stake (s_workers z) = map w_target_stake (s_workers u)
         \<and> \<bar>q'\<bar> \<le> int (Suc (length xs)) * seat_max cfg \<and> n' \<le> Suc (length xs) \<and> li' = index_after v vote li) acc' z"
      then have "inv (xs @ [(i, vote)]) acc' z"
        using h unfolding inv_def by (cases acc') (simp add: index_after_def lost_def)
      then show "\<exists>xs. bs = xs @ ys \<and> inv xs acc' z" using xs(1) by (intro exI [of _ "xs @ [(i, vote)]"]) simp
    qed
  qed
  then show ?thesis by (rule twp_conseq) (auto simp: inv_def)
qed

section \<open>One question\<close>

lemma cartel_fits: "sane cfg \<Longrightarrow> worker_fits cfg c (cartel_worker cfg)"
  using seat_max_le [of cfg] by (simp add: worker_fits_def cartel_worker_def bonded_def sane_def MONEY_def)

lemma push_returns:
  assumes "sane cfg" and "purse P cfg c l s"
  shows "twp (for_each [0..<n] (\<lambda>_. push_worker (cartel_worker cfg))) (\<lambda>_ u. purse P cfg c (l + n) u
     \<and> (\<forall>a b c d e. tallies cfg a b c d e u = tallies cfg a b c d e s)) s"
proof -
  have "twp (for_each [0..<n] (\<lambda>_. push_worker (cartel_worker cfg))) (\<lambda>_ u. purse P cfg c (l + n - length ([] :: nat list)) u
     \<and> (\<forall>a b c d e. tallies cfg a b c d e u = tallies cfg a b c d e s)) s"
  proof (rule twp_for_each [where I = "\<lambda>xs u. length xs \<le> n \<and> purse P cfg c (l + n - length xs) u
      \<and> (\<forall>a b c d e. tallies cfg a b c d e u = tallies cfg a b c d e s)", THEN twp_conseq])
    show "twp (push_worker (cartel_worker cfg)) (\<lambda>_ u. length ys \<le> n \<and> purse P cfg c (l + n - length ys) u
        \<and> (\<forall>a b c d e. tallies cfg a b c d e u = tallies cfg a b c d e s)) u"
      if "length (y # ys) \<le> n \<and> purse P cfg c (l + n - length (y # ys)) u \<and> (\<forall>a b c d e. tallies cfg a b c d e u = tallies cfg a b c d e s)"
      for y :: nat and ys u
      using that cartel_fits [OF assms(1)] by (auto simp: push_worker_def twp_simps purse_def tallies_def)
  qed (use assms(2) in auto)
  then show ?thesis by simp
qed

lemma count_returns:
  "twp (count_if b attacks (\<lambda>n r. r\<lparr>attacks := n\<rparr>)) (\<lambda>_ u. purse P cfg x l u \<and> tallies cfg (Suc a) c d e f u \<and> s_workers u = s_workers s) s"
    if "purse P cfg x l s" "tallies cfg a c d e f s" "Suc a \<le> u32_max"
  using that by (auto simp: count_if_def set_out_def chk_u64_def twp_simps purse_def tallies_def u32_max_def)

lemma caught_returns:
  "twp (count_if b caught (\<lambda>n r. r\<lparr>caught := n\<rparr>)) (\<lambda>_ u. purse P cfg x l u \<and> tallies cfg a (Suc c) d e f u \<and> s_workers u = s_workers s) s"
    if "purse P cfg x l s" "tallies cfg a c d e f s" "Suc c \<le> u32_max"
  using that by (auto simp: count_if_def set_out_def chk_u64_def twp_simps purse_def tallies_def u32_max_def)

lemma close_returns:
  assumes "sane cfg" and "purse P cfg x l s" and "tallies cfg a b c d e s" and "n \<le> q" and "\<bar>pnl\<bar> \<le> int q * seat_max cfg"
    and "d + q \<le> u32_max"
  shows "twp (and_then (gets s_out) (\<lambda>r. and_then (chk_u32 (cartel_bans r + n)) (\<lambda>b. and_then (chk (cartel_pnl r + pnl)) (\<lambda>p. block [
        set_out (\<lambda>r. r\<lparr>cartel_bans := b, cartel_pnl := p\<rparr>), (if decided then learn F attack per_seat else ret ())]))))
    (\<lambda>_ u. purse P cfg x l u \<and> tallies cfg a b c (d + q) e u) s"
proof -
  have t: "cartel_bans (s_out s) \<le> d" "\<bar>cartel_pnl (s_out s)\<bar> \<le> int d * seat_max cfg" using assms(3) by (simp_all add: tallies_def)
  have sum: "\<bar>cartel_pnl (s_out s) + pnl\<bar> \<le> int (d + q) * seat_max cfg"
    using t(2) assms(5) by (simp add: distrib_right)
  have "i128_range (cartel_pnl (s_out s) + pnl)" by (rule within_fits [OF assms(1) _ sum]) (use assms(6) in simp)
  moreover have "cartel_bans (s_out s) + n \<le> d + q" using t(1) assms(4) by simp
  ultimately show ?thesis
    using assms(2,3,6) sum by (auto simp: twp_simps set_out_def learn_def purse_def tallies_def)
qed

lemma ask_seated_returns:
  fixes s :: "'f sim"
  assumes "sane cfg" and "roomy P cfg c (Suc k) s" and "c + c_quorum cfg \<le> u32_max"
    and "length seats = c_quorum cfg" and "\<forall>i\<in>set seats. i < length (s_workers s)"
  shows "twp (ask_seated F cfg seats) (\<lambda>_. roomy P cfg (c + c_quorum cfg) k) s"
proof -
  let ?q = "c_quorum cfg"
  have q: "0 < ?q" "?q \<le> u32_max" and bribe: "0 \<le> c_bribe cfg" "c_bribe cfg \<le> MONEY" using assms(1) by (simp_all add: sane_def)
  have c: "Suc c \<le> u32_max" using q(1) assms(3) by simp
  have share: "0 \<le> c_bribe cfg sdiv int m \<and> c_bribe cfg sdiv int m \<le> MONEY" for m
  proof (cases "m = 0")
    case False
    then show ?thesis
      using bribe zdiv_mono2 [of "c_bribe cfg" 1 "int m"] by (simp add: sdiv_nonneg pos_imp_zdiv_nonneg_iff)
  qed (simp add: signed_divide_int_def MONEY_def)
  have bounded: "0 \<le> (if g then c_bribe cfg sdiv int m else 0)" "(if g then c_bribe cfg sdiv int m else 0) \<le> MONEY" for g m
    using share [of m] by (simp_all add: MONEY_def)
  let ?I = "\<lambda>a b d u. purse P cfg c c u \<and> tallies cfg a b d c (c + Suc k) u \<and> s_workers u = s_workers s"
  have s: "?I c c c s" using assms(2) by (simp add: roomy_def)
  have move: "?I a b d u" if "apart t u" "?I a b d t" for a b d t u
    using that apart_room [OF that(1)] apartD(1) [OF that(1)] by simp
  have last: "twp (for_each [0..<n] (\<lambda>_. push_worker (cartel_worker cfg))) (\<lambda>_.
      twp (and_then (gets s_out) (\<lambda>r. and_then (chk_u32 (cartel_bans r + n)) (\<lambda>b. and_then (chk (cartel_pnl r + pnl)) (\<lambda>p. block [
        set_out (\<lambda>r. r\<lparr>cartel_bans := b, cartel_pnl := p\<rparr>), (if decided then learn F attack per_seat else ret ())]))))
      (\<lambda>_. roomy P cfg (c + ?q) k)) u"
    if u: "purse P cfg (c + ?q) c u" "tallies cfg (Suc c) (Suc c) (Suc c) c (c + Suc k) u" "\<bar>pnl\<bar> \<le> int ?q * seat_max cfg" "n \<le> ?q"
    for n pnl decided attack per_seat u
  proof (rule twp_conseq [OF push_returns [OF assms(1) u(1)]], elim conjE)
    fix z :: "'f sim"
    assume "purse P cfg (c + ?q) (c + n) z" and z: "\<forall>a b c d e. tallies cfg a b c d e z = tallies cfg a b c d e u"
    then have p: "purse P cfg (c + ?q) (c + ?q) z" using purse_mono [OF _ order.refl _ assms(1)] u(4) by fastforce
    have t: "tallies cfg (Suc c) (Suc c) (Suc c) c (c + Suc k) z" using z u(2) by blast
    show "twp (and_then (gets s_out) (\<lambda>r. and_then (chk_u32 (cartel_bans r + n)) (\<lambda>b. and_then (chk (cartel_pnl r + pnl)) (\<lambda>p. block [
        set_out (\<lambda>r. r\<lparr>cartel_bans := b, cartel_pnl := p\<rparr>), (if decided then learn F attack per_seat else ret ())]))))
      (\<lambda>_. roomy P cfg (c + ?q) k) z"
      by (rule twp_conseq [OF close_returns [OF assms(1) p t u(4,3) assms(3)]])
        (use q(1) in \<open>auto simp: roomy_def intro: tallies_mono [OF _ assms(1)]\<close>)
  qed
  have seats: "twp (fold_prog (settle_seat cfg attack v st ls b) bs (0, 0, 0)) (\<lambda>(pnl, n, li) u. purse P cfg (c + ?q) c u
      \<and> tallies cfg (Suc c) (Suc c) (Suc c) c (c + Suc k) u \<and> \<bar>pnl\<bar> \<le> int ?q * seat_max cfg \<and> n \<le> ?q) u"
    if "?I (Suc c) (Suc c) (Suc c) u" "\<forall>(i, vote)\<in>set bs. i < length (s_workers s)" "length bs = ?q" "0 \<le> b" "b \<le> MONEY"
      "\<not> v_refund v \<Longrightarrow> settlement_fits cfg (targets u v bs) st ls" for attack v st ls b bs u
    by (rule twp_conseq [OF seats_settle_return [OF assms(1), of P c c u bs b v st ls attack]])
      (use that assms(3) q(2) in \<open>auto simp: that(3)\<close>)
  have verdict: "twp (settle_verdict cfg v bs) (\<lambda>(st, ls) u. ?I (Suc c) (Suc c) (Suc c) u
      \<and> (\<not> v_refund v \<longrightarrow> settlement_fits cfg (targets u v bs) st ls)) u"
    if "?I (Suc c) (Suc c) c u" "\<forall>(i, vote)\<in>set bs. i < length (s_workers s)" "length bs = ?q" "\<not> v_refund v \<Longrightarrow> 0 < v_winner_count v" for v bs u
    by (rule twp_conseq [OF verdict_returns [OF assms(1), of P c c u "Suc c" "Suc c" c "c + Suc k" v bs]])
      (use that c in \<open>auto simp: targets_def\<close>)
  have votes_in: "\<forall>(i, vote)\<in>set (zip seats votes). i < length (s_workers s)" for votes
    using assms(5) by (auto dest: set_zip_leftD)
  have chain: "twp (count_if attack attacks (\<lambda>n r. r\<lparr>attacks := n\<rparr>)) (\<lambda>_. twp (fold_prog (cast_vote cfg attack) seats []) (\<lambda>votes.
        twp (judge cfg votes) (\<lambda>v. twp (count_if (v_audited v \<and> attack) caught (\<lambda>n r. r\<lparr>caught := n\<rparr>)) (\<lambda>_.
        twp (settle_verdict cfg v (zip seats votes)) (\<lambda>x. twp (case x of (st, ls) \<Rightarrow> R attack votes v st ls) Q))))) u"
    if u: "?I c c c u" and R: "\<And>votes v st ls u. \<lbrakk>?I (Suc c) (Suc c) (Suc c) u; length (zip seats votes) = ?q;
        \<not> v_refund v \<Longrightarrow> settlement_fits cfg (targets u v (zip seats votes)) st ls\<rbrakk> \<Longrightarrow> twp (R attack votes v st ls) Q u"
    for attack u Q and R :: "bool \<Rightarrow> bool list \<Rightarrow> verdict \<Rightarrow> settlement \<Rightarrow> sim_stake list \<Rightarrow> ('f, unit) step"
  proof (rule twp_conseq [OF count_returns [of P cfg c c u c c c c "c + Suc k"]])
    show "purse P cfg c c u" "tallies cfg c c c c (c + Suc k) u" "Suc c \<le> u32_max" using u c by simp_all
    fix u1 :: "'f sim" assume "purse P cfg c c u1 \<and> tallies cfg (Suc c) c c c (c + Suc k) u1 \<and> s_workers u1 = s_workers u"
    then have u1: "?I (Suc c) c c u1" using u by simp
    show "twp (fold_prog (cast_vote cfg attack) seats []) (\<lambda>votes.
        twp (judge cfg votes) (\<lambda>v. twp (count_if (v_audited v \<and> attack) caught (\<lambda>n r. r\<lparr>caught := n\<rparr>)) (\<lambda>_.
        twp (settle_verdict cfg v (zip seats votes)) (\<lambda>x. twp (case x of (st, ls) \<Rightarrow> R attack votes v st ls) Q)))) u1"
    proof (rule twp_conseq [OF votes_return], elim conjE)
      fix votes :: "bool list" and u2 :: "'f sim" assume a2: "apart u1 u2" and "length votes = length ([] :: bool list) + length seats"
      then have len: "length votes = ?q" "length (zip seats votes) = ?q" using assms(4) by simp_all
      note u2 = move [OF a2 u1]
      show "twp (judge cfg votes) (\<lambda>v. twp (count_if (v_audited v \<and> attack) caught (\<lambda>n r. r\<lparr>caught := n\<rparr>)) (\<lambda>_.
          twp (settle_verdict cfg v (zip seats votes)) (\<lambda>x. twp (case x of (st, ls) \<Rightarrow> R attack votes v st ls) Q))) u2"
      proof (rule twp_conseq [OF judge_returns [OF len(1) q(2)]], elim conjE)
        fix v :: verdict and u3 :: "'f sim" assume a3: "apart u2 u3" and win: "\<not> v_refund v \<longrightarrow> 0 < v_winner_count v"
        note u3 = move [OF a3 u2]
        show "twp (count_if (v_audited v \<and> attack) caught (\<lambda>n r. r\<lparr>caught := n\<rparr>)) (\<lambda>_.
            twp (settle_verdict cfg v (zip seats votes)) (\<lambda>x. twp (case x of (st, ls) \<Rightarrow> R attack votes v st ls) Q)) u3"
        proof (rule twp_conseq [OF caught_returns [of P cfg c c u3 "Suc c" c c c "c + Suc k"]])
          show "purse P cfg c c u3" "tallies cfg (Suc c) c c c (c + Suc k) u3" "Suc c \<le> u32_max" using u3 c by simp_all
          fix u4 :: "'f sim" assume "purse P cfg c c u4 \<and> tallies cfg (Suc c) (Suc c) c c (c + Suc k) u4 \<and> s_workers u4 = s_workers u3"
          then have u4: "?I (Suc c) (Suc c) c u4" using u3 by simp
          show "twp (settle_verdict cfg v (zip seats votes)) (\<lambda>x. twp (case x of (st, ls) \<Rightarrow> R attack votes v st ls) Q) u4"
            by (rule twp_conseq [OF verdict [OF u4 votes_in len(2)]]) (use win R [OF _ len(2)] in \<open>auto split: prod.splits\<close>)
        qed
      qed
    qed
  qed
  have first: "twp (if g then decide F st else ret False) (\<lambda>_. ?I c c c) s" for g st
  proof (cases g)
    case True
    show ?thesis unfolding if_P [OF True] by (rule twp_conseq [OF decide_returns]) (rule move [OF _ s])
  qed (use s in \<open>simp add: twp_basic\<close>)
  show ?thesis
    unfolding ask_seated_def twp_and_then [of "gets _"] twp_basic Let_def twp_and_then [of "if _ then _ else _"]
    apply (rule twp_conseq [OF first])
    unfolding twp_seq_do [of "count_if _ _ _"] twp_and_then [of "fold_prog (cast_vote _ _) _ _"] twp_and_then [of "judge _ _"]
      twp_and_then [of "settle_verdict _ _ _"]
    apply (rule chain)
     apply assumption
    unfolding twp_and_then [of "fold_prog _ _ _"]
    apply (rule twp_conseq, rule seats, assumption, rule votes_in, assumption, rule bounded, rule bounded, blast)
    apply (simp only: split_paired_all case_prod_conv twp_seq_do)
    apply (rule last; blast)
    done
qed

lemma ask_returns:
  fixes s :: "'f sim"
  assumes "sane cfg" and "roomy P cfg c (Suc k) s" and "c + c_quorum cfg \<le> u32_max" and "c_quorum cfg \<le> u32_max"
  shows "twp (ask_question F cfg) (\<lambda>_. roomy P cfg (c + c_quorum cfg) k) s"
proof -
  have q: "0 < c_quorum cfg" using assms(1) by (simp add: sane_def)
  let ?active = "active_workers s"
  have len: "length (s_workers s) \<le> c" using assms(2) by (simp add: roomy_def purse_def)
  have short: "length ?active \<le> u32_max"
    using length_filter_le [of "\<lambda>i. w_active (s_workers s ! i)" "[0..<length (s_workers s)]"] len assms(3)
    by (simp add: active_workers_def)
  show ?thesis
  proof (cases "length ?active < c_quorum cfg")
    case True
    have p: "purse P cfg c c s" "tallies cfg c c c c (c + Suc k) s" using assms(2) by (simp_all add: roomy_def)
    have "unserved (s_out s) + 1 < 2 ^ 64" using p(2) assms(3) by (simp add: tallies_def u32_max_def)
    moreover have "roomy P cfg (c + c_quorum cfg) k (s\<lparr>s_out := (s_out s)\<lparr>unserved := unserved (s_out s) + 1\<rparr>\<rparr>)"
    proof -
      have "purse P cfg (c + c_quorum cfg) (c + c_quorum cfg) s" by (rule purse_mono [OF p(1) _ _ assms(1)]) simp_all
      moreover have "tallies cfg (c + c_quorum cfg) (c + c_quorum cfg) (c + c_quorum cfg) (c + c_quorum cfg) (c + c_quorum cfg + k) s"
        by (rule tallies_mono [OF p(2) assms(1)]) (use q in simp_all)
      moreover have "unserved (s_out s) \<le> c" using p(2) by (simp add: tallies_def)
      ultimately show ?thesis using q by (simp add: roomy_def purse_def tallies_def)
    qed
    ultimately show ?thesis
      using True by (simp add: ask_question_def count_if_def set_out_def chk_u64_def twp_simps)
  next
    case False
    have drawn: "twp (draw_seats (c_quorum cfg) ?active) (\<lambda>seats u. (apart s u \<and> length seats = c_quorum cfg)
        \<and> apart s u \<and> (\<exists>perm. mset perm = mset ?active \<and> seats = take (c_quorum cfg) perm)) s"
      using False by (intro twp_with seats_return draw_seats_effect short) simp
    show ?thesis
      unfolding ask_question_def twp_and_then [of "gets _"] twp_basic if_not_P [OF False] twp_and_then
    proof (rule twp_conseq [OF drawn], elim conjE exE)
      fix seats perm and u :: "'f sim"
      assume a: "apart s u" and l: "length seats = c_quorum cfg" and perm: "mset perm = mset ?active" "seats = take (c_quorum cfg) perm"
      have "roomy P cfg c (Suc k) u" using assms(2) apart_room [OF a] by (simp add: roomy_def)
      moreover have "\<forall>i\<in>set seats. i < length (s_workers u)"
        using seats_fair(2) [OF perm(1), of "c_quorum cfg"] perm(2) apartD(1) [OF a] by (auto simp: active_workers_def)
      ultimately show "twp (ask_seated F cfg seats) (\<lambda>_. roomy P cfg (c + c_quorum cfg) k) u"
        by (rule ask_seated_returns [OF assms(1) _ assms(3) l])
    qed
  qed
qed

lemma questions_return:
  assumes "sane cfg" and "roomy P cfg c k s" and "c + k * c_quorum cfg \<le> u32_max"
  shows "twp (for_each [0..<k] (\<lambda>_. ask_question F cfg)) (\<lambda>_. roomy P cfg (c + k * c_quorum cfg) 0) s"
proof -
  have "twp (for_each [0..<k] (\<lambda>_. ask_question F cfg)) (\<lambda>_ u. length ([] :: nat list) \<le> k
      \<and> roomy P cfg (c + (k - length ([] :: nat list)) * c_quorum cfg) (length ([] :: nat list)) u) s"
  proof (rule twp_for_each [where I = "\<lambda>xs u. length xs \<le> k \<and> roomy P cfg (c + (k - length xs) * c_quorum cfg) (length xs) u"])
    fix y :: nat and ys u
    assume h: "length (y # ys) \<le> k \<and> roomy P cfg (c + (k - length (y # ys)) * c_quorum cfg) (length (y # ys)) u"
    define m where "m = k - length (y # ys)"
    have m: "k - length ys = Suc m" using h Suc_diff_Suc [of "length ys" k] by (simp add: m_def)
    have "Suc m * c_quorum cfg \<le> k * c_quorum cfg" unfolding m [symmetric] by (intro mult_right_mono) simp_all
    then have room: "c + m * c_quorum cfg + c_quorum cfg \<le> u32_max" using assms(3) by simp
    have q: "c_quorum cfg \<le> u32_max" using assms(1) by (simp add: sane_def)
    have r: "roomy P cfg (c + m * c_quorum cfg) (Suc (length ys)) u" using h by (simp add: m_def)
    show "twp (ask_question F cfg) (\<lambda>_ u. length ys \<le> k \<and> roomy P cfg (c + (k - length ys) * c_quorum cfg) (length ys) u) u"
      unfolding m by (rule twp_conseq [OF ask_returns [OF assms(1) r room q]]) (use h in \<open>simp add: ac_simps\<close>)
  qed (use assms(2) in simp)
  then show ?thesis by simp
qed

section \<open>Rounds\<close>

text \<open>
  \<open>P\<close> is a sign that the floating-point arithmetic keeps: literals and integers that are not negative have
  it, sums, products and quotients keep it, and a demand computed from a loss with this sign is at most
  the demand without loss. Of \<open>f64\<close> it holds with \<open>P\<close>: not a number, or the sign bit clear.
\<close>

definition signed_floats :: "'f floats \<Rightarrow> ('f \<Rightarrow> bool) \<Rightarrow> bool" where
  "signed_floats F P \<longleftrightarrow> (\<forall>n k. 0 \<le> n \<longrightarrow> P (f_dec F n k)) \<and> (\<forall>n. 0 \<le> n \<longrightarrow> P (f_of_int F n))
     \<and> (\<forall>x y. P x \<longrightarrow> P y \<longrightarrow> P (f_add F x y) \<and> P (f_mul F x y) \<and> P (f_div F x y))
     \<and> (\<forall>q x. q \<le> u32_max \<longrightarrow> P x \<longrightarrow>
         f_to_u32 F (f_mul F (f_of_int F (int q)) (f_max F (f_sub F (f_dec F 10 1) x) (f_dec F 0 1))) \<le> q)"

lemma demand_le:
  assumes "signed_floats F P" and "P x" and "c_questions_per_round cfg \<le> u32_max"
  shows "demand F cfg x \<le> c_questions_per_round cfg"
  using assms by (simp add: demand_def signed_floats_def Let_def)

lemma roomy_mono:
  assumes "roomy P cfg c k s" and "sane cfg" and "c \<le> d"
  shows "roomy P cfg d k s"
  using assms purse_mono [of P cfg c c s d d] tallies_mono [of cfg c c c c "c + k" s d d d d "d + k"] by (simp add: roomy_def)

lemma join_returns:
  fixes s :: "'f sim"
  assumes "sane cfg" and "roomy P cfg c k s"
  shows "twp (and_then (honest_worker cfg b) push_worker) (\<lambda>_. roomy P cfg (Suc c) k) s"
    and "twp (push_worker (cartel_worker cfg)) (\<lambda>_. roomy P cfg (Suc c) k) s"
proof -
  have push: "twp (push_worker w) (\<lambda>_. roomy P cfg (Suc c) k) u" if "roomy P cfg c k u" "worker_fits cfg (Suc c) w" for w and u :: "'f sim"
  proof -
    have "purse P cfg (Suc c) c u" "tallies cfg (Suc c) (Suc c) (Suc c) (Suc c) (Suc c + k) u"
      using that(1) purse_mono [of P cfg c c u "Suc c" c] tallies_mono [of cfg c c c c "c + k" u "Suc c" "Suc c" "Suc c" "Suc c" "Suc c + k"] assms(1)
      by (simp_all add: roomy_def)
    then show ?thesis using that(2) by (auto simp: push_worker_def twp_simps roomy_def purse_def tallies_def)
  qed
  show "twp (push_worker (cartel_worker cfg)) (\<lambda>_. roomy P cfg (Suc c) k) s"
    by (rule push [OF assms(2) cartel_fits [OF assms(1)]])
  have price: "0 \<le> c_answer_cost cfg" "c_answer_cost cfg \<le> MONEY" and stake: "0 \<le> c_honest_stake cfg" "c_honest_stake cfg \<le> MONEY"
    using assms(1) by (simp_all add: sane_def)
  have cost: "0 \<le> c_answer_cost cfg sdiv 2" "c_answer_cost cfg sdiv 2 \<le> MONEY"
    using price by (simp_all add: sdiv_nonneg)
  show "twp (and_then (honest_worker cfg b) push_worker) (\<lambda>_. roomy P cfg (Suc c) k) s"
    unfolding honest_worker_def Let_def twp_and_then
  proof (rule twp_conseq [OF draw_returns], elim conjE)
    fix n :: nat and u :: "'f sim" assume a: "apart s u" and n: "n < 2 ^ 64"
    have k: "0 \<le> c_answer_cost cfg sdiv 2 + int n" "c_answer_cost cfg sdiv 2 + int n \<le> 20 * MONEY"
      using cost n by (simp_all add: MONEY_def)
    have "i128_range (c_answer_cost cfg sdiv 2 + int n)"
      by (rule fits_nonneg [OF k(1) order_trans [OF k(2)]]) (simp add: MONEY_def)
    moreover have "roomy P cfg c k u" using assms(2) apart_room [OF a] by (simp add: roomy_def)
    moreover have "0 \<le> int (Suc c) * seat_max cfg" using seat_max_le [OF assms(1)] by (intro mult_nonneg_nonneg) simp_all
    ultimately show "twp (chk (c_answer_cost cfg sdiv 2 + int n)) (\<lambda>cost. twp (ret \<lparr>w_kind = Honest,
        w_stake = settled_stake (c_honest_stake cfg), w_target_stake = c_honest_stake cfg, w_cost = cost, w_active = True,
        w_original = b, w_window_pnl = 0, w_window_n = 0\<rparr>) (\<lambda>w. twp (push_worker w) (\<lambda>_. roomy P cfg (Suc c) k))) u"
      unfolding twp_arith twp_basic using k stake by (intro conjI push) (simp_all add: worker_fits_def bonded_def)
  qed
qed

lemma end_round_returns:
  fixes s :: "'f sim"
  assumes "sane cfg" and "signed_floats F P" and "roomy P cfg c 0 s"
  shows "twp (end_round F cfg) (\<lambda>_. roomy P cfg (Suc c) 0) s"
proof -
  have two: "2 * c_honest_workers cfg \<le> u32_max" using assms(1) by (simp add: sane_def)
  have book: "roomy P cfg c 0 (s\<lparr>s_out := (s_out s)\<lparr>platform_by_round := x\<rparr>\<rparr>)" for x
    using assms(3) by (simp add: roomy_def purse_def tallies_def)
  have smooth: "roomy P cfg c 0 (u\<lparr>s_wrong_ema := f_add F (f_mul F (f_dec F 8 1) (s_wrong_ema u))
      (f_mul F (f_dec F 2 1) (f_div F (f_of_int F (int (s_round_wrong u))) (f_of_int F (int (s_round_resolved u)))))\<rparr>)"
    if "roomy P cfg c 0 u" for u
    using that assms(2) by (simp add: roomy_def purse_def tallies_def signed_floats_def)
  have enter: "twp (and_then (gets (count_active (\<lambda>_. True))) (\<lambda>honest_active.
     and_then (gets s_honest_margin) (\<lambda>margin.
     and_then
       (if 0 < margin then
          and_then (chk_u32 (2 * c_honest_workers cfg)) (\<lambda>cap.
            if honest_active < cap then toss (c_entry_bps cfg) else ret False)
        else ret False) (\<lambda>joins.
       if joins then and_then (honest_worker cfg False) push_worker else ret ())))) (\<lambda>_. roomy P cfg (Suc c) 0) u"
    if u: "roomy P cfg c 0 u" for u
  proof -
    have stay: "roomy P cfg (Suc c) 0 u" by (rule roomy_mono [OF u assms(1)]) simp
    have go: "twp (if g then and_then (honest_worker cfg False) push_worker else ret ()) (\<lambda>_. roomy P cfg (Suc c) 0) z"
      if "apart u z" for g z
      using join_returns(1) [OF assms(1), of P c 0 z False] u stay apart_room [OF that] by (simp add: roomy_def twp_basic)
    have joins: "twp (if 0 < s_honest_margin u then and_then (chk_u32 (2 * c_honest_workers cfg)) (\<lambda>cap.
          if count_active (\<lambda>_. True) u < cap then toss (c_entry_bps cfg) else ret False) else ret False) (\<lambda>_ z. apart u z) u"
      using two by (simp add: twp_simps toss_returns)
    show ?thesis
      unfolding twp_and_then [of "gets _"] twp_basic twp_and_then [of "if _ then _ else _"]
      by (rule twp_conseq [OF joins]) (rule go)
  qed
  show ?thesis
    unfolding end_round_def twp_block
    using book smooth [OF book] by (auto simp: twp_basic twp_and_then [of "gets (\<lambda>s. 0 < s_round_resolved s)"] Let_def
        intro!: twp_conseq [OF enter])
qed

lemma round_returns:
  fixes s :: "'f sim"
  assumes "sane cfg" and "signed_floats F P" and "roomy P cfg c 0 s"
    and "c + (c_questions_per_round cfg * c_quorum cfg + 1) \<le> u32_max"
  shows "twp (play_round F cfg) (\<lambda>_. roomy P cfg (c + (c_questions_per_round cfg * c_quorum cfg + 1)) 0) s"
proof -
  define want where "want = demand F cfg (s_wrong_ema s)"
  have q: "0 < c_quorum cfg" using assms(1) by (simp add: sane_def)
  have "c_questions_per_round cfg \<le> c_questions_per_round cfg * c_quorum cfg" using q by simp
  then have qs: "c_questions_per_round cfg \<le> u32_max" using assms(4) by linarith
  have "P (s_wrong_ema s)" using assms(3) by (simp add: roomy_def purse_def)
  then have want: "want \<le> c_questions_per_round cfg" unfolding want_def by (rule demand_le [OF assms(2) _ qs])
  then have asked: "want * c_quorum cfg \<le> c_questions_per_round cfg * c_quorum cfg" by (rule mult_right_mono) simp
  then have room: "c + want * c_quorum cfg \<le> u32_max" using assms(4) by linarith
  let ?s = "s\<lparr>s_out := (s_out s)\<lparr>demanded := demanded (s_out s) + want, final_demand := want\<rparr>, s_platform := 0,
    s_round_resolved := 0, s_round_wrong := 0, s_honest_margin := 0\<rparr>"
  have initial: "roomy P cfg c want ?s"
    using assms(3) seat_max_le [OF assms(1)] by (simp add: roomy_def purse_def tallies_def)
  have "demanded (s_out s) \<le> c" using assms(3) by (simp add: roomy_def tallies_def)
  then have "demanded (s_out s) + want < 2 ^ 64" using want qs assms(4) by (simp add: u32_max_def)
  moreover have "twp (for_each [0..<want] (\<lambda>_. ask_question F cfg)) (\<lambda>_. twp (end_round F cfg) (\<lambda>_.
      roomy P cfg (c + (c_questions_per_round cfg * c_quorum cfg + 1)) 0)) ?s"
    by (rule twp_conseq [OF questions_return [OF assms(1) initial room]],
        rule twp_conseq [OF end_round_returns [OF assms(1,2)]], assumption, erule roomy_mono [OF _ assms(1)])
      (use asked in simp)
  moreover have last: "twp (block [m]) Q = twp m Q" for m :: "('f, unit) step" and Q
    by (rule ext) (auto simp: twp_def run_defs split: outcome.splits)
  ultimately show ?thesis
    unfolding play_round_def
    by (simp add: twp_and_then twp_basic want_def [symmetric] chk_u64_def twp_block last set_out_def del: block.simps)
qed

lemma rounds_return:
  assumes "sane cfg" and "signed_floats F P" and "roomy P cfg c 0 s"
    and "c + n * (c_questions_per_round cfg * c_quorum cfg + 1) \<le> u32_max"
  shows "twp (for_each [0..<n] (\<lambda>_. play_round F cfg)) (\<lambda>_. roomy P cfg (c + n * (c_questions_per_round cfg * c_quorum cfg + 1)) 0) s"
proof -
  let ?r = "c_questions_per_round cfg * c_quorum cfg + 1"
  have "twp (for_each xs (\<lambda>_. play_round F cfg)) (\<lambda>_. roomy P cfg (c + length xs * ?r) 0) s"
    if "roomy P cfg c 0 s" "c + length xs * ?r \<le> u32_max" for xs :: "nat list" and c s
    using that
  proof (induction xs arbitrary: c s)
    case (Cons x xs)
    have room: "c + ?r \<le> u32_max" "(c + ?r) + length xs * ?r \<le> u32_max" using Cons.prems(2) by simp_all
    have sum: "c + length (x # xs) * ?r = (c + ?r) + length xs * ?r" by simp
    show ?case
      unfolding for_each.simps twp_seq_do sum
      by (rule twp_conseq [OF round_returns [OF assms(1,2) Cons.prems(1) room(1)]]) (rule Cons.IH [OF _ room(2)])
  qed (simp add: twp_basic)
  from this [of c s "[0..<n]"] assms(3,4) show ?thesis by simp
qed

lemma workers_join_return:
  fixes s :: "'f sim"
  assumes "sane cfg" and "roomy P cfg c 0 s"
  shows "twp (for_each [0..<n] (\<lambda>_. and_then (honest_worker cfg True) push_worker)) (\<lambda>_. roomy P cfg (c + n) 0) s"
    and "twp (for_each [0..<n] (\<lambda>_. push_worker (cartel_worker cfg))) (\<lambda>_. roomy P cfg (c + n) 0) s"
proof -
  have many: "twp (for_each xs (\<lambda>_. m)) (\<lambda>_. roomy P cfg (c + length xs) 0) s"
    if "\<And>c s. roomy P cfg c 0 s \<Longrightarrow> twp m (\<lambda>_. roomy P cfg (Suc c) 0) s" and "roomy P cfg c 0 s"
    for xs :: "nat list" and m :: "('f, unit) step" and c s
    using that(2)
  proof (induction xs arbitrary: c s)
    case (Cons x xs)
    show ?case
      unfolding for_each.simps twp_seq_do
      by (rule twp_conseq [OF that(1) [OF Cons.prems]]) (use Cons.IH in fastforce)
  qed (simp add: twp_basic)
  show "twp (for_each [0..<n] (\<lambda>_. and_then (honest_worker cfg True) push_worker)) (\<lambda>_. roomy P cfg (c + n) 0) s"
    and "twp (for_each [0..<n] (\<lambda>_. push_worker (cartel_worker cfg))) (\<lambda>_. roomy P cfg (c + n) 0) s"
    using many [OF join_returns(1) [OF assms(1)] assms(2), of "[0..<n]"] many [OF join_returns(2) [OF assms(1)] assms(2), of "[0..<n]"]
    by simp_all
qed

section \<open>Runs\<close>

lemma run_returns:
  fixes F :: "'f floats"
  assumes "sane cfg" and "signed_floats F P"
  obtains s :: "'f sim" where "run F cfg = Some (s_out s)" and "roomy P cfg (budget cfg) 0 s"
proof -
  have initial: "roomy P cfg 0 0 (start F cfg)"
    using assms by (simp add: roomy_def purse_def tallies_def start_def no_outcomes_def signed_floats_def)
  have finish: "twp (modify (\<lambda>s. s\<lparr>s_out := (s_out s)\<lparr>honest_retained := count_active w_original s,
      honest_final := count_active (\<lambda>_. True) s\<rparr>\<rparr>)) (\<lambda>_. roomy P cfg c 0) s" if "roomy P cfg c 0 s" for c and s :: "'f sim"
    using that by (simp add: twp_basic roomy_def purse_def tallies_def)
  have rounds: "twp (for_each [0..<c_rounds cfg] (\<lambda>_. play_round F cfg)) (\<lambda>_. roomy P cfg (budget cfg) 0) s"
    if "roomy P cfg (0 + c_honest_workers cfg + c_cartel_workers cfg) 0 s" for s
    using rounds_return [OF assms that] assms(1) by (simp add: budget_def sane_def)
  have "0 < c_quorum cfg" using assms(1) by (simp add: sane_def)
  then have "twp (run_rounds F cfg) (\<lambda>_. roomy P cfg (budget cfg) 0) (start F cfg)"
    unfolding run_rounds_def twp_block(2) twp_block(1) twp_basic(5)
    apply (intro conjI)
     apply assumption
    apply (rule twp_conseq [OF workers_join_return(1) [OF assms(1) initial]])
    apply (rule twp_conseq, rule workers_join_return(2) [OF assms(1)], assumption)
    apply (rule twp_conseq, rule rounds, assumption, erule finish)
    done
  then show thesis using that by (auto simp: twp_def run_def)
qed

section \<open>The property\<close>

text \<open>
  C28. A run of the simulation counts every demanded question exactly once, as resolved, refunded or
  unserved; the wrong answers are among the resolved questions, the attacks among the questions that
  were dispatched, the caught attacks among the attacks, and the platform's revenue has one entry per
  round. With \<open>Strategy::Honest\<close>, the counterfactual of the economics tables, it never attacks, is never
  caught and loses no identity to a ban, whatever the other parameters, the seed and the
  floating-point arithmetic. And a run whose configuration is sane returns: none of its checked
  operations overflows and none of its indices is out of range.
\<close>

theorem every_question_counted:
  assumes "c_quorum cfg \<le> u32_max"
  shows "(\<forall>r. run F cfg = Some r \<longrightarrow> resolved r + refunded r + unserved r = demanded r \<and> wrong r \<le> resolved r
       \<and> attacks r \<le> resolved r + refunded r \<and> caught r \<le> attacks r \<and> length (platform_by_round r) = c_rounds cfg
       \<and> (c_strategy cfg = Honest_Play \<longrightarrow> attacks r = 0 \<and> caught r = 0 \<and> cartel_bans r = 0))
     \<and> (sane cfg \<and> signed_floats F P \<longrightarrow> run F cfg \<noteq> None)"
proof (intro conjI allI impI)
  assume "sane cfg \<and> signed_floats F P"
  then show "run F cfg \<noteq> None" by (metis run_returns option.distinct(1))
qed (use questions_counted [OF _ assms] in blast)+

definition nonneg :: "int \<Rightarrow> bool" where
  "nonneg x \<longleftrightarrow> 0 \<le> x"

lemma int_floats_signed: "signed_floats int_floats nonneg"
proof -
  have "int q * max (1 - x) 0 \<le> int q" if "0 \<le> x" for q :: nat and x :: int
    using that by (cases "x = 0") (auto simp: max_def)
  then show ?thesis
    by (simp add: signed_floats_def nonneg_def int_floats_def pos_imp_zdiv_nonneg_iff div_int_pos_iff nat_le_iff)
qed

definition solo :: config where
  "solo = default_config\<lparr>c_quorum := 1, c_honest_workers := 0, c_cartel_workers := 1, c_rounds := 1,
     c_questions_per_round := 1, c_strategy := Opportunistic\<rparr>"

theorem every_question_counted_witness:
  "\<exists>r h. run int_floats solo = Some r \<and> resolved r + refunded r + unserved r = demanded r \<and> length (platform_by_round r) = 1
     \<and> run int_floats (solo\<lparr>c_strategy := Honest_Play\<rparr>) = Some h \<and> attacks h = 0 \<and> cartel_bans h = 0
     \<and> run int_floats default_config \<noteq> None"
proof -
  have cfg: "c_quorum solo \<le> u32_max" "c_rounds solo = 1" "c_quorum (solo\<lparr>c_strategy := Honest_Play\<rparr>) \<le> u32_max"
    "c_strategy (solo\<lparr>c_strategy := Honest_Play\<rparr>) = Honest_Play" "c_quorum default_config \<le> u32_max" by code_simp+
  have "sane solo" "sane (solo\<lparr>c_strategy := Honest_Play\<rparr>)" "sane default_config" by code_simp+
  note returns = this [THEN conjI, OF int_floats_signed]
  obtain r h where "run int_floats solo = Some r" "run int_floats (solo\<lparr>c_strategy := Honest_Play\<rparr>) = Some h"
    using every_question_counted [OF cfg(1), THEN conjunct2, rule_format, OF returns(1)]
      every_question_counted [OF cfg(3), THEN conjunct2, rule_format, OF returns(2)] by blast
  moreover have "run int_floats default_config \<noteq> None"
    by (rule every_question_counted [OF cfg(5), THEN conjunct2, rule_format, OF returns(3)])
  ultimately show ?thesis
    using every_question_counted [OF cfg(1), THEN conjunct1, rule_format, of int_floats r]
      every_question_counted [OF cfg(3), THEN conjunct1, rule_format, of int_floats h] cfg(2,4) by auto
qed

end
