(* ===== verification/Report.thy ===== *)
theory Report
  imports Sim_Driver Sim_Returns
begin

text \<open>
  The rest of \<open>sim/incentive/src/main.rs\<close>: the command line and the markdown report of the five
  sweeps. Strings are the UTF-8 bytes Rust writes; \<open>f_fixed F n x\<close>, \<open>x\<close> printed with \<open>n\<close> digits after
  the point, is a parameter like the rest of the floating-point arithmetic. What is shown: the command
  that the report prints reproduces its options, the driver returns, and every table has one cell for
  each column.
\<close>

section \<open>Numbers as text\<close>

definition nl :: string where "nl = [CHR 0x0A]"

definition em_dash :: string where "em_dash = [CHR 0xE2, CHR 0x80, CHR 0x94]"

definition digit :: "nat \<Rightarrow> char" where
  "digit d = char_of (48 + d)"

fun show_nat :: "nat \<Rightarrow> string" where
  "show_nat n = (if n < 10 then [digit n] else show_nat (n div 10) @ [digit (n mod 10)])"

declare show_nat.simps [simp del]

definition show_i128 :: "i128 \<Rightarrow> string" where
  "show_i128 i = (if i < 0 then ''-'' @ show_nat (nat (- i)) else show_nat (nat i))"

text \<open>\<open>str::parse\<close> of an unsigned integer: an optional plus, then digits, with the overflow check.\<close>

definition is_digit :: "char \<Rightarrow> bool" where
  "is_digit c \<longleftrightarrow> 48 \<le> (of_char c :: nat) \<and> (of_char c :: nat) \<le> 57"

primrec parse_digits :: "nat \<Rightarrow> string \<Rightarrow> nat \<Rightarrow> nat option" where
  "parse_digits limit [] acc = Some acc"
| "parse_digits limit (c # cs) acc =
     (if is_digit c then
        let v = acc * 10 + (of_char c - 48) in if v \<le> limit then parse_digits limit cs v else None
      else None)"

definition parse_uint :: "nat \<Rightarrow> string \<Rightarrow> nat option" where
  "parse_uint limit cs =
     (let ds = (case cs of [] \<Rightarrow> [] | c # rest \<Rightarrow> if c = CHR ''+'' then rest else cs)
      in if ds = [] then None else parse_digits limit ds 0)"

definition u64_max :: nat where "u64_max = 2 ^ 64 - 1"

section \<open>The command line\<close>

text \<open>\<open>--help\<close> prints the usage and exits; everything else that is not understood panics.\<close>

datatype command = Show_Usage | Run_With opts

definition usage_text :: string where
  "usage_text = ''usage: incentive-sim [--seeds N] [--rounds N] [--out FILE]''"

definition default_opts :: opts where
  "default_opts = \<lparr>o_seeds = 8, o_rounds = 200, o_out = None\<rparr>"

fun parse_args_from :: "opts \<Rightarrow> string list \<Rightarrow> (unit, 's, command) prog" where
  "parse_args_from opts [] = ret (Run_With opts)"
| "parse_args_from opts (a # args) =
     (if a = ''--seeds'' then
        (case args of [] \<Rightarrow> trap
         | v # rest \<Rightarrow> and_then (unwrap (parse_uint u64_max v)) (\<lambda>n. parse_args_from (opts\<lparr>o_seeds := n\<rparr>) rest))
      else if a = ''--rounds'' then
        (case args of [] \<Rightarrow> trap
         | v # rest \<Rightarrow> and_then (unwrap (parse_uint u32_max v)) (\<lambda>n. parse_args_from (opts\<lparr>o_rounds := n\<rparr>) rest))
      else if a = ''--out'' then
        (case args of [] \<Rightarrow> trap | v # rest \<Rightarrow> parse_args_from (opts\<lparr>o_out := Some v\<rparr>) rest)
      else if a = ''-h'' \<or> a = ''--help'' then ret Show_Usage
      else trap)"

definition parse_args :: "string list \<Rightarrow> (unit, 's, command) prog" where
  "parse_args args = parse_args_from default_opts args"

section \<open>Tables\<close>

record 'f text_floats = "'f stat_floats" +
  f_fixed :: "nat \<Rightarrow> 'f \<Rightarrow> string"

definition pct :: "'f text_floats \<Rightarrow> 'f \<Rightarrow> string" where
  "pct F x = f_fixed F 1 (f_mul F x (f_dec F 100 0)) @ ''%''"

primrec join_with :: "string \<Rightarrow> string list \<Rightarrow> string" where
  "join_with sep [] = []"
| "join_with sep (x # xs) = (if xs = [] then x else x @ sep @ join_with sep xs)"

definition table_header :: "string \<Rightarrow> string \<Rightarrow> string list \<Rightarrow> string" where
  "table_header title note cols =
     nl @ ''## '' @ title @ nl @ nl @ note @ nl @ nl
     @ ''| '' @ join_with '' | '' cols @ '' |'' @ nl
     @ ''|'' @ join_with ''|'' (map (\<lambda>_. ''---'') cols) @ ''|'' @ nl"

text \<open>A line \<open>| a | b | c |\<close>.\<close>

definition row :: "string list \<Rightarrow> string" where
  "row cells = ''| '' @ join_with '' | '' cells @ '' |''"

definition current :: "bool \<Rightarrow> string" where
  "current b = (if b then '' (current)'' else [])"

definition stats :: "'f text_floats \<Rightarrow> config \<Rightarrow> u64 \<Rightarrow> (unit, 's, 'f summary) prog" where
  "stats F cfg seeds = summarize (stat_floats.truncate F) cfg seeds"

definition slash_row :: "'f text_floats \<Rightarrow> i128 \<Rightarrow> 'f summary \<Rightarrow> string" where
  "slash_row F bps s = row
     [show_i128 bps @ current (bps = 500), pct F (retention s), pct F (honest_slash_tax s),
      f_fixed F 4 (honest_margin_per_answer s), f_fixed F 3 (cartel_excess_per_id_per_1k s),
      f_fixed F 1 (attacks_per_1k s), pct F (wrong_rate s), f_fixed F 3 (mean_platform s), f_fixed F 3 (cv_platform s)]"

definition sweep_slash :: "'f text_floats \<Rightarrow> opts \<Rightarrow> string \<Rightarrow> (unit, 's, string) prog" where
  "sweep_slash F opts md = fold_prog
     (\<lambda>bps md. and_then (stats F (slash_cell opts bps) (o_seeds opts)) (\<lambda>s.
        ret (md @ slash_row F bps s @ nl)))
     [0, 100, 250, 500, 1000, 2000, 5000]
     (md @ table_header
       (''S1 '' @ em_dash @ '' SLASH_BPS sweep (adaptive cartel, 20% of pool, quorum 5, 5% audit)'')
       ''Fee fixed at 2000 bps. `cartel excess` is cartel P&L minus the same seeds with the cartel playing honestly, per identity per 1000 resolved questions (USDC).''
       [''slash bps'', ''honest retained'', ''honest slash tax'', ''honest margin/answer'', ''cartel excess'',
        ''attacks/1k'', ''wrong rate'', ''platform rev/round'', ''rev CV''])"

definition slash_cap_row :: "'f text_floats \<Rightarrow> i128 \<Rightarrow> 'f summary \<Rightarrow> string" where
  "slash_cap_row F bps s = row
     [show_i128 bps @ current (bps = 500), pct F (retention s), pct F (honest_slash_tax s),
      f_fixed F 3 (cartel_excess_per_id_per_1k s), pct F (wrong_rate s)]"

definition sweep_slash_cap :: "'f text_floats \<Rightarrow> opts \<Rightarrow> string \<Rightarrow> (unit, 's, string) prog" where
  "sweep_slash_cap F opts md = fold_prog
     (\<lambda>bps md. and_then (stats F (slash_cap_cell opts bps) (o_seeds opts)) (\<lambda>s.
        ret (md @ slash_cap_row F bps s @ nl)))
     [0, 10, 25, 100, 500, 2000]
     (md @ table_header
       (''S2 '' @ em_dash @ '' SLASH_BPS sweep at 100 USDC stakes (per-question cap binds)'')
       ''Same as S1 but honest and cartel stakes are 100 USDC, so `min(bps x stake, amount)` hits the 0.25 USDC cap from 25 bps upward.''
       [''slash bps'', ''honest retained'', ''honest slash tax'', ''cartel excess'', ''wrong rate''])"

definition fee_row :: "'f text_floats \<Rightarrow> i128 \<Rightarrow> 'f summary \<Rightarrow> string" where
  "fee_row F bps s = row
     [show_i128 bps @ current (bps = 2000), pct F (retention s), f_fixed F 1 (final_honest s),
      f_fixed F 4 (honest_margin_per_answer s), pct F (served_rate s), f_fixed F 3 (mean_platform s),
      f_fixed F 3 (cv_platform s)]"

definition sweep_fee :: "'f text_floats \<Rightarrow> opts \<Rightarrow> string \<Rightarrow> (unit, 's, string) prog" where
  "sweep_fee F opts md = fold_prog
     (\<lambda>bps md. and_then (stats F (fee_cell opts bps) (o_seeds opts)) (\<lambda>s.
        ret (md @ fee_row F bps s @ nl)))
     [1000, 1500, 2000, 2500, 3000, 4000, 5000]
     (md @ table_header
       (''S3 '' @ em_dash @ '' PLATFORM_FEE_BPS sweep (no cartel, quorum 5)'')
       ''Honest workers only; per-answer cost ~U[0.01, 0.03] USDC. Shows where the cut starts pricing marginal workers out and what that does to served demand and revenue.''
       [''fee bps'', ''honest retained'', ''final pool'', ''honest margin/answer'', ''served'', ''platform rev/round'',
        ''rev CV''])"

definition quorum_row :: "'f text_floats \<Rightarrow> u32 \<Rightarrow> u32 \<Rightarrow> 'f summary \<Rightarrow> string" where
  "quorum_row F quorum cartel s = row
     [show_nat quorum, show_nat cartel @ ''%'', f_fixed F 3 (cartel_excess_per_id_per_1k s), pct F (wrong_rate s),
      f_fixed F 4 (honest_margin_per_answer s), pct F (retention s)]"

definition sweep_quorum :: "'f text_floats \<Rightarrow> opts \<Rightarrow> string \<Rightarrow> (unit, 's, string) prog" where
  "sweep_quorum F opts md = fold_prog
     (\<lambda>quorum. fold_prog
       (\<lambda>cartel md. and_then (stats F (quorum_cell opts quorum cartel) (o_seeds opts)) (\<lambda>s.
          ret (md @ quorum_row F quorum cartel s @ nl)))
       [10, 20, 30])
     [3, 5, 7, 9]
     (md @ table_header
       (''S4 '' @ em_dash @ '' quorum size x cartel share (adaptive cartel, current fee/slash, 5% audit)'')
       ''Larger quorums split the same 0.8 x amount over more seats, so they also lower honest margin.''
       [''quorum'', ''cartel share'', ''cartel excess'', ''wrong rate'', ''honest margin/answer'', ''honest retained''])"

definition audit_line :: "'f text_floats \<Rightarrow> opts \<Rightarrow> u32 \<Rightarrow> (unit, 's, string) prog" where
  "audit_line F opts audit_bps = fold_prog
     (\<lambda>bps line. and_then (stats F (audit_cell opts audit_bps bps) (o_seeds opts)) (\<lambda>s.
        ret (line @ '' '' @ f_fixed F 3 (cartel_excess_per_id_per_1k s) @ '' |'')))
     [0, 500, 2000, 5000]
     (''| '' @ pct F (f_div F (f_of_int F (int audit_bps)) (f_dec F 10000 0)) @ '' |'')"

definition sweep_audit :: "'f text_floats \<Rightarrow> opts \<Rightarrow> string \<Rightarrow> (unit, 's, string) prog" where
  "sweep_audit F opts md = fold_prog
     (\<lambda>audit_bps md. and_then (audit_line F opts audit_bps) (\<lambda>line. ret (md @ line @ nl)))
     [0, 100, 500, 1000, 2500]
     (md @ table_header
       (''S5 '' @ em_dash @ '' audit rate x SLASH_BPS: cartel excess P&L (opportunistic cartel)'')
       ''Cartel excess per identity per 1000 resolved questions, USDC. Negative = attacking loses money versus playing honestly.''
       [''audit'', ''slash 0'', ''slash 500 (current)'', ''slash 2000'', ''slash 5000''])"

section \<open>The report\<close>

definition preamble :: "opts \<Rightarrow> string" where
  "preamble opts =
     ''# Incentive-alignment simulation tables'' @ nl @ nl
     @ ''Generated by `cargo run --release -- --seeds '' @ show_nat (o_seeds opts) @ '' --rounds '' @ show_nat (o_rounds opts)
     @ ''` in `sim/incentive/` '' @ em_dash @ '' do not edit by hand.'' @ nl
     @ ''Read with [incentive-alignment.md](incentive-alignment.md). Amounts in USDC; every fee, share, dust and'' @ nl
     @ ''slash is computed by `sim/incentive/src/math.rs`, which `src/test_incentive_math.rs` checks against'' @ nl
     @ ''the real contract. Defaults: 0.25 USDC questions, 10 USDC stakes, 80 honest + 20 cartel workers,'' @ nl
     @ ''5% honest error, 0.5 USDC bribe per captured question, 1 USDC per replacement identity, 50 questions/round.'' @ nl"

datatype printed = To_Stdout string | To_File string string

definition report :: "'f text_floats \<Rightarrow> opts \<Rightarrow> (unit, 's, string) prog" where
  "report F opts =
     and_then (sweep_slash F opts (preamble opts)) (\<lambda>md.
     and_then (sweep_slash_cap F opts md) (\<lambda>md.
     and_then (sweep_fee F opts md) (\<lambda>md.
     and_then (sweep_quorum F opts md) (\<lambda>md. sweep_audit F opts md))))"

text \<open>The program: what it writes, and where.\<close>

definition main_program :: "'f text_floats \<Rightarrow> string list \<Rightarrow> (unit, 's, printed) prog" where
  "main_program F args =
     and_then (parse_args args) (\<lambda>c. case c of
        Show_Usage \<Rightarrow> ret (To_Stdout (usage_text @ nl))
      | Run_With opts \<Rightarrow> and_then (report F opts) (\<lambda>md.
          ret (case o_out opts of Some path \<Rightarrow> To_File path md | None \<Rightarrow> To_Stdout md)))"

section \<open>The printed command\<close>

lemma show_nat_induct [case_names small large]:
  assumes "\<And>n. n < 10 \<Longrightarrow> P n" and "\<And>n. \<not> n < 10 \<Longrightarrow> P (n div 10) \<Longrightarrow> P n"
  shows "P (n :: nat)"
  using assms by (induction n rule: show_nat.induct) blast

lemma digit_simps [simp]:
  assumes "d < 10"
  shows "of_char (digit d) = 48 + d" "is_digit (digit d)" "digit d \<noteq> CHR ''+''" "digit d \<noteq> CHR ''|''" "digit d \<noteq> CHR 0x0A"
proof -
  show v: "of_char (digit d) = 48 + d" using assms by (simp add: digit_def)
  then show "is_digit (digit d)" using assms by (simp add: is_digit_def)
  show "digit d \<noteq> CHR ''+''" "digit d \<noteq> CHR ''|''" "digit d \<noteq> CHR 0x0A" using v assms by auto
qed

lemma parse_digits_append:
  "parse_digits limit (xs @ ys) acc = (case parse_digits limit xs acc of None \<Rightarrow> None | Some v \<Rightarrow> parse_digits limit ys v)"
  by (induction xs arbitrary: acc) (auto simp: Let_def)

lemma parse_show: "n \<le> limit \<Longrightarrow> parse_digits limit (show_nat n) 0 = Some n"
proof (induction n rule: show_nat_induct)
  case (large n)
  have "parse_digits limit (show_nat (n div 10)) 0 = Some (n div 10)" using large by simp
  with large.prems show ?case
    unfolding show_nat.simps [of n] by (simp add: large.hyps parse_digits_append)
qed (simp add: show_nat.simps)

lemma show_nat_digits: "show_nat n \<noteq> [] \<and> (\<forall>c\<in>set (show_nat n). \<exists>d<10. c = digit d)"
proof (induction n rule: show_nat_induct)
  case (large n)
  then show ?case unfolding show_nat.simps [of n] by (auto intro: exI [of _ "n mod 10"])
qed (auto simp: show_nat.simps)

lemma parse_uint_show: "n \<le> limit \<Longrightarrow> parse_uint limit (show_nat n) = Some n"
proof -
  assume n: "n \<le> limit"
  obtain c cs where cs: "show_nat n = c # cs" using show_nat_digits [of n] by (cases "show_nat n") auto
  then have "c \<noteq> CHR ''+''" using show_nat_digits [of n] by auto
  then show ?thesis using parse_show [OF n] cs by (simp add: parse_uint_def)
qed

definition command_line :: "opts \<Rightarrow> string list" where
  "command_line opts =
     [''--seeds'', show_nat (o_seeds opts), ''--rounds'', show_nat (o_rounds opts)]
     @ (case o_out opts of None \<Rightarrow> [] | Some path \<Rightarrow> [''--out'', path])"

lemma parse_command_line:
  assumes "o_seeds opts \<le> u64_max" and "o_rounds opts \<le> u32_max"
  shows "parse_args (command_line opts) = ret (Run_With opts)"
  by (rule ext) (cases "o_out opts"; simp add: parse_args_def command_line_def default_opts_def parse_uint_show [OF assms(1)]
      parse_uint_show [OF assms(2)] unwrap_def and_then_def ret_def)

section \<open>The shape of the tables\<close>

definition plain :: "string \<Rightarrow> bool" where
  "plain cell \<longleftrightarrow> CHR ''|'' \<notin> set cell \<and> CHR 0x0A \<notin> set cell"

definition bars :: "string \<Rightarrow> nat" where
  "bars line = length (filter (\<lambda>c. c = CHR ''|'') line)"

text \<open>A line of a table with \<open>n\<close> columns.\<close>

definition table_line :: "nat \<Rightarrow> string \<Rightarrow> bool" where
  "table_line n line \<longleftrightarrow> CHR 0x0A \<notin> set line \<and> bars line = n + 1"

definition unlines :: "string list \<Rightarrow> string" where
  "unlines ls = concat (map (\<lambda>l. l @ nl) ls)"

definition table_of :: "string list \<Rightarrow> nat \<Rightarrow> string \<Rightarrow> bool" where
  "table_of cols n md \<longleftrightarrow> (\<exists>title note rows. md = table_header title note cols @ unlines rows \<and> length rows = n
     \<and> (\<forall>r \<in> set rows. table_line (length cols) r))"

lemma bars_simps [simp]: "bars (xs @ ys) = bars xs + bars ys" "bars [] = 0"
    "bars (c # cs) = (if c = CHR ''|'' then Suc (bars cs) else bars cs)"
  by (simp_all add: bars_def)

lemma plain_bars [simp]: "plain c \<Longrightarrow> bars c = 0"
  by (auto simp: plain_def bars_def filter_empty_conv)

lemma plain_simps [simp]: "plain (xs @ ys) \<longleftrightarrow> plain xs \<and> plain ys" "plain []"
    "plain (c # cs) \<longleftrightarrow> c \<noteq> CHR ''|'' \<and> c \<noteq> CHR 0x0A \<and> plain cs"
  by (auto simp: plain_def)

lemma plain_show [simp]: "plain (show_nat n)"
  unfolding plain_def using show_nat_digits [of n] digit_simps(4,5) by metis

lemma plain_cells [simp]: "plain (show_i128 i)" "plain (current b)"
  by (simp_all add: show_i128_def current_def)

lemma join_line:
  assumes "\<forall>c \<in> set cells. plain c"
  shows "CHR 0x0A \<notin> set (join_with '' | '' cells)" and "cells \<noteq> [] \<Longrightarrow> bars (join_with '' | '' cells) + 1 = length cells"
  using assms
proof (induction cells)
  case (Cons c cells)
  { case 1 then show ?case using Cons.IH(1) by (auto simp: plain_def) }
  { case 2 then show ?case using Cons.IH(2) by (auto) }
qed simp_all

lemma row_line: "cells \<noteq> [] \<Longrightarrow> \<forall>c \<in> set cells. plain c \<Longrightarrow> table_line (length cells) (row cells)"
  using join_line [of cells] by (auto simp: table_line_def row_def)

text \<open>A loop that appends \<open>k\<close> lines in each round.\<close>

definition appends :: "nat \<Rightarrow> nat \<Rightarrow> string \<Rightarrow> string \<Rightarrow> bool" where
  "appends n k md md' \<longleftrightarrow> (\<exists>rows. md' = md @ unlines rows \<and> length rows = k \<and> (\<forall>r \<in> set rows. table_line n r))"

lemma appends_line: "table_line n r \<Longrightarrow> appends n 1 md (md @ r @ nl)"
  unfolding appends_def by (rule exI [of _ "[r]"]) (simp add: unlines_def)

lemma appends_trans: "appends n j md md1 \<Longrightarrow> appends n k md1 md2 \<Longrightarrow> appends n (j + k) md md2"
  unfolding appends_def by (elim exE, rename_tac r r', rule_tac x = "r @ r'" in exI) (auto simp: unlines_def)

lemma wp_appends:
  assumes "\<And>x md s. wp (f x md) (\<lambda>md' _. appends n k md md') s"
  shows "wp (fold_prog f xs md) (\<lambda>md' _. appends n (length xs * k) md md') s"
proof (induction xs arbitrary: md s)
  case Nil
  then show ?case by (simp add: wp_ret appends_def unlines_def)
next
  case (Cons x xs)
  show ?case
    unfolding fold_prog.simps wp_and_then
    by (rule wp_conseq [OF assms], rule wp_conseq [OF Cons.IH]) (auto dest: appends_trans)
qed

lemma table_wp:
  assumes "\<And>x md s. wp (f x md) (\<lambda>md' _. appends (length cols) k md md') s" and "n = length xs * k"
  shows "wp (fold_prog f xs (md @ table_header title note cols)) (\<lambda>md' _. \<exists>t. md' = md @ t \<and> table_of cols n t) s"
  by (rule wp_conseq [OF wp_appends [of f "length cols" k, OF assms(1)]])
    (auto simp: assms(2) appends_def table_of_def)

lemma wp_and_then_any: "(\<And>a t. wp (k a) Q t) \<Longrightarrow> wp (and_then m k) Q s"
  unfolding wp_and_then by (rule wpI) blast

text \<open>The five tables, with the columns of their headers.\<close>

lemma sweep_tables:
  assumes "\<And>n x. plain (f_fixed F n x)"
  shows "wp (sweep_slash F opts md) (\<lambda>md' _. \<exists>t. md' = md @ t \<and> table_of
        [''slash bps'', ''honest retained'', ''honest slash tax'', ''honest margin/answer'', ''cartel excess'',
         ''attacks/1k'', ''wrong rate'', ''platform rev/round'', ''rev CV''] 7 t) s"
    and "wp (sweep_slash_cap F opts md) (\<lambda>md' _. \<exists>t. md' = md @ t \<and> table_of
        [''slash bps'', ''honest retained'', ''honest slash tax'', ''cartel excess'', ''wrong rate''] 6 t) s"
    and "wp (sweep_fee F opts md) (\<lambda>md' _. \<exists>t. md' = md @ t \<and> table_of
        [''fee bps'', ''honest retained'', ''final pool'', ''honest margin/answer'', ''served'', ''platform rev/round'',
         ''rev CV''] 7 t) s"
    and "wp (sweep_quorum F opts md) (\<lambda>md' _. \<exists>t. md' = md @ t \<and> table_of
        [''quorum'', ''cartel share'', ''cartel excess'', ''wrong rate'', ''honest margin/answer'', ''honest retained''] 12 t) s"
proof -
  note rows = slash_row_def slash_cap_row_def fee_row_def quorum_row_def pct_def
  have line: "table_line n (row cells)" if "cells \<noteq> []" "\<forall>c \<in> set cells. plain c" "n = length cells" for n cells
    using row_line that by blast
  have once: "wp (and_then m (\<lambda>s. ret (md @ g s @ nl))) (\<lambda>md' _. appends n 1 md md') s"
    if "\<And>s. table_line n (g s)" for m :: "('e, 's, 'v) prog" and g n md s
    by (rule wp_and_then_any) (simp only: wp_ret appends_line [OF that])
  show "wp (sweep_slash F opts md) (\<lambda>md' _. \<exists>t. md' = md @ t \<and> table_of
        [''slash bps'', ''honest retained'', ''honest slash tax'', ''honest margin/answer'', ''cartel excess'',
         ''attacks/1k'', ''wrong rate'', ''platform rev/round'', ''rev CV''] 7 t) s"
    unfolding sweep_slash_def by (rule table_wp [where k = 1], rule once, unfold rows, rule line) (simp_all add: assms)
  show "wp (sweep_slash_cap F opts md) (\<lambda>md' _. \<exists>t. md' = md @ t \<and> table_of
        [''slash bps'', ''honest retained'', ''honest slash tax'', ''cartel excess'', ''wrong rate''] 6 t) s"
    unfolding sweep_slash_cap_def by (rule table_wp [where k = 1], rule once, unfold rows, rule line) (simp_all add: assms)
  show "wp (sweep_fee F opts md) (\<lambda>md' _. \<exists>t. md' = md @ t \<and> table_of
        [''fee bps'', ''honest retained'', ''final pool'', ''honest margin/answer'', ''served'', ''platform rev/round'',
         ''rev CV''] 7 t) s"
    unfolding sweep_fee_def by (rule table_wp [where k = 1], rule once, unfold rows, rule line) (simp_all add: assms)
  show "wp (sweep_quorum F opts md) (\<lambda>md' _. \<exists>t. md' = md @ t \<and> table_of
        [''quorum'', ''cartel share'', ''cartel excess'', ''wrong rate'', ''honest margin/answer'', ''honest retained''] 12 t) s"
    unfolding sweep_quorum_def
  proof (rule table_wp [where k = 3])
    show "wp (fold_prog (\<lambda>cartel md. and_then (stats F (quorum_cell opts q cartel) (o_seeds opts)) (\<lambda>s.
          ret (md @ quorum_row F q cartel s @ nl))) [10, 20, 30] md)
        (\<lambda>md' _. appends (length [''quorum'', ''cartel share'', ''cartel excess'', ''wrong rate'', ''honest margin/answer'',
          ''honest retained'']) 3 md md') s" for q md s
      by (rule wp_conseq [OF wp_appends [where k = 1]], rule once, unfold rows, rule line) (simp_all add: assms numeral_eq_Suc)
  qed simp
qed

text \<open>A line of the last table is written cell by cell.\<close>

lemma audit_line_wp:
  assumes "\<And>n x. plain (f_fixed F n x)"
  shows "wp (audit_line F opts audit) (\<lambda>line _. table_line 5 line) s"
proof -
  have cells: "wp (fold_prog (\<lambda>bps line. and_then (stats F (audit_cell opts audit bps) (o_seeds opts)) (\<lambda>s.
        ret (line @ '' '' @ f_fixed F 3 (cartel_excess_per_id_per_1k s) @ '' |''))) rates line)
      (\<lambda>line' _. table_line (n + length rates) line') s"
    if "table_line n line" for rates line n s
    using that
  proof (induction rates arbitrary: line n s)
    case (Cons r rates)
    have more: "table_line (Suc n) (line @ '' '' @ f_fixed F 3 x @ '' |'')" for x
      using Cons.prems assms [of 3 x] plain_bars [OF assms, of 3 x] by (simp add: table_line_def plain_def)
    show ?case
      unfolding fold_prog.simps wp_and_then wp_ret
      by (rule wpI, rule wp_conseq [OF Cons.IH [OF more]]) simp
  qed (simp add: wp_ret)
  have "table_line 1 (''| '' @ pct F x @ '' |'')" for x
    using assms [of 1] plain_bars [OF assms, of 1] by (simp add: table_line_def pct_def plain_def)
  then show ?thesis
    unfolding audit_line_def by (rule wp_conseq [OF cells]) (simp_all add: numeral_eq_Suc)
qed

lemma sweep_audit_table:
  assumes "\<And>n x. plain (f_fixed F n x)"
  shows "wp (sweep_audit F opts md) (\<lambda>md' _. \<exists>t. md' = md @ t \<and> table_of
        [''audit'', ''slash 0'', ''slash 500 (current)'', ''slash 2000'', ''slash 5000''] 5 t) s"
  unfolding sweep_audit_def
proof (rule table_wp [where k = 1])
  show "wp (and_then (audit_line F opts audit) (\<lambda>line. ret (md @ line @ nl)))
      (\<lambda>md' _. appends (length [''audit'', ''slash 0'', ''slash 500 (current)'', ''slash 2000'', ''slash 5000'']) 1 md md') s" for audit md s
    unfolding wp_and_then wp_ret
    by (rule wp_conseq [OF audit_line_wp [OF assms]], rule appends_line) (simp add: numeral_eq_Suc)
qed simp

section \<open>What a run of the driver writes\<close>

definition five_tables :: "string \<Rightarrow> bool" where
  "five_tables md \<longleftrightarrow> (\<exists>t1 t2 t3 t4 t5. md = t1 @ t2 @ t3 @ t4 @ t5
    \<and> table_of [''slash bps'', ''honest retained'', ''honest slash tax'', ''honest margin/answer'', ''cartel excess'',
         ''attacks/1k'', ''wrong rate'', ''platform rev/round'', ''rev CV''] 7 t1
    \<and> table_of [''slash bps'', ''honest retained'', ''honest slash tax'', ''cartel excess'', ''wrong rate''] 6 t2
    \<and> table_of [''fee bps'', ''honest retained'', ''final pool'', ''honest margin/answer'', ''served'',
         ''platform rev/round'', ''rev CV''] 7 t3
    \<and> table_of [''quorum'', ''cartel share'', ''cartel excess'', ''wrong rate'', ''honest margin/answer'', ''honest retained''] 12 t4
    \<and> table_of [''audit'', ''slash 0'', ''slash 500 (current)'', ''slash 2000'', ''slash 5000''] 5 t5)"

lemma report_wp:
  assumes "\<And>n x. plain (f_fixed F n x)"
  shows "wp (report F opts) (\<lambda>md _. \<exists>ts. md = preamble opts @ ts \<and> five_tables ts) s"
proof -
  note tables = sweep_tables [OF assms] sweep_audit_table [OF assms]
  show ?thesis
    unfolding report_def wp_and_then
    apply (rule wp_conseq [OF tables(1)], elim exE conjE)
    apply (rule wp_conseq [OF tables(2)], elim exE conjE)
    apply (rule wp_conseq [OF tables(3)], elim exE conjE)
    apply (rule wp_conseq [OF tables(4)], elim exE conjE)
    apply (rule wp_conseq [OF tables(5)], elim exE conjE)
    subgoal for _ _ t1 _ _ t2 _ _ t3 _ _ t4 _ _ t5
      by (intro exI [of _ "t1 @ t2 @ t3 @ t4 @ t5"] conjI) (simp, unfold five_tables_def, intro exI conjI, simp_all)
    done
qed

section \<open>The program returns\<close>

lemma twp_ret_fun: "twp (ret a) Q = Q a"
  by (rule ext) (simp add: twp_basic)

lemma seed_returns:
  fixes F :: "'f stat_floats"
  assumes "sane cfg" and "signed_floats (floats.truncate F) P" and "s * 7919 < 2 ^ 64"
  shows "twp (play_seed F cfg s acc) (\<lambda>_ u. u = t) t"
proof -
  define c where "c = seeded cfg (s * 7919)"
  have sane: "sane c" "sane (c\<lparr>c_strategy := Honest_Play\<rparr>)" "budget (c\<lparr>c_strategy := Honest_Play\<rparr>) = budget c"
      "seat_max (c\<lparr>c_strategy := Honest_Play\<rparr>) = seat_max c"
    using assms(1) by (simp_all add: c_def seeded_def sane_def budget_def seat_max_def)
  obtain r where r: "run (floats.truncate F) c = Some (s_out r)" "roomy P c (budget c) 0 r"
    using run_returns [OF sane(1) assms(2)] by blast
  obtain h where h: "run (floats.truncate F) (c\<lparr>c_strategy := Honest_Play\<rparr>) = Some (s_out h)"
      "roomy P (c\<lparr>c_strategy := Honest_Play\<rparr>) (budget c) 0 h"
    using run_returns [OF sane(2) assms(2)] unfolding sane(3) by blast
  have small: "budget c \<le> u32_max" using sane(1) by (simp add: sane_def)
  have "\<bar>cartel_pnl (s_out r)\<bar> \<le> int (budget c) * seat_max c" "\<bar>cartel_pnl (s_out h)\<bar> \<le> int (budget c) * seat_max c"
    using r(2) h(2) sane(4) by (simp_all add: roomy_def tallies_def)
  then have "\<bar>cartel_pnl (s_out r) - cartel_pnl (s_out h)\<bar> \<le> int (2 * budget c) * seat_max c" by simp
  then have pnl: "i128_range (cartel_pnl (s_out r) - cartel_pnl (s_out h))"
    by (rule within_fits [OF sane(1), rotated]) (use small in simp)
  have served: "resolved (s_out r) + refunded (s_out r) < 2 ^ 64"
    using r(2) small by (simp add: roomy_def tallies_def u32_max_def)
  show ?thesis
    using assms(3) r(1) h(1) pnl served
    by (simp add: play_seed_def add_outcome_def Let_def twp_simps chk_u64_def c_def)
qed

lemma stats_return:
  fixes F :: "'f text_floats"
  assumes "sane cfg" and "signed_floats (floats.truncate F) P" and "n \<le> 2 ^ 50"
  shows "twp (stats F cfg n) (\<lambda>_ u. u = t) t"
proof -
  have F: "floats.truncate (stat_floats.truncate F) = floats.truncate F"
    by (simp add: floats.truncate_def stat_floats.truncate_def)
  have "twp (fold_prog (play_seed (stat_floats.truncate F) cfg) [0..<n] (no_summary (stat_floats.truncate F)))
      (\<lambda>_ u. u = t \<and> set ([] :: nat list) \<subseteq> {..<n}) t"
    by (rule twp_fold [where I = "\<lambda>xs _ u. u = t \<and> set xs \<subseteq> {..<n}"])
      (use assms(3) in \<open>auto simp: F intro!: twp_conseq [OF seed_returns [OF assms(1), of _ P]] assms(2)\<close>)
  then show ?thesis by (simp add: stats_def summarize_def twp_and_then twp_ret_fun)
qed

text \<open>All cells are sane for up to nine million rounds.\<close>

lemma cells_sane:
  assumes "o_rounds opts \<le> 9000000"
  shows "bps \<in> {0..10000} \<Longrightarrow> sane (slash_cell opts bps)" "bps \<in> {0..10000} \<Longrightarrow> sane (slash_cap_cell opts bps)"
    "bps \<in> {0..10000} \<Longrightarrow> sane (fee_cell opts bps)" "bps \<in> {0..10000} \<Longrightarrow> sane (audit_cell opts audit bps)"
    "q \<in> {1..9} \<Longrightarrow> cartel \<le> 100 \<Longrightarrow> sane (quorum_cell opts q cartel)"
proof -
  note defs = sane_def budget_def slash_cell_def slash_cap_cell_def fee_cell_def audit_cell_def quorum_cell_def with_slash_def
    base_config_def default_config_def CONTRACT_def MONEY_def USDC_def u32_max_def sim_PLATFORM_FEE_BPS_def sim_SLASH_BPS_def
    sim_SLASH_CAP_BPS_OF_AMOUNT_def
  show "bps \<in> {0..10000} \<Longrightarrow> sane (slash_cell opts bps)" "bps \<in> {0..10000} \<Longrightarrow> sane (slash_cap_cell opts bps)"
    "bps \<in> {0..10000} \<Longrightarrow> sane (fee_cell opts bps)" "bps \<in> {0..10000} \<Longrightarrow> sane (audit_cell opts audit bps)"
    using assms by (simp_all add: defs)
  assume q: "q \<in> {1..9}" and c: "cartel \<le> 100"
  have "o_rounds opts * (50 * q + 1) \<le> 9000000 * (50 * 9 + 1)" by (rule mult_le_mono) (use assms q in auto)
  then show "sane (quorum_cell opts q cartel)" using q c by (simp add: defs algebra_simps)
qed

lemma report_returns:
  assumes "signed_floats (floats.truncate F) P" and "o_seeds opts \<le> 2 ^ 50" and "o_rounds opts \<le> 9000000"
  shows "twp (report F opts) (\<lambda>_ u. u = t) t"
proof -
  have line: "twp (and_then (stats F cfg (o_seeds opts)) (\<lambda>s. ret (g s))) (\<lambda>_ u. u = t) t" if "sane cfg" for cfg g t
    unfolding twp_and_then twp_basic by (rule stats_return [OF that assms(1,2)])
  have loop: "twp (fold_prog f xs md) (\<lambda>_ u. u = t) t" if "\<And>x md t. x \<in> set xs \<Longrightarrow> twp (f x md) (\<lambda>_ u. u = t) t" for f xs md t
    by (rule twp_conseq [OF twp_fold [where I = "\<lambda>ys _ u. u = t \<and> set ys \<subseteq> set xs"]]) (auto intro: twp_conseq [OF that])
  note sane = cells_sane [OF assms(3)]
  have audit: "twp (audit_line F opts r) (\<lambda>_ u. u = t) t" for r t
    unfolding audit_line_def by (rule loop, rule line, rule sane(4)) auto
  have tables: "twp (sweep_slash F opts md) (\<lambda>_ u. u = t) t" "twp (sweep_slash_cap F opts md) (\<lambda>_ u. u = t) t"
    "twp (sweep_fee F opts md) (\<lambda>_ u. u = t) t" "twp (sweep_quorum F opts md) (\<lambda>_ u. u = t) t" for md t
    unfolding sweep_slash_def sweep_slash_cap_def sweep_fee_def sweep_quorum_def
    by (rule loop, rule line, rule sane(1), force, rule loop, rule line, rule sane(2), force,
        rule loop, rule line, rule sane(3), force, rule loop, rule loop, rule line, rule sane(5), force, force)
  have last: "twp (sweep_audit F opts md) (\<lambda>_ u. u = t) t" for md t
    unfolding sweep_audit_def twp_and_then by (rule loop) (simp add: twp_and_then twp_ret_fun audit)
  show ?thesis
    unfolding report_def twp_and_then
    by (rule twp_conseq [OF tables(1)], hypsubst, rule twp_conseq [OF tables(2)], hypsubst, rule twp_conseq [OF tables(3)], hypsubst,
        rule twp_conseq [OF tables(4)], hypsubst, rule last)
qed

text \<open>
  C29. The report can be reproduced: the command it prints is one that \<open>parse_args\<close> reads back as the same seeds
  and rounds, and with that command line (and \<open>--out\<close>, if any) the driver returns, for any seeds up to
  \<open>2 ^ 50\<close> and nine million rounds, and writes, to the file or to standard output, the preamble and five
  tables with 7, 6, 7, 12 and 5 lines in which every line has exactly one cell for each column of its header.
\<close>

theorem report_reproducible:
  assumes "\<And>n x. plain (f_fixed F n x)" and "signed_floats (floats.truncate F) P"
    and "o_seeds opts \<le> 2 ^ 50" and "o_rounds opts \<le> 9000000"
  shows "(\<exists>pre post. preamble opts = pre @ ''`cargo run --release -- '' @ join_with '' '' (take 4 (command_line opts)) @ ''`'' @ post)
    \<and> (\<exists>ts. main_program F (command_line opts) s
          = Ok ((case o_out opts of Some path \<Rightarrow> To_File path | None \<Rightarrow> To_Stdout) (preamble opts @ ts)) s \<and> five_tables ts)"
proof
  show "\<exists>pre post. preamble opts = pre @ ''`cargo run --release -- '' @ join_with '' '' (take 4 (command_line opts)) @ ''`'' @ post"
    by (rule exI [of _ "''# Incentive-alignment simulation tables'' @ nl @ nl @ ''Generated by ''"])
      (simp add: preamble_def command_line_def)
  have "twp (report F opts) (\<lambda>_ u. u = s) s" by (rule report_returns [OF assms(2-4)])
  then obtain md where md: "report F opts s = Ok md s" by (auto simp: twp_def)
  obtain ts where "md = preamble opts @ ts" "five_tables ts" using wp_OkD [OF report_wp [OF assms(1)] md] by blast
  moreover have "parse_args (command_line opts) s = Ok (Run_With opts) s"
    using assms(3,4) by (subst parse_command_line) (simp_all add: u64_max_def u32_max_def ret_def)
  ultimately show "\<exists>ts. main_program F (command_line opts) s
      = Ok ((case o_out opts of Some path \<Rightarrow> To_File path | None \<Rightarrow> To_Stdout) (preamble opts @ ts)) s \<and> five_tables ts"
    using md by (auto simp: main_program_def and_then_def ret_def split: option.splits)
qed

definition int_text :: "int text_floats" where
  "int_text = \<lparr>f_dec = (\<lambda>n k. n div 10 ^ k), f_of_int = (\<lambda>x. x), f_add = (+), f_sub = (-), f_mul = (*), f_div = (div),
     f_max = max, f_less = (<), f_to_u32 = nat, f_sum = sum_list, f_powi = (\<lambda>x n. x ^ nat n), f_sqrt = (\<lambda>x. x),
     f_eq = (=), f_fixed = (\<lambda>n x. show_i128 x)\<rparr>"

text \<open>The documented defaults, eight seeds and two hundred rounds.\<close>

theorem report_reproducible_witness:
  "\<exists>ts. main_program int_text [''--seeds'', ''8'', ''--rounds'', ''200'', ''--out'', ''tables.md''] ()
     = Ok (To_File ''tables.md'' (preamble \<lparr>o_seeds = 8, o_rounds = 200, o_out = Some ''tables.md''\<rparr> @ ts)) () \<and> five_tables ts"
proof -
  define opts where "opts = \<lparr>o_seeds = 8, o_rounds = 200, o_out = Some ''tables.md''\<rparr>"
  have line: "command_line opts = [''--seeds'', ''8'', ''--rounds'', ''200'', ''--out'', ''tables.md'']"
    unfolding opts_def by code_simp
  have "floats.truncate int_text = int_floats" by (simp add: int_text_def int_floats_def floats.truncate_def)
  then have signed: "signed_floats (floats.truncate int_text) nonneg" using int_floats_signed by simp
  have plain: "plain (f_fixed int_text n x)" for n x by (simp add: int_text_def)
  show ?thesis
    using report_reproducible [OF plain signed, of opts "()"] unfolding line opts_def [symmetric] by (simp add: opts_def)
qed

end
