(* ===== verification/Resolve_Rules.thy ===== *)
theory Resolve_Rules
  imports Exit_Rules Payment_Rules Governance_Rules Returns
begin

text \<open>
  A resolution that meets its guards goes through: nothing in the slashes, the split, the credits, the
  routing and the closing can overflow, trap or run out of money, because every amount involved is
  part of what the contract holds. Total correctness (\<open>twp\<close>, theory Returns) on top of the partial rules.
\<close>

section \<open>What a settlement does not touch\<close>

definition around :: "'w world \<Rightarrow> _" where
  "around s = (ledger s, get_participant_count s, p_resolved_count s, i_token s)"

lemma around_payout: "untouched around (payout env q t a n ls)" and around_slash: "untouched around (slash env t w cap)"
  unfolding payout_def split_amount_def distribute_slashes_def slash_loser_def slash_def mul_bps_def stake_key_def
    stake_info_for_token_def mature_warming_def mature_step_def or_default_def put_stake_def set_persistent_def ttl_defs
    publish_def extend_ttl_def
  by (intro frame_intros; simp add: around_def get_participant_count_def)+

section \<open>Slashes return\<close>

text \<open>
  From here on \<open>B\<close> is what the contract holds of the question's token. \<open>funded\<close>: the books stand, the
  slack has risen by at least \<open>v\<close>, and nothing has been paid out yet.
\<close>

definition funded :: "'w env \<Rightarrow> address \<Rightarrow> address \<Rightarrow> i128 \<Rightarrow> 'w world \<Rightarrow> 'w world \<Rightarrow> bool" where
  "funded env d tok v s t \<longleftrightarrow> gains env d tok v s t \<and> 0 \<le> slack env d tok s \<and> ledger t = ledger s
     \<and> i128_range (tok_balance env tok (self env) (ledger s))"

lemma funded_wf: "funded env d tok v s t \<Longrightarrow> books_wf d t"
  by (simp add: funded_def gains_def)

lemma funded_bounds:
  assumes "funded env d tok v s t"
  shows "liabilities d tok t + v \<le> tok_balance env tok (self env) (ledger s)"
    and "0 \<le> liabilities d tok t"
    and "p_stake t k = Some i \<Longrightarrow> key_token d k = tok \<Longrightarrow> 0 \<le> stake_total i \<and> stake_total i + v \<le> tok_balance env tok (self env) (ledger s)"
    and "0 \<le> x \<Longrightarrow> x \<le> tok_balance env tok (self env) (ledger s) \<Longrightarrow> i128_range x"
proof -
  note f = assms [unfolded funded_def gains_def]
  have wf: "books_wf d t" using f by simp
  show lv: "liabilities d tok t + v \<le> tok_balance env tok (self env) (ledger s)"
    using f by (auto simp: slack_def dest: spec [where x = tok])
  note parts = books_parts [OF wf, of tok]
  show "0 \<le> liabilities d tok t" using parts by (simp add: liabilities_def)
  show "0 \<le> stake_total i \<and> stake_total i + v \<le> tok_balance env tok (self env) (ledger s)"
    if i: "p_stake t k = Some i" "key_token d k = tok"
  proof -
    have ok: "stakes_ok (p_stake t)" using wf by (simp add: books_wf_def)
    have "keyed_stake d tok k i \<le> msum (keyed_stake d tok) (p_stake t)"
      by (rule msum_member) (use ok i in \<open>auto simp: stakes_ok_def keyed_stake_def stake_total_nonneg\<close>)
    then show ?thesis using parts lv ok i by (auto simp: keyed_stake_def liabilities_def stakes_ok_def stake_total_nonneg)
  qed
  show "i128_range x" if "0 \<le> x" "x \<le> tok_balance env tok (self env) (ledger s)"
    using i128_rangeI [OF that] f by blast
qed

lemma slash_returns:
  assumes "funded env d tok v s t" and "0 \<le> v"
  shows "twp (slash env tok w cap) (\<lambda>_ _. True) t"
proof -
  have wf: "books_wf d t" by (rule funded_wf [OF assms(1)])
  then have tok: "i_token t = Some d" and st: "stakes_wf t"
    by (auto simp: books_wf_def stakes_ok_def stakes_wf_def)
  define key where "key = (if tok = d then KStake w else KStakeAsset tok w)"
  have kt: "key_token d key = tok" by (simp add: key_def)
  have "i128_range (stake_total (stored_stake key t))"
  proof (cases "p_stake t key")
    case None
    then show ?thesis by (simp add: stored_stake_def)
  next
    case (Some i)
    then show ?thesis using funded_bounds(3) [OF assms(1) Some kt] funded_bounds(4) [OF assms(1)] assms(2)
      by (simp add: stored_stake_def)
  qed
  from slash_run [OF tok key_def st refl this, of env cap] show ?thesis by (auto simp: twp_def)
qed

lemma slash_funds:
  assumes "funded env d tok v s t" and "0 \<le> v"
  shows "twp (slash env tok w cap) (\<lambda>x u. funded env d tok (v + x) s u \<and> 0 \<le> x) t"
proof -
  have "wp (slash env tok w cap) (\<lambda>x u. (gains env d tok x t u \<and> 0 \<le> x) \<and> around u = around t) t"
    by (rule wp_conj [THEN iffD2], rule conjI [OF slash_gains [OF funded_wf [OF assms(1)]] wp_untouched [OF around_slash]])
  from twp_with [OF slash_returns [OF assms] this] show ?thesis
    by (rule twp_conseq) (use assms in \<open>auto simp: funded_def around_def intro: gains_trans\<close>)
qed

text \<open>The running sums of \<open>distribute_slashes\<close> stay below what was slashed, hence below \<open>B\<close>.\<close>

definition slashed_so_far :: "'w env \<Rightarrow> address \<Rightarrow> address \<Rightarrow> i128 \<Rightarrow> 'w world \<Rightarrow> i128 \<times> i128 \<times> i128 \<Rightarrow> 'w world \<Rightarrow> bool" where
  "slashed_so_far env d tok n s acc t = (case acc of (take', redist, tot) \<Rightarrow>
     funded env d tok tot s t \<and> tot = take' + redist * n \<and> 0 \<le> take' \<and> 0 \<le> redist)"

lemma slash_loser_returns:
  assumes "slashed_so_far env d tok n s acc t" and "0 < n"
  shows "twp (slash_loser env q tok cap n l acc) (slashed_so_far env d tok n s) t"
proof -
  obtain a b c where acc: "acc = (a, b, c)" by (cases acc)
  have f: "funded env d tok c s t" and sum: "c = a + b * n" "0 \<le> a" "0 \<le> b"
    using assms(1) unfolding slashed_so_far_def acc case_prod_conv by blast+
  have c: "0 \<le> c" using sum assms(2) by simp
  have step: "twp (if 0 < v then
            and_then (mul_bps v SLASH_REDISTRIBUTE_BPS) (\<lambda>worker_portion.
            let platform_portion = v - worker_portion;
                redist_share = worker_portion sdiv n;
                redist_dust = worker_portion - redist_share * n
            in and_then (ok_or (checked_add b redist_share) ArithmeticOverflow) (\<lambda>redist'.
               and_then (ok_or (checked_add a platform_portion) ArithmeticOverflow) (\<lambda>take1.
               and_then (ok_or (checked_add take1 redist_dust) ArithmeticOverflow) (\<lambda>take2.
               and_then (ok_or (checked_add c v) ArithmeticOverflow) (\<lambda>total'.
               seq_do (publish (QuestionEv (WorkerSlashed q l v)))
                 (ret (take2, redist', total')))))))
          else ret (a, b, c)) (slashed_so_far env d tok n s) u"
    if u: "funded env d tok (c + v) s u" "0 \<le> v" for v u
  proof (cases "v = 0")
    case True
    then show ?thesis using u sum by (simp add: twp_simps slashed_so_far_def)
  next
    case False
    let ?B = "tok_balance env tok (self env) (ledger s)"
    define p where "p = mul_bps_val v SLASH_REDISTRIBUTE_BPS"
    define r where "r = p sdiv n"
    have B: "c + v \<le> ?B" using funded_bounds(1,2) [OF u(1)] by simp
    have range: "i128_range x" if "0 \<le> x" "x \<le> c + v" for x
      using funded_bounds(4) [OF u(1), of x] that B by simp
    have split: "0 \<le> r" "0 \<le> p - r * n" "0 \<le> v - p"
      unfolding r_def by (rule slash_split [OF u(2) assms(2) p_def])+
    have fits: "mul_bps_fits v SLASH_REDISTRIBUTE_BPS"
      using range [of v] u(2) c by (intro mul_bps_fits_dom) (simp_all add: SLASH_REDISTRIBUTE_BPS_def)
    have grow: "x \<le> x * n" if "0 \<le> x" for x using mult_left_mono [of 1 n x] that assms(2) by simp
    have bn: "0 \<le> b * n" "b \<le> b * n" "r \<le> r * n" using sum assms(2) grow [of b] grow [OF split(1)] by simp_all
    have ranges: "i128_range (b + r)" "i128_range (a + (v - p))" "i128_range (a + (v - p) + (p - r * n))" "i128_range (c + v)"
      by (rule range; use bn sum split u(2) in linarith)+
    have total: "c + v = a + (v - p) + (p - r * n) + (b + r) * n" using sum by (simp add: algebra_simps)
    have final: "slashed_so_far env d tok n s (a + (v - p) + (p - r * n), b + r, c + v) (u\<lparr>events := e\<rparr>)" for e
      using u(1) gains_after [of env d tok "c + v" s u "u\<lparr>events := e\<rparr>"] total split sum
      by (simp add: slashed_so_far_def funded_def books_def)
    show ?thesis
      unfolding p_def [symmetric] r_def [symmetric] Let_def twp_if twp_and_then twp_seq_do
      using False u(2) fits ranges final by (simp add: twp_simps p_def [symmetric] r_def [symmetric])
  qed
  show ?thesis
    unfolding slash_loser_def acc case_prod_conv twp_and_then [of "slash _ _ _ _"]
    by (rule twp_conseq [OF slash_funds [OF f c]], erule conjE) (rule step)
qed

lemma payout_returns:
  assumes "funded env d tok 0 s s" and "p_question s q = Some x" and "open_status (q_status x)" and "q_token x = tok"
    and "0 < n"
  shows "twp (payout env q' tok (q_amount x) n ls) (\<lambda>(f, tot, ptake, credit) t. funded env d tok tot s t \<and> 0 \<le> credit
     \<and> 0 \<le> ptake \<and> tot + q_amount x = n * credit + ptake \<and> around t = around s) s"
proof -
  let ?a = "q_amount x" let ?B = "tok_balance env tok (self env) (ledger s)"
  define fee where "fee = ?a * 2000 div 10000"
  have wf: "books_wf d s" by (rule funded_wf [OF assms(1)])
  then have a: "0 \<le> ?a" using assms(2) by (auto simp: books_wf_def questions_ok_def less_imp_le)
  have covers: "?a + v \<le> ?B" if "funded env d tok v s t" for v t
  proof -
    have q: "p_question t q = Some x" and wt: "books_wf d t" using that assms(2) by (auto simp: funded_def gains_def)
    then have ok: "questions_ok (p_question t) (p_question_token t)" by (simp add: books_wf_def)
    have "escrowed tok q x \<le> msum (escrowed tok) (p_question t)"
      by (rule msum_member) (use ok q in \<open>auto simp: questions_ok_def escrowed_def less_imp_le\<close>)
    moreover have "escrowed tok q x = ?a" using assms(3,4) by (simp add: escrowed_def)
    ultimately have "?a \<le> liabilities d tok t"
      using books_parts [OF wt, of tok] unfolding liabilities_def by linarith
    then show ?thesis using funded_bounds(1) [OF that] by simp
  qed
  have range: "i128_range y" if "funded env d tok v s t" "0 \<le> y" "y \<le> ?a + v" for y v t
    using funded_bounds(4) [OF that(1,2)] covers [OF that(1)] that(3) by simp
  have ra: "i128_range ?a" using range [OF assms(1) a] by simp
  have fee: "0 \<le> fee" "fee \<le> ?a" using a mul_bps_le [OF a, of 2000] by (simp_all add: mul_bps_exact fee_def)
  have parts: "0 \<le> (?a - fee) div n" "0 \<le> (?a - fee) mod n"
      "(?a - fee) div n * n + (?a - fee) mod n = ?a - fee"
    using fee assms(5) by (simp_all add: pos_imp_zdiv_nonneg_iff)
  have fits: "mul_bps_fits ?a SLASH_CAP_BPS_OF_AMOUNT"
    using a ra by (intro mul_bps_fits_dom) (simp_all add: SLASH_CAP_BPS_OF_AMOUNT_def)
  have start: "slashed_so_far env d tok n s (0, 0, 0) s" using assms(1) by (simp add: slashed_so_far_def)
  have grow: "y \<le> y * n" if "0 \<le> y" for y using mult_left_mono [of 1 n y] that assms(5) by simp
  have dist: "twp (distribute_slashes env q' tok ls cap n) (slashed_so_far env d tok n s) s" for cap
    unfolding distribute_slashes_def
    by (rule twp_fold [where I = "\<lambda>_. slashed_so_far env d tok n s"]) (use start assms(5) slash_loser_returns in blast)+
  define share where "share = (?a - fee) div n"
  define dust where "dust = (?a - fee) mod n"
  have share: "0 \<le> share" "share \<le> share * n" "0 \<le> dust" "fee + dust + share * n = ?a"
    using parts grow by (simp_all add: share_def dust_def)
  have tail: "twp (and_then (chk (fee + dust)) (\<lambda>fee_dust.
     and_then (ok_or (checked_add fee_dust x') ArithmeticOverflow) (\<lambda>ptake.
     and_then (ok_or (checked_add share y) ArithmeticOverflow) (\<lambda>credit.
       ret (fee, tot, ptake, credit))))) (\<lambda>(f, tot, ptake, credit) t. funded env d tok tot s t) t"
    if "slashed_so_far env d tok n s (x', y, tot) t" for x' y tot t
  proof -
    have f: "funded env d tok tot s t" and sum: "tot = x' + y * n" "0 \<le> x'" "0 \<le> y"
      using that unfolding slashed_so_far_def case_prod_conv by blast+
    have "i128_range (fee + dust)" "i128_range (fee + dust + x')" "i128_range (share + y)"
      by (rule range [OF f]; use sum share fee grow [of y] in linarith)+
    then show ?thesis using f by (simp add: twp_simps)
  qed
  have runs: "twp (payout env q' tok ?a n ls) (\<lambda>(f, tot, ptake, credit) t. funded env d tok tot s t) s"
    unfolding payout_def
    apply (simp add: twp_and_then [of "split_amount _ _"] twp_def [of "split_amount _ _"] split_amount_run [OF a ra assms(5) fee_def]
        twp_and_then [of "mul_bps _ _"] twp_arith fits share_def [symmetric] dust_def [symmetric])
    apply (simp only: twp_and_then [of "distribute_slashes _ _ _ _ _ _"])
    by (rule twp_conseq [OF dist]) (auto intro: tail)
  have partial: "wp (payout env q' tok ?a n ls) (\<lambda>r t. (case r of (fee, tot, ptake, credit) \<Rightarrow>
     gains env d tok tot s t \<and> 0 \<le> credit \<and> 0 \<le> ptake \<and> tot + ?a = n * credit + ptake) \<and> around t = around s) s"
    by (rule wp_conj [THEN iffD2], rule conjI [OF payout_gains [OF wf a assms(5)] wp_untouched [OF around_payout]])
  show ?thesis by (rule twp_conseq [OF twp_with [OF runs partial]]) auto
qed

section \<open>Credits return\<close>

lemma owed_and_escrow:
  assumes "funded env d tok v s t" and "p_question s q = Some x" and "open_status (q_status x)" and "q_token x = tok"
    and "key_token d k = tok"
  shows "0 \<le> stored_i128 (p_owed t) k" and "stored_i128 (p_owed t) k + q_amount x + v \<le> tok_balance env tok (self env) (ledger s)"
proof -
  have wf: "books_wf d t" and q: "p_question t q = Some x" using assms(1,2) by (auto simp: funded_def gains_def)
  then have ok: "questions_ok (p_question t) (p_question_token t)" "amounts_ok (p_owed t)" by (simp_all add: books_wf_def)
  show "0 \<le> stored_i128 (p_owed t) k" using ok(2) by simp
  have "escrowed tok q x \<le> msum (escrowed tok) (p_question t)"
    by (rule msum_member) (use ok(1) q in \<open>auto simp: questions_ok_def escrowed_def less_imp_le\<close>)
  moreover have "escrowed tok q x = q_amount x" using assms(3,4) by (simp add: escrowed_def)
  moreover have "stored_i128 (p_owed t) k \<le> msum (keyed d tok) (p_owed t)"
  proof (cases "p_owed t k")
    case None
    then show ?thesis using books_parts(2) [OF wf] by (simp add: stored_i128_def)
  next
    case (Some o')
    have "keyed d tok k o' \<le> msum (keyed d tok) (p_owed t)"
      by (rule msum_member) (use ok(2) Some in \<open>auto simp: amounts_ok_def keyed_def\<close>)
    then show ?thesis using Some assms(5) by (simp add: stored_i128_def keyed_def)
  qed
  ultimately show "stored_i128 (p_owed t) k + q_amount x + v \<le> tok_balance env tok (self env) (ledger s)"
    using books_parts [OF wf, of tok] funded_bounds(1) [OF assms(1)] unfolding liabilities_def by linarith
qed

lemma track_returns:
  assumes "get_participant_count s < u32_max"
  shows "twp (track_participant env a) (\<lambda>_ u. get_participant_count u \<le> Suc (get_participant_count s)
     \<and> ledger u = ledger s \<and> p_resolved_count u = p_resolved_count s) s"
  using assms by (auto simp: track_participant_def twp_simps get_participant_count_def counter_def)

lemma credit_returns:
  assumes "i_token s = Some d" and "get_participant_count s < u32_max"
    and "k = (if tok = d then KOwed w else KOwedAsset tok w)" and "i128_range (stored_i128 (p_owed s) k + v)"
  shows "twp (credit_worker env q tok v w) (\<lambda>_ u. get_participant_count u \<le> Suc (get_participant_count s)
     \<and> ledger u = ledger s \<and> p_resolved_count u = p_resolved_count s) s"
proof -
  have key: "owed_key tok w s = Ok k s"
    using assms(1,3) by (simp add: owed_key_def get_token_cfg_def run_defs)
  have tracked: "twp (track_participant env w) (\<lambda>_ u. get_participant_count u \<le> Suc (get_participant_count s)
     \<and> ledger u = ledger s \<and> p_resolved_count u = p_resolved_count s) t"
    if "get_participant_count t = get_participant_count s" "ledger t = ledger s" "p_resolved_count t = p_resolved_count s" for t
    using track_returns [of t env w] assms(2) that by simp
  show ?thesis
    using assms(1,2,4)
    by (auto simp: credit_worker_def credit_owed_def put_owed_def twp_simps twp_def [of "owed_key _ _"] key get_participant_count_def
        simp del: block.simps intro!: twp_conseq [OF tracked])
qed

definition crediting :: "'w env \<Rightarrow> address \<Rightarrow> address \<Rightarrow> i128 \<Rightarrow> i128 \<Rightarrow> 'w world \<Rightarrow> nat \<Rightarrow> 'w world \<Rightarrow> bool" where
  "crediting env d tok left credit s k u \<longleftrightarrow> funded env d tok (left + int k * credit) s u
     \<and> get_participant_count u + k \<le> u32_max \<and> p_resolved_count u = p_resolved_count s"

lemma credits_return:
  assumes "crediting env d tok left credit s (length ws) t" and "0 \<le> credit"
    and "p_question s q = Some x" and "open_status (q_status x)" and "q_token x = tok"
    and "0 \<le> left + q_amount x"
  shows "twp (for_each ws (credit_worker env q' tok credit)) (\<lambda>_. crediting env d tok left credit s 0) t"
proof -
  have step: "twp (credit_worker env q' tok credit w) (\<lambda>_. crediting env d tok left credit s (length ys)) u"
    if u: "crediting env d tok left credit s (length (w # ys)) u" for w ys u
  proof -
    define k where "k = (if tok = d then KOwed w else KOwedAsset tok w)"
    have kt: "key_token d k = tok" by (simp add: k_def)
    have f: "funded env d tok (left + int (length (w # ys)) * credit) s u" using u by (simp add: crediting_def)
    have wf: "books_wf d u" by (rule funded_wf [OF f])
    note o = owed_and_escrow [OF f assms(3-5) kt]
    have "0 \<le> int (length ys) * credit" using assms(2) by simp
    moreover have "int (length (w # ys)) * credit = int (length ys) * credit + credit" by (simp add: algebra_simps)
    ultimately have "stored_i128 (p_owed u) k + credit \<le> tok_balance env tok (self env) (ledger s)"
      using o(2) assms(6) by linarith
    then have range: "i128_range (stored_i128 (p_owed u) k + credit)"
      using funded_bounds(4) [OF f] o(1) assms(2) by simp
    have tok: "i_token u = Some d" using wf by (simp add: books_wf_def)
    have room: "get_participant_count u < u32_max" using u by (simp add: crediting_def)
    have "funded env d tok (left + int (length ys) * credit) s v"
      if "gains env d tok (- credit) u v" "ledger v = ledger u" for v
      using f that gains_sum [OF _ that(1), of "left + int (length (w # ys)) * credit" s] by (simp add: funded_def algebra_simps)
    then show ?thesis
      using u by (intro twp_conseq [OF twp_with [OF credit_returns [OF tok room k_def range] credit_worker_gains [OF wf assms(2)]]])
        (auto simp: crediting_def)
  qed
  show ?thesis
    using twp_for_each [where I = "\<lambda>ys. crediting env d tok left credit s (length ys)", OF assms(1) step] by simp
qed

section \<open>The platform is paid\<close>

lemma pay_returns:
  assumes "live_token env" and "honest env" and "0 \<le> a" and "a \<le> tok_balance env t (self env) (ledger s)"
  shows "twp (transfer env t (self env) r a) (\<lambda>_ u. p_resolved_count u = p_resolved_count s
     \<and> tok_balance env t (self env) (ledger s) - a \<le> tok_balance env t (self env) (ledger u)) s"
proof -
  have "tok_transfer env t (self env) r a (ledger s) \<noteq> None"
    using assms(1) [unfolded live_token_def, rule_format, of a t "ledger s" r] assms(3,4) by simp
  then obtain l where l: "tok_transfer env t (self env) r a (ledger s) = Some l" by blast
  then show ?thesis using honest_transfer [OF assms(2) l, of t "self env"] assms(3) by (simp add: twp_simps)
qed

lemma pay_positive_returns:
  assumes "live_token env" and "honest env" and "0 \<le> a" and "a \<le> tok_balance env t (self env) (ledger s)"
  shows "twp (transfer_if_positive env t r a) (\<lambda>_ u. p_resolved_count u = p_resolved_count s
     \<and> tok_balance env t (self env) (ledger s) - a \<le> tok_balance env t (self env) (ledger u)) s"
  using pay_returns [OF assms] assms(3) by (simp add: transfer_if_positive_def twp_simps)

lemma route_returns:
  assumes "live_token env" and "honest env" and "0 \<le> a" and "a \<le> tok_balance env t (self env) (ledger s)"
    and "i128_range a" and "counter (i_pg_bps s) \<le> 10000"
  shows "twp (route_platform_take env t r a) (\<lambda>_ u. p_resolved_count u = p_resolved_count s) s"
proof -
  define g where "g = mul_bps_val a (int (counter (i_pg_bps s)))"
  have g: "0 \<le> g" "g \<le> a" "mul_bps_fits a (int (counter (i_pg_bps s)))"
    using assms by (simp_all add: g_def mul_bps_le mul_bps_nonneg mul_bps_fits_dom)
  have whole: "twp (transfer env t (self env) r a) (\<lambda>_ u. p_resolved_count u = p_resolved_count s) s"
    by (rule twp_conseq [OF pay_returns [OF assms(1-4)]]) simp
  have split: "twp (block [transfer_if_positive env t x g, transfer_if_positive env t r (a - g)])
      (\<lambda>_ u. p_resolved_count u = p_resolved_count s) s" for x
    unfolding twp_block
  proof (rule twp_conseq [OF pay_positive_returns [OF assms(1,2) g(1)]])
    show "g \<le> tok_balance env t (self env) (ledger s)" using g(2) assms(4) by simp
    fix u :: "'a world"
    assume u: "p_resolved_count u = p_resolved_count s
      \<and> tok_balance env t (self env) (ledger s) - g \<le> tok_balance env t (self env) (ledger u)"
    show "twp (transfer_if_positive env t r (a - g)) (\<lambda>_. (\<lambda>u. p_resolved_count u = p_resolved_count s)) u"
      by (rule twp_conseq [OF pay_positive_returns [OF assms(1,2)]]) (use u g assms(4) in auto)
  qed
  show ?thesis
    using whole split g(3)
    by (cases "i_pg_address s")
      (simp_all add: route_platform_take_def twp_and_then twp_basic twp_arith g_def [symmetric] del: block.simps)
qed

section \<open>Counts and the closing return\<close>

lemma record_returns:
  assumes "counter (p_resolved_count s w) < u32_max"
  shows "twp (record_resolved_credit env w) (\<lambda>_ u. \<forall>v. v \<noteq> w \<longrightarrow> p_resolved_count u v = p_resolved_count s v) s"
  using assms by (simp add: record_resolved_credit_def update_leaderboard_def get_resolved_count_def twp_simps)

lemma records_return:
  assumes "distinct ws" and "\<forall>w\<in>set ws. counter (p_resolved_count s w) < u32_max"
  shows "twp (for_each ws (record_resolved_credit env)) (\<lambda>_ _. True) s"
proof -
  let ?I = "\<lambda>ys u. distinct ys \<and> (\<forall>w\<in>set ys. counter (p_resolved_count u w) < u32_max)"
  have start: "?I ws s" using assms by simp
  have "twp (for_each ws (record_resolved_credit env)) (\<lambda>_. ?I []) s"
  proof (rule twp_for_each [where I = ?I, OF start])
    show "twp (record_resolved_credit env y) (\<lambda>_. ?I ys) u" if "?I (y # ys) u" for y ys u
      by (rule twp_conseq [OF record_returns]) (use that in auto)
  qed
  then show ?thesis by (rule twp_conseq) simp
qed

lemma settle_asset_returns:
  assumes "funded env d tok 0 s s" and "live_token env" and "honest env" and "p_question s q = Some x"
    and "open_status (q_status x)" and "q_token x = tok" and "ws \<noteq> []"
    and "get_participant_count s + length ws \<le> u32_max"
  shows "twp (settle_asset env q' tok (q_amount x) ws ls plat) (\<lambda>_ u. p_resolved_count u = p_resolved_count s) s"
proof -
  have n: "0 < int (length ws)" using assms(7) by simp
  have pay: "twp (block [for_each ws (credit_worker env q' tok credit), route_platform_take env tok plat ptake])
      (\<lambda>_ u. p_resolved_count u = p_resolved_count s) t"
    if t: "funded env d tok tot s t" "0 \<le> credit" "0 \<le> ptake" "tot + q_amount x = int (length ws) * credit + ptake"
      "around t = around s" for tot credit ptake t
  proof -
    let ?left = "tot - int (length ws) * credit"
    have start: "crediting env d tok ?left credit s (length ws) t"
      using t(1,5) assms(8) by (simp add: crediting_def around_def)
    have left: "?left + q_amount x = ptake" using t(4) by simp
    have route: "twp (route_platform_take env tok plat ptake) (\<lambda>_ u. p_resolved_count u = p_resolved_count s) u"
      if u: "crediting env d tok ?left credit s 0 u" for u
    proof -
      have f: "funded env d tok ?left s u" using u by (simp add: crediting_def)
      have wf: "books_wf d u" by (rule funded_wf [OF f])
      have key: "key_token d (if tok = d then KOwed plat else KOwedAsset tok plat) = tok" by simp
      have le: "ptake \<le> tok_balance env tok (self env) (ledger s)"
        using owed_and_escrow [OF f assms(4-6) key] left by linarith
      have same: "ledger u = ledger s" "p_resolved_count u = p_resolved_count s"
        using f u by (simp_all add: funded_def crediting_def)
      show ?thesis
        using route_returns [OF assms(2,3) t(3), of tok u plat] le funded_bounds(4) [OF f t(3) le] wf
        by (simp add: same books_wf_def)
    qed
    show ?thesis
      unfolding twp_block
      by (rule twp_conseq [OF credits_return [OF start t(2) assms(4-6)]]) (use left t(3) route in simp_all)
  qed
  show ?thesis
    unfolding settle_asset_def twp_and_then
    by (rule twp_conseq [OF payout_returns [OF assms(1,4-6) n]]) (auto simp: twp_seq_do twp_basic simp del: block.simps intro!: twp_conseq [OF pay])
qed

section \<open>Resolutions return\<close>

text \<open>What a resolution needs beyond its guards: room in the 32-bit counts it increments.\<close>

definition room_for :: "address list \<Rightarrow> 'w world \<Rightarrow> bool" where
  "room_for ws s \<longleftrightarrow> get_participant_count s + length ws \<le> u32_max
     \<and> (\<forall>w\<in>set ws. get_resolved_count w s < u32_max)"

lemma settle_resolution_returns:
  assumes "sound E d s" and "on_host E env" and "live_token E" and "sep41 E" and "\<not> authorized env (self E)"
    and "p_question s q = Some x" and "i128_range (tok_balance E (q_token x) (self E) (ledger s))"
    and "resolve_error q ws ls s = None" and "i_platform s = Some plat" and "room_for ws s"
  shows "twp (settle_resolution env q ws ls h) (\<lambda>_ _. True) s"
proof -
  have wf: "books_wf d s" and st: "stage_ok s" using assms(1) by (simp_all add: sound_def)
  note host = on_host_simps [OF assms(2)]
  have env: "live_token env" "honest env" using assms(3-5) host by (simp_all add: live_token_def honest_def)
  have ok: "ws \<noteq> []" "distinct (ws @ ls)" "q_status x = Pending" and guards: "check_lists ws ls s = Ok () s"
    using assms(6,8) unfolding resolve_error_def check_lists_run by (auto split: if_splits)
  note legs = books_question [OF wf assms(6)]
  have open': "open_status (q_status x)" using ok(3) by simp
  have funded: "funded env d (q_token x) 0 s s"
    using assms(1,7) host wf by (simp add: funded_def sound_def)
  have room: "get_participant_count s + length ws \<le> u32_max" "\<forall>w\<in>set ws. counter (p_resolved_count s w) < u32_max"
    using assms(10) by (simp_all add: room_for_def get_resolved_count_def)
  have settled: "twp (settle_asset env q (q_token x) (q_amount x) ws ls plat)
      (\<lambda>_ u. p_resolved_count u = p_resolved_count s \<and> stage u = stage s) s"
    by (rule twp_with [OF settle_asset_returns [OF funded env assms(6) open' refl ok(1) room(1)] settle_asset_stage])
  have close: "twp (block [for_each ws (record_resolved_credit env), settle_question env q x Resolved, notarize q h, publish e])
      (\<lambda>_ _. True) u" if u: "p_resolved_count u = p_resolved_count s" "stage u = stage s" for u e
  proof -
    have records: "twp (for_each ws (record_resolved_credit env)) (\<lambda>_ v. True \<and> stage v = stage u) u"
      by (rule twp_with [OF records_return for_each_stage [OF record_stage]]) (use u(1) room(2) ok(2) in simp_all)
    have "twp (settle_question env q x Resolved) (\<lambda>_ _. True) v" if "stage v = stage u" for v
    proof -
      have "index_wf v" using stage_ok_cong [of v s] that u(2) st by (simp add: stage_ok_def)
      from settle_question_returns [OF this, of env q x Resolved] show ?thesis by (auto simp: twp_def)
    qed
    note closed = this
    have tail: "twp (block [notarize q h, publish e]) (\<lambda>_ _. True) v" for v :: "'a world"
      by (cases h) (simp_all add: notarize_def twp_simps)
    show ?thesis
      unfolding twp_block(2) [of "for_each _ _"] twp_block(2) [of "settle_question _ _ _ _"]
    proof (rule twp_conseq [OF records])
      fix r and v :: "'a world" assume "True \<and> stage v = stage u"
      then have "twp (settle_question env q x Resolved) (\<lambda>_ _. True) v" by (intro closed) simp
      then show "twp (settle_question env q x Resolved) (\<lambda>_. twp (block [notarize q h, publish e]) (\<lambda>_ _. True)) v"
        by (rule twp_conseq) (rule tail)
    qed
  qed
  have load: "load_question q s = Ok x s" "question_token q s = Ok (q_token x) s"
    using assms(6) legs by (simp_all add: load_question_def question_token_def run_defs)
  have whole: "twp (fold_prog (settle_leg env q ws ls plat False) [(q_token x, q_amount x)] (0, 0))
      (\<lambda>r. twp (case r of (fee, tot) \<Rightarrow> block [for_each ws (record_resolved_credit env), settle_question env q x Resolved,
         notarize q h, publish (e fee tot)]) (\<lambda>_ _. True)) s" for e
    by (simp add: settle_leg_def twp_and_then case_prod_beta twp_basic del: block.simps)
      (rule twp_conseq [OF settled], auto simp: twp_basic simp del: block.simps intro: close)
  have nil: "twp (block []) Q = Q ()" for Q :: "unit \<Rightarrow> 'a world \<Rightarrow> bool"
    by (rule ext) (rule twp_block(1))
  show ?thesis
    using whole legs(3) ok(3) assms(9)
    by (simp add: settle_resolution_def twp_block(2) nil twp_and_then twp_def [of "check_lists _ _"] guards twp_def [of "load_question _"]
        twp_def [of "question_token _"] load twp_basic Let_def del: block.simps fold_prog.simps)
qed

text \<open>The constructor names an admin and a platform, and no call takes them away.\<close>

lemma reachable_roles:
  assumes "reachable E peers d s"
  shows "\<exists>a plat. i_admin s = Some a \<and> i_platform s = Some plat"
  using assms
proof induction
  case (created env l admin platform timeout s)
  have "wp (constructor env admin d platform timeout) (\<lambda>_ u. i_admin u = Some admin \<and> i_platform u = Some platform) (blank_world l)"
    by (simp add: constructor_def wp_simps)
  from wp_OkD [OF this created(3)] show ?case by blast
next
  case (called s env e r u)
  show ?case
  proof (cases "exec env peers e s")
    case (Ok z v)
    then have u: "u = v" using called(5) by (simp add: invoke_def)
    have "i_platform v = i_platform s"
      using config_step [OF _ Ok] wp_OkD [OF roots_fixed Ok] by (cases "configures e") (auto simp: config_def)
    moreover have "i_admin v = i_admin s \<or> (\<exists>a. i_admin v = Some a)" using admin_change [OF Ok] by blast
    ultimately show ?thesis using called.IH u by auto
  qed (use called in \<open>auto simp: invoke_def\<close>)
qed simp

text \<open>
  C4. Every question can be settled: in a reachable world, on a token that pays what its holder has and
  whose balances are \<open>i128\<close>, \<open>resolve\<close> with the right signature and lists that meet its guards
  returns and marks the question Resolved. No slash, split, credit, transfer or index update can trap, overflow
  or run out of money, as long as the 32-bit counts of participants and of the winners' resolved answers have room.
\<close>

theorem resolution_available:
  assumes "reachable E peers d s" and "sep41 E" and "\<And>a. peer_bounded E (peers a)" and "live_token E"
    and "on_host E env" and "\<not> authorized env (self E)" and "p_question s q = Some x"
    and "i128_range (tok_balance E (q_token x) (self E) (ledger s))" and "resolve_error q ws ls s = None"
    and "authorized env (case i_resolver s of Some r \<Rightarrow> r | None \<Rightarrow> the (i_admin s))" and "room_for ws s"
  shows "\<exists>u. resolve env q ws ls h s = Ok () u \<and> p_question u = (p_question s)(q \<mapsto> x\<lparr>q_status := Resolved\<rparr>)"
proof -
  have ok: "sound E d s" by (rule reachable_sound [OF assms(1-3)])
  obtain a plat where roles: "i_admin s = Some a" "i_platform s = Some plat" using reachable_roles [OF assms(1)] by blast
  obtain u where u: "settle_resolution env q ws ls (Some h) s = Ok () u"
    using settle_resolution_returns [OF ok assms(5,4,2,6-9) roles(2) assms(11), of "Some h"] by (auto simp: twp_def)
  have "resolve env q ws ls h s = Ok () u"
    using u assms(10) roles(1) by (auto simp: resolve_def require_resolver_or_admin_def require_auth_def run_defs split: option.splits)
  moreover have "p_question u = (p_question s)(q \<mapsto> x\<lparr>q_status := Resolved\<rparr>)"
    using wp_OkD [OF settle_resolution_stage [OF _ refl] u] ok assms(7) by (auto simp: restaged_def sound_def)
  ultimately show ?thesis by blast
qed

theorem resolution_available_witness:
  "\<exists>u. resolve (at 40) 7 [bob, carol] [dave] [] opened = Ok () u \<and> qstatus u 7 = Some Resolved"
proof -
  obtain x where x: "p_question opened 7 = Some x" "q_token x = usd" using opened_question by blast
  have facts: "i128_range (tok_balance sample_host usd (self sample_host) (ledger opened))"
    "resolve_error 7 [bob, carol] [dave] opened = None" "i_admin opened = Some owner" "i_resolver opened = None"
    "room_for [bob, carol] opened" by code_simp+
  show ?thesis
    using resolution_available [OF sample_opened sample_sep41 sample_bounded sample_live sample_on_host sample_unauthorized x(1) _
        facts(2) _ facts(5), of 40 "[]"] facts(1,3,4) x(2) by (auto simp: qstatus_def)
qed

end
