(* ===== verification/Sim_Rules.thy ===== *)
theory Sim_Rules
  imports Sim_Math Sample
begin

text \<open>
  The simulation's arithmetic is the contract's: a slash computed on bare buckets and a slash made by
  the contract agree, and so do the two settlements.
\<close>

section \<open>Rates and buckets\<close>

lemma sim_mul_bps_same: "sim_mul_bps = mul_bps"
  by (intro ext) (simp add: sim_mul_bps_def mul_bps_def sim_BPS_DENOM_def BPS_DENOM_def)

lemma contract_rates:
  "fee_bps CONTRACT = PLATFORM_FEE_BPS" "slash_bps CONTRACT = SLASH_BPS"
  "slash_cap_bps_of_amount CONTRACT = SLASH_CAP_BPS_OF_AMOUNT" "sim_SLASH_REDISTRIBUTE_BPS = SLASH_REDISTRIBUTE_BPS"
  by (simp_all add: CONTRACT_def bps_defs sim_PLATFORM_FEE_BPS_def sim_SLASH_BPS_def sim_SLASH_CAP_BPS_OF_AMOUNT_def
      sim_SLASH_REDISTRIBUTE_BPS_def)

definition buckets :: "stake_info \<Rightarrow> sim_stake" where
  "buckets i = \<lparr>sim_warming = warming i, sim_settled = settled i, sim_unbonding = unbonding i\<rparr>"

text \<open>What the contract's ledger holds of a worker's stake in a token, after maturing.\<close>

definition stake_slot :: "address \<Rightarrow> address \<Rightarrow> address \<Rightarrow> data_key" where
  "stake_slot d t w = (if t = d then KStake w else KStakeAsset t w)"

definition bond_of :: "u32 \<Rightarrow> address \<Rightarrow> address \<Rightarrow> 'w world \<Rightarrow> address \<Rightarrow> sim_stake" where
  "bond_of n d t s w = buckets (matured n (stored_stake (stake_slot d t w) s))"

lemma stake_slot_inj [simp]: "stake_slot d t w = stake_slot d t v \<longleftrightarrow> w = v"
  by (simp add: stake_slot_def)

section \<open>One slash\<close>

definition young :: "u32 \<Rightarrow> stake_info \<Rightarrow> bool" where
  "young n info \<longleftrightarrow> (\<forall>t\<in>set (tranches_of info). \<not> warmed_up n t)"

lemma young_matured: "young n (matured n info)"
  by (cases "warming_tranches info") (simp_all add: young_def matured_def tranches_of_def some_tranches_def Let_def)

lemma matured_young: "young n info \<Longrightarrow> buckets (matured n info) = buckets info"
  by (cases "warming_tranches info")
    (simp_all add: young_def buckets_def matured_def tranches_of_def filter_empty_conv)

lemma young_slashed:
  assumes "young n info"
  shows "young n (slash_buckets info a)"
proof -
  have "young n (drain_warming info b)" for b
  proof (cases "warming_tranches info")
    case None
    then show ?thesis using assms by (simp add: drain_warming_def)
  next
    case (Some ts)
    then have ts: "\<forall>t\<in>set ts. \<not> warmed_up n t" using assms by (simp add: young_def tranches_of_def)
    obtain ts' l where d: "drain_loop (length ts) ts b = (ts', l)" by fastforce
    have "\<forall>t\<in>set ts'. \<not> warmed_up n t"
      using drain_loop_prefix [OF d] ts by (fastforce simp: warmed_up_def dest: in_set_takeD)
    then show ?thesis using Some d by (simp add: drain_warming_def young_def)
  qed
  then show ?thesis by (simp add: slash_buckets_def young_def Let_def)
qed

lemma wp_take_bucket: "wp (take_bucket l b) Q s
    = (i128_range (b - min l b) \<longrightarrow> i128_range (l - min l b) \<longrightarrow> Q (b - min l b, l - min l b) s)"
  by (simp add: take_bucket_def wp_simps Let_def)

lemma sim_slash_buckets:
  fixes x :: 's
  assumes "stake_wf info"
  shows "wp (sim_slash (buckets info) SLASH_BPS cap :: ('e, 's, sim_stake \<times> i128) prog) (\<lambda>(b, v) _. i128_range (stake_total info)
    \<and> v = slash_amount (stake_total info) cap
    \<and> b = (if v = 0 then buckets info else buckets (slash_buckets info v))) x"
proof -
  let ?t = "stake_total info" and ?a = "slash_amount (stake_total info) cap"
  have tot: "settled info + warming info + unbonding info = ?t" by (simp add: stake_total_def)
  have zero: "?a = 0" if "?t \<le> 0" using that by (simp add: slash_amount_def)
  have drained: "buckets (slash_buckets info v) = \<lparr>sim_warming = warming info - min v (warming info),
        sim_settled = settled info - min (v - min v (warming info)) (settled info),
        sim_unbonding = unbonding info - min (v - min v (warming info) - min (v - min v (warming info)) (settled info))
          (unbonding info)\<rparr>" if "0 < v" for v
    using drain_warming_spec [OF assms, of "min v (warming info)"] stake_wf_warming [OF assms] that
    by (simp add: slash_buckets_def buckets_def Let_def)
  define m where "m = min (min (mul_bps_val ?t SLASH_BPS) cap) ?t"
  have a: "?a = max 0 m" by (simp add: slash_amount_def m_def)
  have pay: "wp (and_then (take_bucket m (warming info)) (\<lambda>(w, l). and_then (take_bucket l (settled info)) (\<lambda>(st, l).
      and_then (take_bucket l (unbonding info)) (\<lambda>(ub, l). ret (\<lparr>sim_warming = w, sim_settled = st, sim_unbonding = ub\<rparr>, m)))) :: ('e, 's, sim_stake \<times> i128) prog)
      (\<lambda>(b, v) _. v = m \<and> b = buckets (slash_buckets info v)) x" if "0 < m"
    by (simp add: wp_and_then wp_take_bucket wp_ret drained [OF that])
  show ?thesis
  proof (cases "?t \<le> 0 \<or> m \<le> 0")
    case True
    then show ?thesis
      using zero a by (auto simp: sim_slash_def slashable_def sim_mul_bps_same wp_and_then wp_chk wp_ret wp_mul_bps
          tot buckets_def Let_def m_def [symmetric] simp del: max_def)
  next
    case False
    let ?Q = "\<lambda>(b, v) _. v = ?a \<and> b = (if v = 0 then buckets info else buckets (slash_buckets info v))"
    have "wp (and_then (take_bucket m (warming info)) (\<lambda>(w, l). and_then (take_bucket l (settled info)) (\<lambda>(st, l).
      and_then (take_bucket l (unbonding info)) (\<lambda>(ub, l). ret (\<lparr>sim_warming = w, sim_settled = st, sim_unbonding = ub\<rparr>, m)))) :: ('e, 's, sim_stake \<times> i128) prog)
      ?Q x"
      by (rule wp_conseq [OF pay]) (use a False in auto)
    with False show ?thesis
      by (simp add: sim_slash_def slashable_def sim_mul_bps_same wp_and_then wp_chk wp_mul_bps
          tot Let_def m_def [symmetric] buckets_def [of info])
  qed
qed

lemma slash_nothing: "stake_wf info \<Longrightarrow> buckets (slash_buckets info 0) = buckets info"
  using drain_warming_spec [of info 0] stake_wf_warming [of info]
  by (simp add: slash_buckets_def buckets_def Let_def stake_wf_def)

lemma slash_agrees:
  assumes "stakes_wf s" and "i_token s = Some d" and "sim_slash (bond_of (now env) d t s w) SLASH_BPS cap x = Ok (b, v) y"
  shows "\<exists>u. slash env t w cap s = Ok v u \<and> 0 \<le> v \<and> stakes_wf u \<and> i_token u = Some d
     \<and> bond_of (now env) d t u = (bond_of (now env) d t s)(w := b)"
proof -
  define key info where "key = stake_slot d t w" and "info = stored_stake key s"
  define m where "m = matured (now env) info"
  have wf: "stake_wf info" "stake_wf m" using stored_stake_wf [OF assms(1)] by (simp_all add: info_def m_def matured_wf)
  have sim: "i128_range (stake_total info)" "v = slash_amount (stake_total info) cap"
      "b = (if v = 0 then buckets m else buckets (slash_buckets m v))"
    using wp_OkD [OF sim_slash_buckets [OF wf(2)]] assms(3)
    by (fastforce simp: bond_of_def m_def info_def key_def)+
  have v: "0 \<le> v" "v \<le> stake_total m"
    using sim(2) stake_total_nonneg [OF wf(2)] by (simp_all add: slash_amount_def m_def)
  obtain u where u: "slash env t w cap s = Ok v u" "slash_frame s u"
      "p_stake u = p_stake s \<and> v = 0 \<or> p_stake u = (p_stake s)(key \<mapsto> slash_buckets m v)"
    using slash_run [OF assms(2) key_def [unfolded stake_slot_def] assms(1) info_def sim(1), of env cap]
    unfolding sim(2) m_def by blast
  have tok: "i_token u = Some d"
    using arg_cong [OF u(2) [unfolded slash_frame_def], of i_token] assms(2) by simp
  have swf: "stakes_wf u"
    using u(3) stakes_wf_cong [of u s] assms(1) slash_buckets_spec [OF wf(2) v]
      stakes_wf_cong [of u "s\<lparr>p_stake := (p_stake s)(key \<mapsto> slash_buckets m v)\<rparr>"] stakes_wf_put [OF assms(1)]
    by auto
  have "buckets (matured (now env) (slash_buckets m v)) = buckets (slash_buckets m v)"
    by (intro matured_young young_slashed) (simp add: m_def young_matured)
  moreover have "b = buckets (slash_buckets m v)" using sim(3) slash_nothing [OF wf(2)] by auto
  moreover have "v = 0 \<Longrightarrow> buckets m = b" using sim(3) by simp
  ultimately have "bond_of (now env) d t u z = ((bond_of (now env) d t s)(w := b)) z" for z
    using u(3) by (cases "z = w") (auto simp: bond_of_def stored_stake_def m_def info_def key_def)
  then show ?thesis using u(1) v(1) swf tok by blast
qed

section \<open>The losers of a question\<close>

lemma worker_portion_le: "0 \<le> v \<Longrightarrow> mul_bps v SLASH_REDISTRIBUTE_BPS s = Ok p u \<Longrightarrow> 0 \<le> p \<and> p \<le> v \<and> u = s"
  by (auto simp: mul_bps_run SLASH_REDISTRIBUTE_BPS_def mul_bps_le split: if_splits)

text \<open>What one slash of \<open>v\<close> adds: each worker's share, and the platform's part with the remainder.\<close>

definition portion :: "i128 \<Rightarrow> i128" where
  "portion v = mul_bps_val v SLASH_REDISTRIBUTE_BPS"

lemma portion_parts:
  assumes "0 < v" and "0 < n"
  shows "0 \<le> portion v" and "portion v \<le> v" and "portion v sdiv n = portion v div n" and "0 \<le> portion v div n"
    and "0 \<le> portion v - portion v div n * n"
  using assms mul_bps_le [of v SLASH_REDISTRIBUTE_BPS] mul_bps_nonneg [of v SLASH_REDISTRIBUTE_BPS]
    pos_mod_sign [of n "portion v"] minus_div_mult_eq_mod [of "portion v" n]
  by (simp_all add: portion_def SLASH_REDISTRIBUTE_BPS_def sdiv_nonneg pos_imp_zdiv_nonneg_iff)

definition adds :: "i128 \<Rightarrow> i128 \<Rightarrow> i128 \<times> i128 \<times> i128 \<Rightarrow> i128 \<times> i128 \<times> i128 \<Rightarrow> bool" where
  "adds n v acc acc' = (case acc of (r, p, tt) \<Rightarrow> case acc' of (r', p', tt') \<Rightarrow>
     if 0 < v then mul_bps_fits v SLASH_REDISTRIBUTE_BPS \<and> r' = r + portion v div n
       \<and> p' = p + (v - portion v + (portion v - portion v div n * n)) \<and> tt' = tt + v
       \<and> i128_range r' \<and> i128_range p' \<and> i128_range tt'
     else r' = r \<and> p' = p \<and> tt' = tt)"

lemma sim_loser_run:
  assumes "sim_slash_loser n bps cap a (done, r, p, tt) x = (Ok (done', r', p', tt') y :: ('e, 's, _) outcome)"
    and "0 < n"
  shows "\<exists>b v z. sim_slash a bps cap x = (Ok (b, v) z :: ('e, 's, _) outcome) \<and> done' = done @ [b]
     \<and> adds n v (r, p, tt) (r', p', tt')"
proof -
  obtain b v z where v: "sim_slash a bps cap x = (Ok (b, v) z :: ('e, 's, _) outcome)"
    using assms(1) by (auto simp: sim_slash_loser_def and_then_def split: outcome.splits)
  have "done' = done @ [b] \<and> adds n v (r, p, tt) (r', p', tt')"
  proof (cases "0 < v")
    case True
    then show ?thesis
      using assms(1) v portion_parts(3) [OF True assms(2)]
      by (auto simp: sim_slash_loser_def run_defs chk_def sim_mul_bps_same mul_bps_run contract_rates Let_def
          adds_def portion_def [symmetric] split: if_splits)
  next
    case False
    then show ?thesis using assms(1) v by (simp add: sim_slash_loser_def run_defs adds_def)
  qed
  then show ?thesis using v by blast
qed

lemma loser_agrees:
  assumes "stakes_wf s" and "i_token s = Some d" and "0 < n" and "0 \<le> p"
    and "sim_slash_loser n SLASH_BPS cap (bond_of (now env) d t s w) (done, r, p, tt) x
      = (Ok (done', r', p', tt') y :: ('e, 's, _) outcome)"
  shows "\<exists>u b. slash_loser env q t cap n w (p, r, tt) s = Ok (p', r', tt') u \<and> done' = done @ [b] \<and> 0 \<le> p'
     \<and> stakes_wf u \<and> i_token u = Some d \<and> bond_of (now env) d t u = (bond_of (now env) d t s)(w := b)"
proof -
  obtain b v z where v: "sim_slash (bond_of (now env) d t s w) SLASH_BPS cap x = (Ok (b, v) z :: ('e, 's, _) outcome)"
      "done' = done @ [b]"
      "adds n v (r, p, tt) (r', p', tt')"
    using sim_loser_run [OF assms(5,3)] by blast
  obtain u where u: "slash env t w cap s = Ok v u" "0 \<le> v" "stakes_wf u" "i_token u = Some d"
      "bond_of (now env) d t u = (bond_of (now env) d t s)(w := b)"
    using slash_agrees [OF assms(1,2) v(1)] by blast
  show ?thesis
  proof (cases "0 < v")
    case False
    then have "slash_loser env q t cap n w (p, r, tt) s = Ok (p', r', tt') u"
      using u(1) v(3) by (simp add: slash_loser_def run_defs adds_def)
    then show ?thesis using u v False assms(4) by (auto simp: adds_def)
  next
    case True
    let ?u = "u\<lparr>events := events u @ [QuestionEv (WorkerSlashed q w v)]\<rparr>"
    note part = portion_parts [OF True assms(3)]
    have some: "mul_bps_fits v SLASH_REDISTRIBUTE_BPS" "r' = r + portion v div n"
        "p' = p + (v - portion v + (portion v - portion v div n * n))" "tt' = tt + v"
        "i128_range r'" "i128_range p'" "i128_range tt'"
      using v(3) [unfolded adds_def prod.case if_P [OF True]] by blast+
    have "0 \<le> p + (v - portion v)" "p + (v - portion v) \<le> p'" using some(3) part(2,5) assms(4) by linarith+
    then have mid: "i128_range (p + (v - portion v))" using some(6) by (rule i128_rangeI)
    have sums: "r + portion v div n = r'" "p + (v - portion v div n * n) = p'" "tt + v = tt'"
      using some(2-4) by simp_all
    have "slash_loser env q t cap n w (p, r, tt) s = Ok (p', r', tt') ?u"
      using True part(3) mid some(1,5-7) sums
      by (simp add: slash_loser_def run_defs u(1) mul_bps_run portion_def [symmetric] checked_add_def publish_def Let_def)
    moreover have "bond_of (now env) d t ?u = bond_of (now env) d t u" by (rule ext) (simp add: bond_of_def stored_stake_def)
    moreover have "stakes_wf ?u" using u(3) stakes_wf_cong [of ?u u] by simp
    moreover have "0 \<le> p'" using some part assms(4) by simp
    ultimately show ?thesis using u(4,5) v(2) by fastforce
  qed
qed

lemma losers_agree:
  assumes "stakes_wf s" and "i_token s = Some d" and "0 < n" and "0 \<le> p" and "distinct ls"
    and "fold_prog (sim_slash_loser n SLASH_BPS cap) (map (bond_of (now env) d t s) ls) (done, r, p, tt) x
      = (Ok (done', r', p', tt') y :: ('e, 's, _) outcome)"
  shows "\<exists>u. fold_prog (slash_loser env q t cap n) ls (p, r, tt) s = Ok (p', r', tt') u
     \<and> done' = done @ map (bond_of (now env) d t u) ls
     \<and> (\<forall>w. w \<notin> set ls \<longrightarrow> bond_of (now env) d t u w = bond_of (now env) d t s w)"
  using assms
proof (induction ls arbitrary: s p r tt "done" x)
  case Nil
  then show ?case by (simp add: ret_def)
next
  case (Cons w ls)
  obtain d1 r1 p1 t1 x1 where one: "sim_slash_loser n SLASH_BPS cap (bond_of (now env) d t s w) (done, r, p, tt) x
        = (Ok (d1, r1, p1, t1) x1 :: ('e, 's, _) outcome)"
      and rest: "fold_prog (sim_slash_loser n SLASH_BPS cap) (map (bond_of (now env) d t s) ls) (d1, r1, p1, t1) x1
        = (Ok (done', r', p', tt') y :: ('e, 's, _) outcome)"
    using Cons.prems(6) by (auto simp: and_then_def split: outcome.splits)
  obtain u b where u: "slash_loser env q t cap n w (p, r, tt) s = Ok (p1, r1, t1) u" "d1 = done @ [b]" "0 \<le> p1"
      "stakes_wf u" "i_token u = Some d" "bond_of (now env) d t u = (bond_of (now env) d t s)(w := b)"
    using loser_agrees [OF Cons.prems(1-4) one] by blast
  have same: "map (bond_of (now env) d t s) ls = map (bond_of (now env) d t u) ls"
    using Cons.prems(5) by (simp add: u(6))
  obtain v where v: "fold_prog (slash_loser env q t cap n) ls (p1, r1, t1) u = Ok (p', r', tt') v"
      "done' = d1 @ map (bond_of (now env) d t v) ls"
      "\<forall>w. w \<notin> set ls \<longrightarrow> bond_of (now env) d t v w = bond_of (now env) d t u w"
    using Cons.IH [OF u(4,5) Cons.prems(3) u(3) _ rest [unfolded same]] Cons.prems(5) by auto
  have "bond_of (now env) d t v w = b" using v(3) Cons.prems(5) u(6) by simp
  then show ?case using v u(1,2,6) Cons.prems(5) by (auto simp: and_then_def)
qed

section \<open>The two settlements\<close>

text \<open>
  C15. The simulation and the contract compute the same settlement: whenever \<open>math::resolve\<close> returns on
  the losers' matured stakes with the deployed rates and the sums it reports fit, the contract's own
  split, slashes and redistribution return, with the same fee, the same platform take, the same credit
  for every winner and the same total slashed, and leave every loser with the simulated stake.
\<close>

theorem simulation_agrees:
  assumes "stakes_wf s" and "i_token s = Some d" and "distinct losers"
    and "sim_resolve amount winners (map (bond_of (now env) d tok s) losers) CONTRACT x
      = (Ok (st, left) y :: ('e, 's, _) outcome)"
    and "settlement_platform_take st y = (Ok plat y :: ('e, 's, _) outcome)"
    and "i128_range (share st + redistribution_share st)"
  shows "\<exists>u. payout env q tok amount (int winners) losers s
       = Ok (fee st, total_slashed st, plat, share st + redistribution_share st) u
     \<and> map (bond_of (now env) d tok u) losers = left"
proof -
  let ?f = "mul_bps_val amount PLATFORM_FEE_BPS" and ?cap = "mul_bps_val amount SLASH_CAP_BPS_OF_AMOUNT"
  let ?n = "int winners" and ?sh = "(amount - mul_bps_val amount PLATFORM_FEE_BPS) sdiv int winners"
  have head: "0 < winners" "mul_bps_fits amount PLATFORM_FEE_BPS" "i128_range (amount - ?f)" "i128_range (?sh * ?n)"
      "i128_range (amount - ?f - ?sh * ?n)" "mul_bps_fits amount SLASH_CAP_BPS_OF_AMOUNT"
    and st: "fee st = ?f" "share st = ?sh" "dust st = amount - ?f - ?sh * ?n"
    and loop: "fold_prog (sim_slash_loser ?n SLASH_BPS ?cap) (map (bond_of (now env) d tok s) losers) ([], 0, 0, 0) x
      = (Ok (left, redistribution_share st, slash_platform_take st, total_slashed st) y :: ('e, 's, _) outcome)"
    using assms(4)
    by (auto simp: sim_resolve_def run_defs chk_def sim_mul_bps_same contract_rates mul_bps_run Let_def
        split: if_splits outcome.splits)
  obtain u where u: "fold_prog (slash_loser env q tok ?cap ?n) losers (0, 0, 0) s
        = Ok (slash_platform_take st, redistribution_share st, total_slashed st) u"
      "left = map (bond_of (now env) d tok u) losers"
    using losers_agree [OF assms(1,2) _ _ assms(3) loop] head(1) by auto
  have sums: "i128_range (?f + (amount - ?f - ?sh * ?n))"
      "i128_range (?f + (amount - ?f - ?sh * ?n) + slash_platform_take st)"
      "plat = ?f + (amount - ?f - ?sh * ?n) + slash_platform_take st"
    using assms(5) by (auto simp: settlement_platform_take_def run_defs chk_def st split: if_splits)
  have "payout env q tok amount ?n losers s
      = Ok (?f, total_slashed st, ?f + (amount - ?f - ?sh * ?n) + slash_platform_take st, ?sh + redistribution_share st) u"
    using head sums(1,2) assms(6)
    by (simp add: payout_def split_amount_def distribute_slashes_def u(1) run_defs chk_def mul_bps_run checked_add_def
        st Let_def del: diff_add_cancel add_diff_cancel_left' add_diff_cancel_right')
  then show ?thesis using u(2) sums(3) st by auto
qed

text \<open>The opened sample question, with Dave in the minority.\<close>

theorem simulation_agrees_witness:
  "\<exists>u. payout (at 40) 7 usd 1000 2 [dave] opened = Ok (200, 20, 210, 405) u
     \<and> bond_of 40 usd usd u dave = \<lparr>sim_warming = 380, sim_settled = 0, sim_unbonding = 0\<rparr>"
proof -
  let ?st = "\<lparr>fee = 200, share = 400, redistribution_share = 5, dust = 0, total_slashed = 20,
      slash_platform_take = 10\<rparr>"
  have wf: "stakes_wf opened"
    using reachable_sound [OF sample_opened sample_sep41 sample_bounded]
    by (auto simp: sound_def books_wf_def stakes_ok_def stakes_wf_def)
  have tok: "i_token opened = Some usd" by code_simp
  have bond: "bond_of 40 usd usd opened dave = \<lparr>sim_warming = 400, sim_settled = 0, sim_unbonding = 0\<rparr>"
  proof -
    let ?b = "bond_of 40 usd usd opened dave"
    have "sim_warming ?b = 400" "sim_settled ?b = 0" "sim_unbonding ?b = 0" by code_simp+
    then show ?thesis by (intro sim_stake.equality) simp_all
  qed
  have sim: "sim_resolve 1000 2 (map (bond_of (now (at 40)) usd usd opened) [dave]) CONTRACT ()
      = (Ok (?st, [\<lparr>sim_warming = 380, sim_settled = 0, sim_unbonding = 0\<rparr>]) () :: (unit, _, _) outcome)"
    unfolding list.map at_simps bond by code_simp
  have take: "settlement_platform_take ?st () = (Ok 210 () :: (unit, _, _) outcome)" by code_simp
  show ?thesis
    using simulation_agrees [OF wf tok _ sim take, of 7] by (simp add: i128_range_def i128_max_def)
qed

end
