(* ===== verification/Transfer_Rules.thy ===== *)
theory Transfer_Rules
  imports Payment_Rules
begin

text \<open>
  Migration between two deployments. The source's ledger is here the world of the target: its peer
  runs the target's own \<open>import_question\<close> and \<open>import_balances\<close>, and traps when they fail, as the
  client call does. Both contracts are then the code's, and what arrives is compared with what left.
\<close>

section \<open>The target as a peer\<close>




text \<open>What the nested ledger leaves alone, and what it shows.\<close>

lemma nested_ledger [simp]:
  fixes s :: "'w world"
  shows "p_question (s\<lparr>ledger := l\<rparr>) = p_question s" "p_question (s\<lparr>events := e\<rparr>) = p_question s"
    "p_question_token (s\<lparr>ledger := l\<rparr>) = p_question_token s" "p_question_token (s\<lparr>events := e\<rparr>) = p_question_token s"
    "i_token (s\<lparr>ledger := l\<rparr>) = i_token s" "i_token (s\<lparr>events := e\<rparr>) = i_token s"
    "p_stake (s\<lparr>ledger := l\<rparr>) = p_stake s" "p_stake (s\<lparr>events := e\<rparr>) = p_stake s"
    "p_owed (s\<lparr>ledger := l\<rparr>) = p_owed s" "p_owed (s\<lparr>events := e\<rparr>) = p_owed s"
    "p_balance (s\<lparr>ledger := l\<rparr>) = p_balance s" "p_balance (s\<lparr>events := e\<rparr>) = p_balance s"
    "ledger (s\<lparr>ledger := l\<rparr>) = l" "ledger (s\<lparr>events := e\<rparr>) = ledger s"
    "ledger (s\<lparr>p_question := qs\<rparr>) = ledger s" "ledger (s\<lparr>p_stake := st\<rparr>) = ledger s"
    "ledger (s\<lparr>p_owed := ow\<rparr>) = ledger s" "ledger (s\<lparr>p_balance := ba\<rparr>) = ledger s"
  by simp_all

section \<open>Questions\<close>






section \<open>Accounts\<close>

text \<open>What a contract with default token \<open>d\<close> keeps for someone in a token, of the three kinds.\<close>

datatype holding = Staked | Earned | Prepaid

fun held :: "address \<Rightarrow> 'w world \<Rightarrow> holding \<Rightarrow> address \<Rightarrow> address \<Rightarrow> i128" where
  "held d s Staked t w = stake_total (stored_stake (if t = d then KStake w else KStakeAsset t w) s)"
| "held d s Earned t w = stored_i128 (p_owed s) (if t = d then KOwed w else KOwedAsset t w)"
| "held d s Prepaid t w = stored_i128 (p_balance s) (if t = d then KBalance w else KBalanceAsset t w)"

lemma held_cong:
  "p_stake u = p_stake s \<Longrightarrow> p_owed u = p_owed s \<Longrightarrow> p_balance u = p_balance s \<Longrightarrow> held d u h t w = held d s h t w"
  by (cases h) (simp_all add: stored_stake_def)









section \<open>What leaves\<close>

text \<open>
  \<open>settled_up D s u\<close>: of the pairs in \<open>D\<close> the source keeps nothing and the target has gained all the
  source held; everything else is where it was.
\<close>

definition settled_up :: "address \<Rightarrow> address \<Rightarrow> (address \<times> address) set \<Rightarrow> 'v world world \<Rightarrow> 'v world world \<Rightarrow> bool" where
  "settled_up d e D s u \<longleftrightarrow> i_token u = Some d \<and> i_token (ledger u) = Some e
     \<and> (\<forall>h t w. held d u h t w = (if (t, w) \<in> D then 0 else held d s h t w)
       \<and> held e (ledger u) h t w = held e (ledger s) h t w + (if (t, w) \<in> D then held d s h t w else 0))"




lemma log_ttl [simp]:
  fixes s :: "'w world"
  shows "held d (s\<lparr>ttl_log := l\<rparr>) h t w = held d s h t w" "i_token (s\<lparr>ttl_log := l\<rparr>) = i_token s"
    "ledger (s\<lparr>ttl_log := l\<rparr>) = ledger s"
  by (rule held_cong) simp_all

lemma settled_up_ttl [simp]: "settled_up d e D s (u\<lparr>ttl_log := l\<rparr>) = settled_up d e D s u"
  by (simp add: settled_up_def)





section \<open>Two deployments\<close>










end
