(* ===== verification/Wide_Arith.thy ===== *)
theory Wide_Arith
  imports Prelude "HOL-Library.Word"
begin

text \<open>
  The 256-bit helper arithmetic of \<open>contracts/fee-vesting/src/lib.rs\<close>: \<open>mul_wide\<close> multiplies two
  non-negative \<open>i128\<close> into two 128-bit limbs, \<open>div_wide_by_i128\<close> divides such a pair bit by bit.
  Both are kept on machine words. The crate is built with overflow checks, so a \<open>+\<close>, \<open>-\<close> or \<open>*\<close>
  that does not fit traps; shifts drop what leaves the word. The lemmas show that neither helper
  traps and that both are exact.
\<close>

unbundle bit_operations_syntax

type_synonym u128 = "128 word"

section \<open>Checked arithmetic on \<open>u128\<close>\<close>

definition plus_u128 :: "u128 \<Rightarrow> u128 \<Rightarrow> ('e, 's, u128) prog" where
  "plus_u128 a b = (if unat a + unat b < 2 ^ 128 then ret (a + b) else trap)"

definition times_u128 :: "u128 \<Rightarrow> u128 \<Rightarrow> ('e, 's, u128) prog" where
  "times_u128 a b = (if unat a * unat b < 2 ^ 128 then ret (a * b) else trap)"

lemma plus_u128_run:
  "unat a + unat b < 2 ^ 128 \<Longrightarrow> plus_u128 a b s = Ok (a + b) s \<and> unat (a + b) = unat a + unat b"
  by (simp add: plus_u128_def ret_def unat_word_ariths)

lemma times_u128_run:
  "unat a * unat b < 2 ^ 128 \<Longrightarrow> times_u128 a b s = Ok (a * b) s \<and> unat (a * b) = unat a * unat b"
  by (simp add: times_u128_def ret_def unat_word_ariths)

section \<open>The two helpers\<close>

definition low_mask :: u128 where
  "low_mask = 0xFFFFFFFFFFFFFFFF"

definition mul_wide :: "i128 \<Rightarrow> i128 \<Rightarrow> ('e, 's, u128 \<times> u128) prog" where
  "mul_wide x y =
     (let a = word_of_int x; b = word_of_int y;
          a_lo = a AND low_mask; a_hi = drop_bit 64 a;
          b_lo = b AND low_mask; b_hi = drop_bit 64 b
      in and_then (times_u128 a_lo b_lo) (\<lambda>ll.
         and_then (times_u128 a_lo b_hi) (\<lambda>lh.
         and_then (times_u128 a_hi b_lo) (\<lambda>hl.
         and_then (times_u128 a_hi b_hi) (\<lambda>hh.
         and_then (plus_u128 (drop_bit 64 ll) (lh AND low_mask)) (\<lambda>m.
         and_then (plus_u128 m (hl AND low_mask)) (\<lambda>mid.
         let lo = (ll AND low_mask) OR push_bit 64 mid in
         and_then (plus_u128 hh (drop_bit 64 lh)) (\<lambda>h1.
         and_then (plus_u128 h1 (drop_bit 64 hl)) (\<lambda>h2.
         and_then (plus_u128 h2 (drop_bit 64 mid)) (\<lambda>hi.
           ret (hi, lo)))))))))))"

text \<open>
  The loop of \<open>div_wide_by_i128\<close> over one limb, which the function has twice: \<open>i\<close> bits are left,
  \<open>rem\<close> and \<open>quot\<close> are the loop's variables.
\<close>

fun divide_limb :: "nat \<Rightarrow> u128 \<Rightarrow> u128 \<Rightarrow> u128 \<times> u128 \<Rightarrow> u128 \<times> u128" where
  "divide_limb 0 d limb (rem, quot) = (rem, quot)"
| "divide_limb (Suc i) d limb (rem, quot) =
     (let cur = push_bit 1 rem OR (drop_bit i limb AND 1)
      in if d \<le> cur then divide_limb i d limb (cur - d, quot OR push_bit i 1)
         else divide_limb i d limb (cur, quot))"

text \<open>The last step is the function's \<open>debug_assert!\<close>, which only a debug build makes.\<close>

definition div_wide_by_i128 :: "u128 \<times> u128 \<Rightarrow> i128 \<Rightarrow> ('e, 's, i128) prog" where
  "div_wide_by_i128 wide divisor =
     (case wide of (hi, lo) \<Rightarrow>
      let d = word_of_int divisor;
          (rem, quotient_hi) = divide_limb 128 d hi (0, 0);
          (rem', quotient_lo) = divide_limb 128 d lo (rem, 0)
      in seq_do (trap_unless (quotient_hi = 0)) (ret (sint quotient_lo)))"

section \<open>Exactness\<close>

lemma unat_take: "unat (take_bit n w) = unat (w :: u128) mod 2 ^ n"
  by (simp only: unsigned_take_bit_eq take_bit_eq_mod [of n "unat w"])

lemma unat_low: "unat (w AND low_mask) = unat w mod 2 ^ 64"
proof -
  have m: "low_mask = mask 64" by (simp add: low_mask_def mask_eq_exp_minus_1)
  show ?thesis unfolding m take_bit_eq_mask [symmetric] by (rule unat_take)
qed

lemma unat_high: "unat (drop_bit n w) = unat (w :: u128) div 2 ^ n"
  by (simp only: unat_drop_bit_eq drop_bit_eq_div [of n "unat w"])

lemma unat_push: "unat (push_bit n (m :: u128)) = unat m * 2 ^ n mod 2 ^ 128"
proof -
  have "unat (push_bit n m) = take_bit 128 (push_bit n (unat m))"
    using unsigned_push_bit_eq [of n m, where 'a = nat] by simp
  also have "\<dots> = unat m * 2 ^ n mod 2 ^ 128" by (simp only: take_bit_eq_mod push_bit_eq_mult)
  finally show ?thesis .
qed

lemma or_disjoint:
  assumes "\<And>k. bit q k \<Longrightarrow> \<not> bit r k"
  shows "unat (q OR r) = unat q + unat (r :: u128)"
proof -
  have "q AND r = 0" using assms by (auto simp: bit_eq_iff bit_simps)
  then have "unat q AND unat r = 0" unfolding unsigned_and_eq [symmetric] by simp
  then show ?thesis by (simp add: unsigned_or_eq disjunctive_add_eq_or)
qed

lemma low_bits:
  assumes "take_bit n w = 0" and "bit (w :: u128) k"
  shows "n \<le> k"
proof (rule ccontr)
  assume "\<not> n \<le> k"
  with assms(2) have "bit (take_bit n w) k" by (simp add: bit_take_bit_iff)
  with assms(1) show False by simp
qed

lemma high_bits:
  assumes "unat (w :: u128) < 2 ^ n" and "bit w k"
  shows "k < n"
proof -
  have "bit (take_bit n (unat w)) k"
    using assms by (simp add: take_bit_nat_eq_self bit_unsigned_iff)
  then show ?thesis by (simp add: bit_take_bit_iff)
qed

lemma unat_i128: "0 \<le> x \<Longrightarrow> i128_range x \<Longrightarrow> unat (word_of_int x :: u128) = nat x"
  by (simp add: i128_range_def i128_max_def unsigned_of_int take_bit_int_eq_self)

text \<open>Schoolbook multiplication in base \<open>k\<close>, on numbers.\<close>

lemma schoolbook:
  fixes k :: nat
  assumes "m = a0 * b0 div k + a0 * b1 mod k + a1 * b0 mod k"
  shows "(a1 * b1 + a0 * b1 div k + a1 * b0 div k + m div k) * (k * k) + (a0 * b0 mod k + m mod k * k)
     = (a1 * k + a0) * (b1 * k + b0)"
proof -
  have split: "x * k = x div k * (k * k) + x mod k * k" "x = x div k * k + x mod k" for x
    using div_mult_mod_eq [of x k] by (metis add_mult_distrib mult.assoc) simp
  have "(a1 * k + a0) * (b1 * k + b0) = a1 * b1 * (k * k) + (a0 * b1) * k + (a1 * b0) * k + a0 * b0"
    by (simp add: algebra_simps)
  also have "\<dots> = a1 * b1 * (k * k) + (a0 * b1 div k + a1 * b0 div k) * (k * k) + m * k + a0 * b0 mod k"
    unfolding assms by (subst (1 2) split(1), subst (5) split(2)) (simp add: algebra_simps)
  also have "\<dots> = (a1 * b1 + a0 * b1 div k + a1 * b0 div k + m div k) * (k * k) + (a0 * b0 mod k + m mod k * k)"
    by (subst split(1) [of m]) (simp add: algebra_simps)
  finally show ?thesis ..
qed

lemma join_limbs: "unat ((p AND low_mask) OR push_bit 64 w) = unat p mod 2 ^ 64 + unat w mod 2 ^ 64 * 2 ^ 64"
proof -
  have "unat ((p AND low_mask) OR push_bit 64 w) = unat (p AND low_mask) + unat (push_bit 64 w)"
  proof (rule or_disjoint)
    fix k assume "bit (p AND low_mask) k"
    then have "k < 64" by (rule high_bits [rotated]) (simp add: unat_low)
    then show "\<not> bit (push_bit 64 w) k" by (simp add: bit_push_bit_iff)
  qed
  moreover have "unat w * 2 ^ 64 mod 2 ^ 128 = unat w mod 2 ^ 64 * 2 ^ 64"
    using mult_mod_right [of "2 ^ 64" "unat w" "2 ^ 64"] by (simp add: mult.commute)
  ultimately show ?thesis by (simp only: unat_low unat_push)
qed

text \<open>The digits and partial sums of a product of two numbers below \<open>2 ^ 127\<close>, in base \<open>2 ^ 64\<close>.\<close>

lemma digit_bounds:
  fixes m n :: nat
  defines "k \<equiv> 2 ^ 64"
  defines "a0 \<equiv> m mod k" and "a1 \<equiv> m div k" and "b0 \<equiv> n mod k" and "b1 \<equiv> n div k"
  defines "mid \<equiv> a0 * b0 div k + a0 * b1 mod k + a1 * b0 mod k"
  assumes "m < 2 ^ 127" and "n < 2 ^ 127"
  shows "a0 * b0 < 2 ^ 128" and "a0 * b1 < 2 ^ 128" and "a1 * b0 < 2 ^ 128" and "a1 * b1 < 2 ^ 128"
    and "a0 * b0 div k + a0 * b1 mod k < 2 ^ 128" and "mid < 2 ^ 128"
    and "a1 * b1 + a0 * b1 div k + a1 * b0 div k + mid div k < 2 ^ 128"
    and "(a1 * b1 + a0 * b1 div k + a1 * b0 div k + mid div k) * (k * k) + (a0 * b0 mod k + mid mod k * k) = m * n"
proof -
  have digits: "a0 < k" "b0 < k" "a1 < k" "b1 < k"
    using assms(7,8) by (simp_all add: a0_def b0_def a1_def b1_def k_def less_mult_imp_div_less)
  have p: "u * v < 2 ^ 128" if "u < k" "v < k" for u v
    using mult_strict_mono [OF that] by (simp add: k_def)
  show "a0 * b0 < 2 ^ 128" "a0 * b1 < 2 ^ 128" "a1 * b0 < 2 ^ 128" "a1 * b1 < 2 ^ 128"
    by (intro p digits)+
  have mk: "u mod k < k" for u by (simp add: k_def)
  have "a0 * b0 div k < k" using p [OF digits(1,2)] by (simp add: k_def less_mult_imp_div_less)
  moreover have "k + k + k < 2 ^ 128" by (simp add: k_def)
  ultimately show "a0 * b0 div k + a0 * b1 mod k < 2 ^ 128" "mid < 2 ^ 128"
    unfolding mid_def using mk [of "a0 * b1"] mk [of "a1 * b0"] by linarith+
  show total: "(a1 * b1 + a0 * b1 div k + a1 * b0 div k + mid div k) * (k * k) + (a0 * b0 mod k + mid mod k * k) = m * n"
    unfolding schoolbook [OF mid_def [THEN meta_eq_to_obj_eq]] by (simp add: a0_def a1_def b0_def b1_def)
  have "(a1 * b1 + a0 * b1 div k + a1 * b0 div k + mid div k) * (k * k) \<le> m * n"
    unfolding total [symmetric] by simp
  also have "\<dots> < 2 ^ 127 * 2 ^ 127" by (rule mult_strict_mono) (use assms(7,8) in simp_all)
  finally show "a1 * b1 + a0 * b1 div k + a1 * b0 div k + mid div k < 2 ^ 128" by (simp add: k_def)
qed

lemma mul_wide_exact:
  assumes "0 \<le> x" "i128_range x" "0 \<le> y" "i128_range y"
  obtains hi lo where "mul_wide x y s = Ok (hi, lo) s" and "int (unat hi * 2 ^ 128 + unat lo) = x * y"
proof -
  let ?k = "2 ^ 64 :: nat"
  define a b :: u128 where "a = word_of_int x" and "b = word_of_int y"
  define a0 a1 b0 b1 where "a0 = unat a mod ?k" and "a1 = unat a div ?k" and "b0 = unat b mod ?k" and "b1 = unat b div ?k"
  define m where "m = a0 * b0 div ?k + a0 * b1 mod ?k + a1 * b0 mod ?k"
  have ab: "unat a = nat x" "unat b = nat y" using assms by (simp_all add: a_def b_def unat_i128)
  then have "unat a < 2 ^ 127" "unat b < 2 ^ 127" using assms by (simp_all add: i128_range_def i128_max_def)
  note d = digit_bounds [OF this, folded a0_def a1_def b0_def b1_def, folded m_def]
  define al ah bl bh where "al = a AND low_mask" and "ah = drop_bit 64 a" and "bl = b AND low_mask" and "bh = drop_bit 64 b"
  have w: "unat al = a0" "unat ah = a1" "unat bl = b0" "unat bh = b1"
    by (simp_all only: al_def ah_def bl_def bh_def unat_low unat_high a0_def a1_def b0_def b1_def)
  note ll = times_u128_run [of al bl, unfolded w, OF d(1)]
    and lh = times_u128_run [of al bh, unfolded w, OF d(2)]
    and hl = times_u128_run [of ah bl, unfolded w, OF d(3)]
    and hh = times_u128_run [of ah bh, unfolded w, OF d(4)]
  note prods = ll [THEN conjunct2] lh [THEN conjunct2] hl [THEN conjunct2] hh [THEN conjunct2]
  have p1: "unat (drop_bit 64 (al * bl)) = a0 * b0 div ?k" "unat ((al * bh) AND low_mask) = a0 * b1 mod ?k"
      "unat ((ah * bl) AND low_mask) = a1 * b0 mod ?k" "unat (drop_bit 64 (al * bh)) = a0 * b1 div ?k"
      "unat (drop_bit 64 (ah * bl)) = a1 * b0 div ?k" "unat ((al * bl) AND low_mask) = a0 * b0 mod ?k"
    by (simp_all only: unat_low unat_high prods)
  note m1 = plus_u128_run [of "drop_bit 64 (al * bl)" "(al * bh) AND low_mask", unfolded p1, OF d(5)]
  note mid = plus_u128_run [of "drop_bit 64 (al * bl) + ((al * bh) AND low_mask)" "(ah * bl) AND low_mask",
      unfolded p1 m1 [THEN conjunct2], folded m_def, OF d(6)]
  define mw where "mw = drop_bit 64 (al * bl) + ((al * bh) AND low_mask) + ((ah * bl) AND low_mask)"
  have mw: "unat mw = m" unfolding mw_def by (rule mid [THEN conjunct2])
  have p2: "unat (drop_bit 64 mw) = m div ?k" by (simp only: unat_high mw)
  have fits: "a1 * b1 + a0 * b1 div ?k < 2 ^ 128" "a1 * b1 + a0 * b1 div ?k + a1 * b0 div ?k < 2 ^ 128"
    using d(7) by linarith+
  note h1 = plus_u128_run [of "ah * bh" "drop_bit 64 (al * bh)", unfolded p1 prods, OF fits(1)]
  note h2 = plus_u128_run [of "ah * bh + drop_bit 64 (al * bh)" "drop_bit 64 (ah * bl)",
      unfolded p1 h1 [THEN conjunct2], OF fits(2)]
  note h3 = plus_u128_run [of "ah * bh + drop_bit 64 (al * bh) + drop_bit 64 (ah * bl)" "drop_bit 64 mw",
      unfolded p2 h2 [THEN conjunct2], OF d(7)]
  note lo = join_limbs [of "al * bl" mw, unfolded prods mw]
  show ?thesis
  proof (rule that)
    show "mul_wide x y s = Ok (ah * bh + drop_bit 64 (al * bh) + drop_bit 64 (ah * bl) + drop_bit 64 mw,
        (al * bl) AND low_mask OR push_bit 64 mw) s"
      unfolding mul_wide_def Let_def a_def [symmetric] b_def [symmetric]
        al_def [symmetric] ah_def [symmetric] bl_def [symmetric] bh_def [symmetric]
      by (simp only: and_then_def ll lh hl hh m1 mid h1 h2 h3 mw_def [symmetric] outcome.case ret_def)
    show "int (unat (ah * bh + drop_bit 64 (al * bh) + drop_bit 64 (ah * bl) + drop_bit 64 mw) * 2 ^ 128
        + unat ((al * bl) AND low_mask OR push_bit 64 mw)) = x * y"
      unfolding lo h3 [THEN conjunct2] using d(8) assms(1,3) by (simp add: ab)
  qed
qed

section \<open>Long division\<close>

lemma divide_step:
  fixes r :: nat
  assumes "r < d" and "n = 2 * r + l div 2 ^ i mod 2"
  shows "r * 2 ^ Suc i + l mod 2 ^ Suc i = n * 2 ^ i + l mod 2 ^ i" and "n < 2 * d"
    and "d \<le> n \<Longrightarrow> (n * 2 ^ i + l mod 2 ^ i) div d = 2 ^ i + ((n - d) * 2 ^ i + l mod 2 ^ i) div d
       \<and> (n * 2 ^ i + l mod 2 ^ i) mod d = ((n - d) * 2 ^ i + l mod 2 ^ i) mod d"
proof -
  have "l mod 2 ^ Suc i = 2 ^ i * (l div 2 ^ i mod 2) + l mod 2 ^ i"
    using mod_mult2_eq [of l "2 ^ i" 2] by (simp add: mult.commute)
  then show "r * 2 ^ Suc i + l mod 2 ^ Suc i = n * 2 ^ i + l mod 2 ^ i"
    by (simp add: assms(2) algebra_simps)
  show "n < 2 * d" using assms(1) mod_less_divisor [of 2 "l div 2 ^ i"] unfolding assms(2) by linarith
  show "d \<le> n \<Longrightarrow> (n * 2 ^ i + l mod 2 ^ i) div d = 2 ^ i + ((n - d) * 2 ^ i + l mod 2 ^ i) div d
       \<and> (n * 2 ^ i + l mod 2 ^ i) mod d = ((n - d) * 2 ^ i + l mod 2 ^ i) mod d"
  proof -
    assume "d \<le> n"
    then obtain k where "n = d + k" using le_Suc_ex by blast
    then have "n * 2 ^ i + l mod 2 ^ i = (n - d) * 2 ^ i + l mod 2 ^ i + 2 ^ i * d"
      by (simp add: algebra_simps)
    then show ?thesis using assms(1) by (simp only: div_mult_self2 mod_mult_self2) simp
  qed
qed

lemma divide_limb_exact:
  assumes "unat d \<le> 2 ^ 127" and "unat r < unat d" and "i \<le> 128" and "take_bit i q = 0"
    and "divide_limb i d l (r, q) = (r', q')"
  shows "unat q' = unat q + (unat r * 2 ^ i + unat l mod 2 ^ i) div unat d
     \<and> unat r' = (unat r * 2 ^ i + unat l mod 2 ^ i) mod unat d"
  using assms(2-5)
proof (induction i arbitrary: r q)
  case 0
  then show ?case by simp
next
  case (Suc i)
  define c where "c = push_bit 1 r OR (drop_bit i l AND 1)"
  have "unat c = 2 * unat r + unat l div 2 ^ i mod 2"
  proof -
    have "unat c = unat (push_bit 1 r) + unat (drop_bit i l AND 1)"
      unfolding c_def by (rule or_disjoint) (simp only: bit_push_bit_iff bit_and_iff bit_1_iff, simp)
    moreover have "unat (push_bit 1 r) = 2 * unat r"
      using Suc.prems(1) assms(1) unat_push [of 1 r] by simp
    moreover have "unat (drop_bit i l AND 1) = unat l div 2 ^ i mod 2"
      using unat_take [of 1 "drop_bit i l"] by (simp only: unat_high take_bit_eq_mask) (simp add: mask_eq_exp_minus_1)
    ultimately show ?thesis by simp
  qed
  note step = divide_step [OF Suc.prems(1) this]
  have low: "take_bit i q = 0" "\<not> bit q i"
  proof -
    show "take_bit i q = 0"
      using arg_cong [OF Suc.prems(3), of "take_bit i"] by simp
    show "\<not> bit q i" using low_bits [OF Suc.prems(3), of i] by auto
  qed
  show ?case
  proof (cases "d \<le> c")
    case True
    then have le: "unat d \<le> unat c" by (simp add: word_le_nat_alt)
    have sub: "unat (c - d) = unat c - unat d" using le by (simp add: unat_sub word_le_nat_alt)
    have new: "unat (q OR push_bit i 1) = unat q + 2 ^ i"
    proof -
      have "unat (q OR push_bit i 1) = unat q + unat (push_bit i (1 :: u128))"
        by (rule or_disjoint) (use low(2) in \<open>auto simp: bit_simps\<close>)
      moreover have "(2 :: nat) ^ i < 2 ^ 128" using Suc.prems(2) by (intro power_strict_increasing) simp_all
      ultimately show ?thesis by (simp add: unat_push del: push_bit_of_1)
    qed
    have rec: "divide_limb i d l (c - d, q OR push_bit i 1) = (r', q')"
      using Suc.prems(4) True by (simp add: c_def Let_def)
    have "take_bit i (q OR push_bit i 1) = 0"
      using low(1) by (simp add: take_bit_push_bit del: push_bit_of_1)
    moreover have "unat (c - d) < unat d" using step(2) le unfolding sub by linarith
    ultimately show ?thesis
      using Suc.IH [OF _ _ _ rec] Suc.prems(2) unfolding sub new step(1) step(3) [OF le, THEN conjunct1]
        step(3) [OF le, THEN conjunct2] by simp
  next
    case False
    then have lt: "unat c < unat d" by (simp add: word_le_nat_alt)
    have rec: "divide_limb i d l (c, q) = (r', q')" using Suc.prems(4) False by (simp add: c_def Let_def)
    show ?thesis using Suc.IH [OF lt _ low(1) rec] Suc.prems(2) step(1) by simp
  qed
qed

lemma div_wide_exact:
  assumes "0 < d" and "i128_range d" and "int (unat hi * 2 ^ 128 + unat lo) = n" and "n div d \<le> i128_max"
  shows "div_wide_by_i128 (hi, lo) d s = Ok (n div d) s"
proof -
  let ?d = "word_of_int d :: u128"
  have d: "unat ?d = nat d" using assms(1,2) by (simp add: unat_i128)
  then have d': "unat ?d \<le> 2 ^ 127" "0 < unat ?d" using assms(1,2) by (simp_all add: i128_range_def i128_max_def)
  obtain r qh where hi: "divide_limb 128 ?d hi (0, 0) = (r, qh)" by fastforce
  obtain r' ql where lo: "divide_limb 128 ?d lo (r, 0) = (r', ql)" by fastforce
  have whole: "unat w mod 2 ^ 128 = unat w" for w :: u128 using unsigned_less [of w, where 'a = nat] by simp
  have qh: "unat qh = unat hi div nat d" "unat r = unat hi mod nat d"
    using divide_limb_exact [OF d'(1) _ _ _ hi] d' d whole [of hi] by simp_all
  have "unat r < unat ?d" using d'(2) unfolding qh(2) d by simp
  then have ql: "unat ql = (unat r * 2 ^ 128 + unat lo) div nat d"
    using divide_limb_exact [OF d'(1) _ _ _ lo] d whole [of lo] by simp
  have "nat n = nat d * (unat qh * 2 ^ 128) + (unat r * 2 ^ 128 + unat lo)"
  proof -
    have "unat hi * 2 ^ 128 = nat d * (unat qh * 2 ^ 128) + unat r * 2 ^ 128"
      unfolding qh by (metis add_mult_distrib mult.assoc mult_div_mod_eq)
    then show ?thesis using assms(3) by linarith
  qed
  then have q: "nat n div nat d = unat qh * 2 ^ 128 + unat ql" using ql d' d by simp
  have "0 \<le> n" using assms(3) by linarith
  then have nd: "n div d = int (nat n div nat d)" using assms(1) by (simp add: zdiv_int)
  have "int (2 ^ 127) = i128_max + 1" by (simp add: i128_max_pow)
  then have "int (unat qh * 2 ^ 128 + unat ql) < int (2 ^ 127)"
    using assms(4) unfolding nd q by linarith
  then have "unat qh * 2 ^ 128 + unat ql < 2 ^ 127" by (simp only: of_nat_less_iff)
  then have zero: "unat qh = 0" and small: "unat ql < 2 ^ 127" by simp_all
  have "int (unat ql) < int (2 ^ 127)" using small by (simp only: of_nat_less_iff)
  moreover have "- (2 ^ 127) \<le> uint ql" by (rule order_trans [OF _ unsigned_greater_eq]) simp
  ultimately have "signed_take_bit 127 (uint ql) = uint ql" by (simp add: signed_take_bit_int_eq_self)
  then have "sint ql = int (unat ql)" by (simp add: sint_uint)
  then show ?thesis
    using hi lo zero nd q by (simp add: div_wide_by_i128_def run_defs unsigned_eq_0_iff)
qed

end
