(* ===== verification/Fee_Vesting.thy ===== *)
theory Fee_Vesting
  imports Host Wide_Arith
begin

text \<open>
  The fee-vesting treasury of \<open>contracts/fee-vesting/src/lib.rs\<close>: a cliff-then-linear schedule fixed
  by \<open>initialize\<close>, a beneficiary the admin may replace, and claims that pay out what the schedule has
  unlocked. Storage is one field per \<open>DataKey\<close>. The host and the token are those of theory Host; time
  here is the ledger timestamp. Every failure of this contract is a panic, so no call returns an error.
\<close>

section \<open>State and environment\<close>

record 'w clock = "'w host" +
  timestamp :: u64
  signed :: "address \<Rightarrow> bool"

record 'w vault =
  v_admin :: "address option"
  v_beneficiary :: "address option"
  v_token :: "address option"
  v_start :: "u64 option"
  v_cliff :: "u64 option"
  v_end :: "u64 option"
  v_total :: "i128 option"
  v_claimed :: "i128 option"
  v_ledger :: 'w
  v_events :: "(address \<times> i128) list"

type_synonym ('w, 'a) vcall = "(unit, 'w vault, 'a) prog"

definition blank_vault :: "'w \<Rightarrow> 'w vault" where
  "blank_vault l = \<lparr>v_admin = None, v_beneficiary = None, v_token = None, v_start = None, v_cliff = None,
     v_end = None, v_total = None, v_claimed = None, v_ledger = l, v_events = []\<rparr>"

definition signs :: "'w clock \<Rightarrow> address \<Rightarrow> ('w, unit) vcall" where
  "signs c a = trap_unless (signed c a)"

section \<open>Configuration\<close>

definition initialize :: "'w clock \<Rightarrow> address \<Rightarrow> address \<Rightarrow> address \<Rightarrow> u64 \<Rightarrow> u64 \<Rightarrow> u64 \<Rightarrow> i128
    \<Rightarrow> ('w, unit) vcall" where
  "initialize c admin beneficiary token start cliff end' tot =
     and_then (gets v_admin) (\<lambda>a. block [
       trap_unless (a = None),
       trap_unless (\<not> (cliff < start \<or> end' < cliff)),
       trap_unless (\<not> tot \<le> 0),
       signs c admin,
       signs c beneficiary,
       modify (\<lambda>s. s\<lparr>v_admin := Some admin\<rparr>),
       modify (\<lambda>s. s\<lparr>v_beneficiary := Some beneficiary\<rparr>),
       modify (\<lambda>s. s\<lparr>v_token := Some token\<rparr>),
       modify (\<lambda>s. s\<lparr>v_start := Some start\<rparr>),
       modify (\<lambda>s. s\<lparr>v_cliff := Some cliff\<rparr>),
       modify (\<lambda>s. s\<lparr>v_end := Some end'\<rparr>),
       modify (\<lambda>s. s\<lparr>v_total := Some tot\<rparr>),
       modify (\<lambda>s. s\<lparr>v_claimed := Some 0\<rparr>)])"

definition set_beneficiary :: "'w clock \<Rightarrow> address \<Rightarrow> ('w, unit) vcall" where
  "set_beneficiary c new_beneficiary =
     and_then (gets v_admin) (\<lambda>a. and_then (unwrap a) (\<lambda>admin. block [
       signs c admin,
       modify (\<lambda>s. s\<lparr>v_beneficiary := Some new_beneficiary\<rparr>)]))"

definition beneficiary :: "('w, address) vcall" where
  "beneficiary = and_then (gets v_beneficiary) unwrap"

section \<open>The schedule\<close>

definition vested_amount :: "'w clock \<Rightarrow> ('w, i128) vcall" where
  "vested_amount c =
     and_then (and_then (gets v_start) unwrap) (\<lambda>start.
     and_then (and_then (gets v_cliff) unwrap) (\<lambda>cliff.
     and_then (and_then (gets v_end) unwrap) (\<lambda>end'.
     and_then (and_then (gets v_total) unwrap) (\<lambda>tot.
     let now = timestamp c in
     if now < cliff then ret 0
     else if end' \<le> now \<or> end' = start then ret tot
     else seq_do (trap_unless (start \<le> now \<and> start \<le> end'))
       (let elapsed = int (now - start); span = int (end' - start) in
        if i128_range (tot * elapsed) then
          (let product = tot * elapsed in ret (product sdiv span))
        else and_then (mul_wide tot elapsed) (\<lambda>product. div_wide_by_i128 product span))))))"

definition claimed_amount :: "('w, i128) vcall" where
  "claimed_amount = gets (\<lambda>s. case v_claimed s of None \<Rightarrow> 0 | Some n \<Rightarrow> n)"

definition claimable_amount :: "'w clock \<Rightarrow> ('w, i128) vcall" where
  "claimable_amount c =
     and_then (vested_amount c) (\<lambda>vested. and_then claimed_amount (\<lambda>claimed. chk (vested - claimed)))"

section \<open>Claims\<close>

definition pay_out :: "'w clock \<Rightarrow> address \<Rightarrow> address \<Rightarrow> i128 \<Rightarrow> ('w, unit) vcall" where
  "pay_out c token to amount s = (case tok_transfer c token (self c) to amount (v_ledger s) of
     None \<Rightarrow> Trap | Some l \<Rightarrow> Ok () (s\<lparr>v_ledger := l\<rparr>))"

definition claim_vested :: "'w clock \<Rightarrow> ('w, i128) vcall" where
  "claim_vested c =
     and_then (claimable_amount c) (\<lambda>amount.
     seq_do (trap_unless (\<not> amount \<le> 0))
     (and_then (and_then (gets v_beneficiary) unwrap) (\<lambda>beneficiary.
      and_then (and_then (gets v_token) unwrap) (\<lambda>token.
      and_then claimed_amount (\<lambda>claimed.
      and_then (chk (claimed + amount)) (\<lambda>claimed'.
      seq_do (block [
        modify (\<lambda>s. s\<lparr>v_claimed := Some claimed'\<rparr>),
        pay_out c token beneficiary amount,
        modify (\<lambda>s. s\<lparr>v_events := v_events s @ [(beneficiary, amount)]\<rparr>)])
      (ret amount)))))))"

definition claim_vested_as :: "'w clock \<Rightarrow> address \<Rightarrow> ('w, i128) vcall" where
  "claim_vested_as c caller =
     seq_do (signs c caller)
     (and_then (and_then (gets v_beneficiary) unwrap) (\<lambda>beneficiary.
      seq_do (trap_unless (\<not> caller \<noteq> beneficiary)) (claim_vested c)))"

section \<open>The contract's entry points\<close>

datatype (plugins only: code size) vault_entry =
    Initialize address address address u64 u64 u64 i128
  | SetBeneficiary address
  | ClaimVested
  | ClaimVestedAs address

fun exec_vault :: "'w clock \<Rightarrow> vault_entry \<Rightarrow> ('w, i128) vcall" where
  "exec_vault c (Initialize a b t st cl en n) = seq_do (initialize c a b t st cl en n) (ret 0)"
| "exec_vault c (SetBeneficiary b) = seq_do (set_beneficiary c b) (ret 0)"
| "exec_vault c ClaimVested = claim_vested c"
| "exec_vault c (ClaimVestedAs a) = claim_vested_as c a"

text \<open>The arguments of a call are machine integers.\<close>

fun vault_typed :: "vault_entry \<Rightarrow> bool" where
  "vault_typed (Initialize a b t st cl en n) \<longleftrightarrow> st < 2 ^ 64 \<and> cl < 2 ^ 64 \<and> en < 2 ^ 64 \<and> i128_range n"
| "vault_typed e \<longleftrightarrow> True"

text \<open>
  \<open>vault_at n s\<close>: the contract can be in \<open>s\<close> when the ledger's clock shows \<open>n\<close>. Tokens may move
  outside the contract's calls, and time does not run backwards.
\<close>

inductive vault_at :: "u64 \<Rightarrow> 'w vault \<Rightarrow> bool" where
  new_vault: "vault_at n (blank_vault l)"
| vault_call: "vault_at n s \<Longrightarrow> n \<le> timestamp c \<Longrightarrow> vault_typed e \<Longrightarrow> exec_vault c e s = Ok v u \<Longrightarrow>
    vault_at (timestamp c) u"
| vault_wait: "vault_at n s \<Longrightarrow> n \<le> m \<Longrightarrow> vault_at m (s\<lparr>v_ledger := l\<rparr>)"

section \<open>What the schedule unlocks\<close>

text \<open>The curve: nothing before the cliff, all from the end on, and in between the exact share.\<close>

definition vested_at :: "u64 \<Rightarrow> u64 \<Rightarrow> u64 \<Rightarrow> i128 \<Rightarrow> u64 \<Rightarrow> i128" where
  "vested_at start cliff end' tot t =
     (if t < cliff then 0 else if end' \<le> t then tot
      else tot * int (t - start) div int (end' - start))"

definition scheduled :: "u64 \<Rightarrow> u64 \<Rightarrow> u64 \<Rightarrow> i128 \<Rightarrow> 'w vault \<Rightarrow> bool" where
  "scheduled start cliff end' tot s \<longleftrightarrow> v_start s = Some start \<and> v_cliff s = Some cliff
     \<and> v_end s = Some end' \<and> v_total s = Some tot
     \<and> start \<le> cliff \<and> cliff \<le> end' \<and> 0 < tot \<and> i128_range tot \<and> end' < 2 ^ 64"

lemma share_bounds:
  fixes tot :: i128
  assumes "0 \<le> tot" and "e \<le> n" and "0 < n"
  shows "0 \<le> tot * int e div int n" and "tot * int e div int n \<le> tot"
proof -
  have "tot * int e \<le> tot * int n" using assms by (intro mult_left_mono) simp_all
  then have "tot * int e div int n \<le> tot * int n div int n" using assms(3) by (intro zdiv_mono1) simp_all
  then show "tot * int e div int n \<le> tot" using assms(3) by simp
  show "0 \<le> tot * int e div int n" using assms by (simp add: pos_imp_zdiv_nonneg_iff)
qed

lemma vested_at_bounds:
  assumes "scheduled start cliff end' tot s"
  shows "0 \<le> vested_at start cliff end' tot t" and "vested_at start cliff end' tot t \<le> tot"
  using share_bounds [of tot "t - start" "end' - start"] assms
  by (auto simp: vested_at_def scheduled_def)

lemma vested_at_mono:
  assumes "scheduled start cliff end' tot s" and "t \<le> u"
  shows "vested_at start cliff end' tot t \<le> vested_at start cliff end' tot u"
proof -
  note b = vested_at_bounds [OF assms(1)]
  consider "t < cliff" | "end' \<le> u" | "cliff \<le> t" "u < end'" by linarith
  then show ?thesis
  proof cases
    case 1
    then have "vested_at start cliff end' tot t = 0" by (simp add: vested_at_def)
    then show ?thesis using b(1) by simp
  next
    case 2
    then have "vested_at start cliff end' tot u = tot" using assms(1) by (auto simp: vested_at_def scheduled_def)
    then show ?thesis using b(2) by simp
  next
    case 3
    have "tot * int (t - start) \<le> tot * int (u - start)"
      using assms by (intro mult_left_mono) (simp_all add: scheduled_def)
    then show ?thesis
      using 3 assms by (simp add: vested_at_def scheduled_def zdiv_mono1)
  qed
qed

lemma vested_amount_exact:
  assumes "scheduled start cliff end' tot s"
  shows "vested_amount c s = Ok (vested_at start cliff end' tot (timestamp c)) s"
proof (cases "timestamp c < cliff \<or> end' \<le> timestamp c")
  case True
  then show ?thesis
    using assms by (auto simp: vested_amount_def vested_at_def scheduled_def run_defs Let_def)
next
  case False
  let ?e = "timestamp c - start" and ?n = "end' - start"
  have t: "cliff \<le> timestamp c" "timestamp c < end'" using False by simp_all
  have sch: "start \<le> cliff" "0 < tot" "i128_range tot" "end' < 2 ^ 64" using assms by (simp_all add: scheduled_def)
  have le: "?e \<le> ?n" "0 < ?n" using t sch by simp_all
  have range: "i128_range (int ?e)" "i128_range (int ?n)"
    using t sch by (simp_all add: i128_range_def i128_max_def)
  note share = share_bounds [OF less_imp_le [OF sch(2)] le]
  have max: "tot * int ?e div int ?n \<le> i128_max" using share(2) sch(3) by (simp add: i128_range_def)
  obtain hi lo where mul: "mul_wide tot (int ?e) s = (Ok (hi, lo) s :: (unit, _, _) outcome)"
      "int (unat hi * 2 ^ 128 + unat lo) = tot * int ?e"
    by (rule mul_wide_exact [OF less_imp_le [OF sch(2)] sch(3) of_nat_0_le_iff range(1)])
  have div: "div_wide_by_i128 (hi, lo) (int ?n) s = (Ok (tot * int ?e div int ?n) s :: (unit, _, _) outcome)"
    using div_wide_exact [OF _ range(2) mul(2) max] le(2) by simp
  have sd: "tot * int ?e sdiv int ?n = tot * int ?e div int ?n" using le(2) sch(2) by (intro sdiv_nonneg) simp_all
  show ?thesis
    using t sch assms
    by (cases "i128_range (tot * int ?e)")
      (simp_all add: vested_amount_def vested_at_def scheduled_def run_defs Let_def mul(1) div sd del: of_nat_diff)
qed

end
