(* ===== verification/Vesting_Rules.thy ===== *)
theory Vesting_Rules
  imports Fee_Vesting Sample
begin

text \<open>
  What the vesting treasury promises: exact wide arithmetic, the unlock curve, claims that never
  run ahead of the schedule, and a schedule nobody can change.
\<close>

section \<open>The invariant of a history\<close>

definition vault_ok :: "u64 \<Rightarrow> 'w vault \<Rightarrow> bool" where
  "vault_ok n s \<longleftrightarrow>
     (if v_admin s = None then v_claimed s = None \<and> v_start s = None \<and> v_events s = []
      else \<exists>st cl en tot k. scheduled st cl en tot s \<and> v_beneficiary s \<noteq> None \<and> v_token s \<noteq> None
        \<and> v_claimed s = Some k \<and> 0 \<le> k \<and> k \<le> vested_at st cl en tot n
        \<and> k = sum_list (map snd (v_events s)))"

lemma vault_ok_later:
  assumes "vault_ok n s" and "n \<le> m"
  shows "vault_ok m s"
proof (cases "v_admin s")
  case None
  then show ?thesis using assms(1) by (simp add: vault_ok_def)
next
  case (Some a)
  then obtain st cl en tot k where k: "scheduled st cl en tot s" "v_beneficiary s \<noteq> None" "v_token s \<noteq> None"
      "v_claimed s = Some k" "0 \<le> k" "k \<le> vested_at st cl en tot n" "k = sum_list (map snd (v_events s))"
    using assms(1) by (auto simp: vault_ok_def)
  have "k \<le> vested_at st cl en tot m" using k(6) vested_at_mono [OF k(1) assms(2)] by (rule order_trans)
  then show ?thesis using k Some unfolding vault_ok_def by (auto intro!: exI)
qed

lemma vault_ok_ledger [simp]: "vault_ok n (s\<lparr>v_ledger := l\<rparr>) = vault_ok n s"
  by (simp add: vault_ok_def scheduled_def)

lemma wp_pay_out: "wp (pay_out c t b a) Q s
   = (\<forall>l. tok_transfer c t (self c) b a (v_ledger s) = Some l \<longrightarrow> Q () (s\<lparr>v_ledger := l\<rparr>))"
  by (simp add: wp_def pay_out_def split: option.split)

lemma claimable_run:
  assumes "scheduled st cl en tot s" and "v_claimed s = Some k" and "0 \<le> k" and "k \<le> tot"
  shows "claimable_amount c s = Ok (vested_at st cl en tot (timestamp c) - k) s"
proof -
  have "i128_range (vested_at st cl en tot (timestamp c) - k)"
    using vested_at_bounds [OF assms(1), of "timestamp c"] assms by (simp add: scheduled_def i128_range_def)
  then show ?thesis
    using assms(2) by (simp add: claimable_amount_def claimed_amount_def vested_amount_exact [OF assms(1)] run_defs chk_def)
qed

lemma claim_run:
  assumes "scheduled st cl en tot s" and "v_claimed s = Some k" and "0 \<le> k" and "k \<le> tot"
    and "v_beneficiary s = Some b" and "v_token s = Some t"
  shows "claim_vested c s = (let v = vested_at st cl en tot (timestamp c) in
     if v \<le> k then Trap
     else case tok_transfer c t (self c) b (v - k) (v_ledger s) of
         None \<Rightarrow> Trap
       | Some l \<Rightarrow> Ok (v - k) (s\<lparr>v_claimed := Some v, v_ledger := l, v_events := v_events s @ [(b, v - k)]\<rparr>))"
proof -
  have "i128_range (vested_at st cl en tot (timestamp c))"
    using vested_at_bounds [OF assms(1), of "timestamp c"] assms(1) by (auto simp: scheduled_def i128_range_def)
  then show ?thesis
    using assms(2,5,6)
    by (auto simp: claim_vested_def claimed_amount_def claimable_run [OF assms(1-4)] pay_out_def run_defs chk_def Let_def
        split: option.split)
qed

lemma claim_keeps:
  assumes "vault_ok (timestamp c) s" and "claim_vested c s = Ok v u"
  shows "vault_ok (timestamp c) u"
proof (cases "v_admin s")
  case None
  then show ?thesis
    using assms by (simp add: vault_ok_def claim_vested_def claimable_amount_def vested_amount_def run_defs)
next
  case (Some a)
  then obtain st cl en tot k b t where k: "scheduled st cl en tot s" "v_beneficiary s = Some b" "v_token s = Some t"
      "v_claimed s = Some k" "0 \<le> k" "k \<le> vested_at st cl en tot (timestamp c)" "k = sum_list (map snd (v_events s))"
    using assms(1) by (auto simp: vault_ok_def)
  let ?v = "vested_at st cl en tot (timestamp c)"
  have "k \<le> tot" using k(6) vested_at_bounds(2) [OF k(1), of "timestamp c"] by simp
  note run = claim_run [OF k(1,4,5) this k(2,3), of c]
  have u: "v_admin u = Some a" "scheduled st cl en tot u" "v_beneficiary u = Some b" "v_token u = Some t"
      "v_claimed u = Some ?v" "v_events u = v_events s @ [(b, ?v - k)]" "k \<le> ?v"
    using assms(2) k(1-3,6) Some unfolding run
    by (auto simp: Let_def scheduled_def split: if_splits option.splits)
  show ?thesis unfolding vault_ok_def using u k(5,7) by (auto intro!: exI)
qed

lemma vault_at_ok: "vault_at n s \<Longrightarrow> vault_ok n s"
proof (induction rule: vault_at.induct)
  case (new_vault n l)
  then show ?case by (simp add: vault_ok_def blank_vault_def)
next
  case (vault_wait n s m l)
  then show ?case using vault_ok_later by simp
next
  case (vault_call n s c e v u)
  have ok: "vault_ok (timestamp c) s" using vault_ok_later vault_call by blast
  show ?case
  proof (cases e)
    case (Initialize a b t st cl en m)
    with vault_call.hyps(3,4) have u: "scheduled st cl en m u" "v_admin s = None" "v_admin u = Some a"
        "v_beneficiary u = Some b" "v_token u = Some t" "v_claimed u = Some 0" "v_events u = v_events s"
      by (auto simp: initialize_def signs_def run_defs scheduled_def split: if_splits)
    then show ?thesis
      using ok vested_at_bounds(1) [OF u(1), of "timestamp c"] unfolding vault_ok_def by (auto intro!: exI)
  next
    case (SetBeneficiary b)
    then show ?thesis
      using ok vault_call.hyps(4)
      by (auto simp: set_beneficiary_def signs_def run_defs vault_ok_def scheduled_def split: if_splits option.splits)
  next
    case ClaimVested
    then show ?thesis using claim_keeps [OF ok] vault_call.hyps(4) by simp
  next
    case (ClaimVestedAs a)
    then have "claim_vested c s = Ok v u"
      using vault_call.hyps(4) by (simp add: claim_vested_as_def signs_def run_defs split: if_splits option.splits)
    then show ?thesis using claim_keeps [OF ok] by simp
  qed
qed

section \<open>Properties\<close>

text \<open>
  C32. The 256-bit helpers are exact: multiplying two non-negative amounts with \<open>mul_wide\<close> and dividing
  the limbs with \<open>div_wide_by_i128\<close> never traps and gives the truncated quotient of the true product,
  whenever that fits the result type.
\<close>

theorem wide_quotient_exact:
  assumes "0 \<le> a" and "i128_range a" and "0 \<le> b" and "i128_range b" and "0 < d" and "i128_range d"
    and "a * b div d \<le> i128_max"
  shows "and_then (mul_wide a b) (\<lambda>product. div_wide_by_i128 product d) s
    = (Ok (a * b div d) s :: ('e, 's, i128) outcome)"
proof -
  obtain hi lo where "mul_wide a b s = (Ok (hi, lo) s :: ('e, 's, u128 \<times> u128) outcome)"
      and n: "int (unat hi * 2 ^ 128 + unat lo) = a * b"
    by (rule mul_wide_exact [OF assms(1-4)])
  then show ?thesis
    using div_wide_exact [OF assms(5,6) n assms(7)] by (simp add: and_then_def)
qed

theorem wide_quotient_exact_witness:
  "and_then (mul_wide (10 ^ 38) 31536000) (\<lambda>product. div_wide_by_i128 product 94608000) () =
     (Ok (33333333333333333333333333333333333333 :: i128) () :: (unit, unit, i128) outcome)"
  using wide_quotient_exact [of "10 ^ 38" 31536000 94608000 "()"]
  by (simp add: i128_range_def i128_max_def)

text \<open>
  C12. On any schedule \<open>initialize\<close> accepts, \<open>vested_amount\<close> returns at every time, without a trap and
  whatever the size of the intermediate product, exactly the unlock curve: zero before the cliff, the
  whole amount from the end on, the truncated linear share in between.
\<close>

theorem vested_amount_curve:
  assumes "initialize c' a b t st cl en tot s = Ok () u" and "i128_range tot" and "en < 2 ^ 64"
  shows "vested_amount c u = Ok (vested_at st cl en tot (timestamp c)) u"
proof (rule vested_amount_exact)
  show "scheduled st cl en tot u"
    using assms by (auto simp: initialize_def signs_def run_defs scheduled_def split: if_splits)
qed

definition clock_at :: "u64 \<Rightarrow> accounts clock" where
  "clock_at n = host.extend sample_host \<lparr>timestamp = n, signed = \<lambda>a. a \<noteq> here\<rparr>"

lemma clock_simps [simp]:
  "timestamp (clock_at n) = n" "signed (clock_at n) = (\<lambda>a. a \<noteq> here)" "self (clock_at n) = here"
  "tok_transfer (clock_at n) = move"
  by (simp_all add: clock_at_def sample_host_def host.extend_def)

definition rich :: accounts where
  "rich t x = (if x = here then 10 ^ 38 else 0)"

definition vesting :: "accounts vault" where
  "vesting = (blank_vault rich)\<lparr>v_admin := Some owner, v_beneficiary := Some treasury, v_token := Some usd,
     v_start := Some 1700000000, v_cliff := Some 1710000000, v_end := Some 1800000000,
     v_total := Some (10 ^ 38), v_claimed := Some 0\<rparr>"

lemma vesting_run:
  "initialize (clock_at 1690000000) owner treasury usd 1700000000 1710000000 1800000000 (10 ^ 38) (blank_vault rich)
     = Ok () vesting"
  by (simp add: initialize_def signs_def run_defs vesting_def blank_vault_def)

theorem vested_amount_curve_witness:
  "vested_amount (clock_at 1750000000) vesting = Ok (5 * 10 ^ 37) vesting
     \<and> vested_amount (clock_at 1705000000) vesting = Ok 0 vesting"
  using vested_amount_curve [OF vesting_run, of "clock_at 1750000000"]
    vested_amount_curve [OF vesting_run, of "clock_at 1705000000"]
  by (simp add: i128_range_def i128_max_def vested_at_def)


lemma vesting_at: "vault_at 1690000000 vesting"
  using vault_at.vault_call [OF vault_at.new_vault [of 0 rich], of "clock_at 1690000000"
      "Initialize owner treasury usd 1700000000 1710000000 1800000000 (10 ^ 38)" 0 vesting] vesting_run
  by (simp add: run_defs i128_range_def i128_max_def)

lemma vesting_scheduled: "scheduled 1700000000 1710000000 1800000000 (10 ^ 38) vesting"
  by (simp add: scheduled_def vesting_def blank_vault_def i128_range_def i128_max_def)

lemma vesting_fields [simp]:
  "v_claimed vesting = Some 0" "v_beneficiary vesting = Some treasury" "v_token vesting = Some usd"
  "v_ledger vesting = rich" "v_events vesting = []" "v_admin vesting = Some owner"
  by (simp_all add: vesting_def blank_vault_def)

definition half_paid :: "accounts vault" where
  "half_paid = vesting\<lparr>v_claimed := Some (5 * 10 ^ 37), v_ledger := the (move usd here treasury (5 * 10 ^ 37) rich),
     v_events := [(treasury, 5 * 10 ^ 37)]\<rparr>"

lemma half_paid_run: "claim_vested (clock_at 1750000000) vesting = Ok (5 * 10 ^ 37) half_paid"
  using claim_run [OF vesting_scheduled, of 0 treasury usd "clock_at 1750000000"]
  by (simp add: half_paid_def vested_at_def move_def rich_def)



text \<open>
  C37. A claim decided completely: it traps when nothing new is unlocked or the token does, and
  otherwise pays everything unlocked and unclaimed, to the beneficiary whoever calls; afterwards nothing
  is claimable in the same ledger. \<open>claim_vested_as\<close> is the same for the beneficiary and traps for others.
\<close>

theorem claim_decided:
  assumes "vault_at n s" and "n \<le> timestamp c" and "scheduled st cl en tot s" and "v_claimed s = Some k"
    and "v_beneficiary s = Some b" and "v_token s = Some t"
  shows "claim_vested c s = (let v = vested_at st cl en tot (timestamp c) in
       if v \<le> k then Trap
       else case tok_transfer c t (self c) b (v - k) (v_ledger s) of
           None \<Rightarrow> Trap
         | Some l \<Rightarrow> Ok (v - k) (s\<lparr>v_claimed := Some v, v_ledger := l, v_events := v_events s @ [(b, v - k)]\<rparr>))
     \<and> claim_vested_as c x s = (if signed c x \<and> x = b then claim_vested c s else Trap)
     \<and> (\<forall>v u. claim_vested c s = Ok v u \<longrightarrow> claimable_amount c u = Ok 0 u)"
proof (intro conjI allI impI)
  have "vault_ok n s" by (rule vault_at_ok [OF assms(1)])
  then have k: "0 \<le> k" "k \<le> tot"
    using assms(3,4) vested_at_bounds(2) [OF assms(3), of n]
    by (auto simp: vault_ok_def scheduled_def split: if_splits)
  show run: "claim_vested c s = (let v = vested_at st cl en tot (timestamp c) in
       if v \<le> k then Trap
       else case tok_transfer c t (self c) b (v - k) (v_ledger s) of
           None \<Rightarrow> Trap
         | Some l \<Rightarrow> Ok (v - k) (s\<lparr>v_claimed := Some v, v_ledger := l, v_events := v_events s @ [(b, v - k)]\<rparr>))"
    by (rule claim_run [OF assms(3,4) k assms(5,6)])
  show "claim_vested_as c x s = (if signed c x \<and> x = b then claim_vested c s else Trap)"
    using assms(5) by (auto simp: claim_vested_as_def signs_def run_defs)
  fix v u
  assume "claim_vested c s = Ok v u"
  then have u: "scheduled st cl en tot u" "v_claimed u = Some (vested_at st cl en tot (timestamp c))"
    using assms(3) unfolding run by (auto simp: Let_def scheduled_def split: if_splits option.splits)
  show "claimable_amount c u = Ok 0 u"
    using claimable_run [OF u, of c] vested_at_bounds [OF u(1), of "timestamp c"] by simp
qed

theorem claim_decided_witness:
  "claim_vested_as (clock_at 1750000000) alice vesting = Trap
     \<and> claimable_amount (clock_at 1750000000) half_paid = Ok 0 half_paid"
  using claim_decided [OF vesting_at _ vesting_scheduled, of "clock_at 1750000000" 0 treasury usd alice]
    half_paid_run by simp

text \<open>
  C38. Once initialised, no call changes the schedule, the token or the admin; the beneficiary changes
  only by \<open>set_beneficiary\<close> with the admin's signature.
\<close>

theorem schedule_fixed:
  assumes "v_admin s = Some a" and "exec_vault c e s = Ok v u"
  shows "v_admin u = Some a \<and> v_token u = v_token s \<and> v_start u = v_start s \<and> v_cliff u = v_cliff s
     \<and> v_end u = v_end s \<and> v_total u = v_total s
     \<and> (v_beneficiary u = v_beneficiary s
        \<or> (\<exists>b. e = SetBeneficiary b \<and> signed c a \<and> v_beneficiary u = Some b))"
proof -
  let ?P = "\<lambda>u :: 'a vault. v_admin u = Some a \<and> v_token u = v_token s \<and> v_start u = v_start s \<and> v_cliff u = v_cliff s
     \<and> v_end u = v_end s \<and> v_total u = v_total s \<and> v_beneficiary u = v_beneficiary s"
  have reads: "wp (claimable_amount c) (\<lambda>_ t. t = s) s"
    by (rule wpI) (auto simp: claimable_amount_def vested_amount_def claimed_amount_def mul_wide_def plus_u128_def
        times_u128_def div_wide_by_i128_def run_defs chk_def Let_def split: if_splits option.splits prod.splits)
  have claim: "wp (claim_vested c) (\<lambda>_. ?P) s"
    unfolding claim_vested_def wp_and_then
    by (rule wp_conseq [OF reads])
      (use assms(1) in \<open>auto simp: wp_simps claimed_amount_def wp_pay_out split: option.split\<close>)
  show ?thesis
  proof (cases e)
    case ClaimVested
    then show ?thesis using wp_OkD [OF claim] assms(2) by simp
  next
    case (ClaimVestedAs x)
    then have "claim_vested c s = Ok v u"
      using assms(2) by (simp add: claim_vested_as_def signs_def run_defs split: if_splits option.splits)
    then show ?thesis using wp_OkD [OF claim] by simp
  qed (use assms in \<open>auto simp: initialize_def set_beneficiary_def signs_def run_defs split: if_splits\<close>)
qed

theorem schedule_fixed_witness:
  "v_total half_paid = Some (10 ^ 38) \<and> v_beneficiary half_paid = Some treasury"
  using schedule_fixed [of vesting owner "clock_at 1750000000" ClaimVested "5 * 10 ^ 37" half_paid] half_paid_run
  by (simp add: vesting_def blank_vault_def)

end
